(* ===== verification/Msg_Prelude.thy ===== *)
theory Msg_Prelude
  imports Main "HOL-Library.Word"
begin

text \<open>
  Shared vocabulary of the development: Rust's machine integers, results with an
  explicit panic outcome, fixed-size byte arrays (\<open>[u8; N]\<close>, \<open>Bytes32\<close>, \<open>Bytes48\<close>,
  \<open>Bytes96\<close>), the standard-library arithmetic the crate uses (saturating addition and
  subtraction, big-endian bytes, the \<open>as usize\<close> cast), and the lemma collections that the
  component theories rewrite with.
\<close>

unbundle bit_operations_syntax

section \<open>Machine integers and byte strings\<close>

type_synonym u8 = "8 word"
type_synonym u32 = "32 word"
type_synonym u64 = "64 word"
type_synonym bytes = "u8 list"

named_theorems result_elims \<open>what a successful, failed or panicking sequence consists of\<close>
named_theorems const_defs \<open>the protocol constants, unfolded\<close>
named_theorems width_simps \<open>widths of the byte encodings\<close>

text \<open>A byte-string literal \<open>b"..."\<close>.\<close>

definition ascii :: "string \<Rightarrow> bytes" where
  "ascii s = map of_char s"

lemma length_ascii [simp, width_simps]: "length (ascii s) = length s"
  by (simp add: ascii_def)

text \<open>Rust's \<open>u64::from(x)\<close> on a \<open>u32\<close>.\<close>

definition u64_from :: "u32 \<Rightarrow> u64" where
  "u64_from x = ucast x"

lemma unat_u64_from [simp]: "unat (u64_from x) = unat x"
  by (simp add: u64_from_def unsigned_ucast_eq take_bit_nat_eq_self unsigned_less [THEN order_less_le_trans])

text \<open>A counter below the end of its range is incremented without wrapping.\<close>

lemma unat_Suc: "c \<noteq> -1 \<Longrightarrow> unat (c + 1 :: u64) = Suc (unat c)"
  by (metis unatSuc add.commute eq_neg_iff_add_eq_0)

text \<open>\<open>saturating_add\<close> and \<open>saturating_sub\<close> on unsigned integers.\<close>

definition saturating_add :: "'w::len word \<Rightarrow> 'w word \<Rightarrow> 'w word" where
  "saturating_add a b = (if unat a + unat b < 2 ^ LENGTH('w) then a + b else - 1)"

definition saturating_sub :: "'w::len word \<Rightarrow> 'w word \<Rightarrow> 'w word" where
  "saturating_sub a b = (if b \<le> a then a - b else 0)"

lemma unat_saturating_add:
  "unat (saturating_add a (b :: 'w::len word)) = min (unat a + unat b) (2 ^ LENGTH('w) - 1)"
  by (auto simp: saturating_add_def unat_add_lem [THEN iffD1] unsigned_minus_1_eq_mask mask_eq_exp_minus_1)

lemma unat_saturating_sub: "unat (saturating_sub a b) = unat a - unat b"
  by (auto simp: saturating_sub_def unat_sub word_le_nat_alt)

text \<open>
  \<open>x as usize\<close> of a \<open>u64\<close> keeps the low \<open>pw\<close> bits, where \<open>pw\<close> is the pointer width of
  the target: 64 on the native targets, 32 on wasm32.
\<close>

definition as_usize :: "nat \<Rightarrow> u64 \<Rightarrow> nat" where
  "as_usize pw x = unat x mod 2 ^ pw"

lemma as_usize_64 [simp]: "as_usize 64 x = unat x"
  using unsigned_less [of x, where 'a = nat] by (simp add: as_usize_def)

section \<open>Results\<close>

text \<open>
  \<open>Result<A, E>\<close> with one more outcome: a panic (a failed \<open>expect\<close>, an index out of
  bounds), so that the absence of panics is a theorem and not an artefact of totality.
\<close>

datatype ('a, 'e) result = Ok 'a | Err 'e | Panic string

text \<open>The \<open>?\<close> operator: continue with the value, or return the error.\<close>

fun and_then :: "('a, 'e) result \<Rightarrow> ('a \<Rightarrow> ('b, 'e) result) \<Rightarrow> ('b, 'e) result" where
  "and_then (Ok x) f = f x"
| "and_then (Err e) f = Err e"
| "and_then (Panic m) f = Panic m"

fun ok_or :: "'a option \<Rightarrow> 'e \<Rightarrow> ('a, 'e) result" where
  "ok_or (Some x) e = Ok x"
| "ok_or None e = Err e"

fun expect :: "'a option \<Rightarrow> string \<Rightarrow> ('a, 'e) result" where
  "expect (Some x) m = Ok x"
| "expect None m = Panic m"

text \<open>\<open>map_err\<close> on the result of a library call (\<open>Inl\<close> is the library's error).\<close>

fun map_err :: "('l \<Rightarrow> 'e) \<Rightarrow> 'l + 'a \<Rightarrow> ('a, 'e) result" where
  "map_err f (Inr x) = Ok x"
| "map_err f (Inl e) = Err (f e)"

fun is_panic :: "('a, 'e) result \<Rightarrow> bool" where
  "is_panic (Panic m) = True"
| "is_panic r = False"

lemma and_then_Ok_iff [result_elims]: "and_then r f = Ok y \<longleftrightarrow> (\<exists>x. r = Ok x \<and> f x = Ok y)"
  by (cases r) auto

lemma and_then_assoc: "and_then (and_then r f) g = and_then r (\<lambda>x. and_then (f x) g)"
  by (cases r) simp_all

lemma and_then_Err_iff [result_elims]:
  "and_then r f = Err e \<longleftrightarrow> r = Err e \<or> (\<exists>x. r = Ok x \<and> f x = Err e)"
  by (cases r) auto

lemma is_panic_and_then [result_elims]:
  "is_panic (and_then r f) \<longleftrightarrow> is_panic r \<or> (\<exists>x. r = Ok x \<and> is_panic (f x))"
  by (cases r) auto

lemma ok_or_Ok_iff [result_elims, simp]: "ok_or r e = Ok x \<longleftrightarrow> r = Some x"
  by (cases r) auto

lemma ok_or_Err_iff [result_elims, simp]: "ok_or r e = Err e' \<longleftrightarrow> r = None \<and> e = e'"
  by (cases r) auto

lemma map_err_Ok_iff [result_elims, simp]: "map_err f r = Ok x \<longleftrightarrow> r = Inr x"
  by (cases r) auto

lemma map_err_Err_iff [result_elims, simp]: "map_err f r = Err e \<longleftrightarrow> (\<exists>l. r = Inl l \<and> e = f l)"
  by (cases r) auto

lemma ok_or_no_panic [simp]: "\<not> is_panic (ok_or r e)"
  by (cases r) auto

lemma map_err_no_panic [simp]: "\<not> is_panic (map_err f r)"
  by (cases r) auto

section \<open>Fixed-size byte arrays\<close>

text \<open>
  \<open>[u8; N]\<close> as the byte lists of length \<open>N\<close>, with the length a type parameter: every
  conversion between a slice and an array is total or checks the length, as in Rust.
\<close>

typedef (overloaded) 'n byte_array = "{bs :: bytes. length bs = LENGTH('n::len)}"
  morphisms as_ref Abs_byte_array
  by (rule exI [of _ "replicate LENGTH('n) 0"]) simp

lemma length_as_ref [simp, width_simps]: "length (as_ref (a :: 'n::len byte_array)) = LENGTH('n)"
  using as_ref [of a] by simp

lemma as_ref_eq_iff [simp]: "as_ref a = as_ref b \<longleftrightarrow> a = b"
  by (rule as_ref_inject)

text \<open>\<open>[b; N]\<close>, the array of \<open>N\<close> equal bytes, and \<open>try_into\<close> from a slice.\<close>

definition array_of_byte :: "u8 \<Rightarrow> 'n::len byte_array" where
  "array_of_byte b = Abs_byte_array (replicate LENGTH('n) b)"

definition array_of :: "bytes \<Rightarrow> 'n::len byte_array" where
  "array_of bs = (if length bs = LENGTH('n) then Abs_byte_array bs else array_of_byte 0)"

definition try_into :: "bytes \<Rightarrow> 'n::len byte_array option" where
  "try_into bs = (if length bs = LENGTH('n) then Some (array_of bs) else None)"

lemma as_ref_array_of_byte [simp]:
  "as_ref (array_of_byte b :: 'n::len byte_array) = replicate LENGTH('n) b"
  by (simp add: array_of_byte_def Abs_byte_array_inverse)

lemma as_ref_array_of: "length bs = LENGTH('n) \<Longrightarrow> as_ref (array_of bs :: 'n::len byte_array) = bs"
  by (simp add: array_of_def Abs_byte_array_inverse)

lemma array_of_as_ref [simp]: "array_of (as_ref a) = a"
  by (simp add: array_of_def as_ref_inverse)

lemma array_of_byte_eq_iff [simp]:
  "array_of_byte a = (array_of_byte b :: 'n::len byte_array) \<longleftrightarrow> a = b"
  by (simp flip: as_ref_eq_iff)

lemma try_into_Some_iff: "try_into bs = Some (a :: 'n::len byte_array) \<longleftrightarrow> bs = as_ref a"
  by (auto simp: try_into_def as_ref_array_of)

lemma try_into_as_ref [simp]: "try_into (as_ref a) = Some a"
  by (simp add: try_into_Some_iff)

lemma try_into_None_iff [simp]: "try_into bs = (None :: 'n::len byte_array option) \<longleftrightarrow> length bs \<noteq> LENGTH('n)"
  by (simp add: try_into_def)

instantiation byte_array :: (len) equal
begin

definition equal_byte_array :: "'a byte_array \<Rightarrow> 'a byte_array \<Rightarrow> bool" where
  "equal_byte_array a b \<longleftrightarrow> as_ref a = as_ref b"

instance
  by standard (simp add: equal_byte_array_def)

end

type_synonym bytes32 = "32 byte_array"
type_synonym bytes48 = "48 byte_array"
type_synonym bytes96 = "96 byte_array"

section \<open>Big-endian integers\<close>

text \<open>\<open>to_be_bytes\<close>: the bytes of a word, the most significant first.\<close>

definition be_bytes :: "nat \<Rightarrow> 'w::len word \<Rightarrow> bytes" where
  "be_bytes n x = map (\<lambda>i. ucast (drop_bit (8 * i) x)) (rev [0..<n])"

definition to_be_bytes :: "'w::len word \<Rightarrow> bytes" where
  "to_be_bytes x = be_bytes (LENGTH('w) div 8) x"

definition from_be_bytes :: "bytes \<Rightarrow> 'w::len word" where
  "from_be_bytes bs = foldl (\<lambda>acc b. push_bit 8 acc OR ucast b) 0 bs"

lemma length_be_bytes [simp, width_simps]: "length (be_bytes n x) = n"
  by (simp add: be_bytes_def)

lemma length_to_be_bytes [simp, width_simps]:
  "length (to_be_bytes (x :: 'w::len word)) = LENGTH('w) div 8"
  by (simp add: to_be_bytes_def)

lemma be_bytes_Suc: "be_bytes (Suc n) x = ucast (drop_bit (8 * n) x) # be_bytes n x"
  by (simp add: be_bytes_def)

lemma be_bytes_snoc: "be_bytes (Suc n) x = be_bytes n (drop_bit 8 x) @ [ucast x]"
  by (induction n) (simp_all add: be_bytes_Suc add.commute, simp add: be_bytes_def)

lemma foldl_be_bytes:
  "foldl (\<lambda>acc b. push_bit 8 acc OR ucast b) acc (be_bytes n x)
     = push_bit (8 * n) acc OR take_bit (8 * n) (x :: 'w::len word)"
proof (induction n arbitrary: acc)
  case 0
  then show ?case by (simp add: be_bytes_def)
next
  case (Suc n)
  show ?case
    by (rule bit_eqI) (auto simp: be_bytes_Suc Suc.IH bit_simps not_less add.commute)
qed

lemma from_to_be_bytes [simp]:
  assumes "8 dvd LENGTH('w)"
  shows "from_be_bytes (to_be_bytes x) = (x :: 'w::len word)"
  using assms by (simp add: from_be_bytes_def to_be_bytes_def foldl_be_bytes take_bit_length_eq)

lemma bit_from_be_bytes: "bit (from_be_bytes bs :: 'w::len word) k \<Longrightarrow> k < 8 * length bs"
proof (induction bs arbitrary: k rule: rev_induct)
  case Nil
  then show ?case by (simp add: from_be_bytes_def)
next
  case (snoc b bs)
  then have "bit (push_bit 8 (from_be_bytes bs :: 'w word)) k \<or> bit (ucast b :: 'w word) k"
    by (simp add: from_be_bytes_def bit_or_iff)
  then show ?case
    using snoc.IH [of "k - 8"] bit_imp_le_length [of b k] by (auto simp: bit_simps)
qed

lemma be_bytes_from_be_bytes:
  "8 * length bs \<le> LENGTH('w) \<Longrightarrow> be_bytes (length bs) (from_be_bytes bs :: 'w::len word) = bs"
proof (induction bs rule: rev_induct)
  case Nil
  then show ?case by (simp add: be_bytes_def)
next
  case (snoc b bs)
  let ?y = "from_be_bytes bs :: 'w word"
  have y: "from_be_bytes (bs @ [b]) = push_bit 8 ?y OR (ucast b :: 'w word)"
    by (simp add: from_be_bytes_def)
  have "drop_bit 8 (push_bit 8 ?y OR ucast b) = ?y"
    using snoc.prems bit_from_be_bytes [of bs, where 'w = 'w]
    by (intro bit_eqI) (fastforce simp: bit_simps dest: bit_imp_le_length)
  moreover have "(ucast (push_bit 8 ?y OR (ucast b :: 'w word)) :: u8) = b"
    using snoc.prems by (intro bit_eqI) (auto simp: bit_simps dest: bit_imp_le_length)
  ultimately show ?case
    using snoc by (simp add: be_bytes_snoc y)
qed

lemma to_from_be_bytes:
  assumes "8 * length bs = LENGTH('w)"
  shows "to_be_bytes (from_be_bytes bs :: 'w::len word) = bs"
proof -
  have "LENGTH('w) div 8 = length bs" using assms by simp
  then show ?thesis using assms by (simp add: to_be_bytes_def be_bytes_from_be_bytes)
qed

lemma to_be_bytes_inject [simp]:
  assumes "8 dvd LENGTH('w)"
  shows "to_be_bytes x = to_be_bytes y \<longleftrightarrow> x = (y :: 'w::len word)"
  using from_to_be_bytes [OF assms] by metis

end
