(* ===== verification/Chia_Codec.thy ===== *)
theory Chia_Codec
  imports Msg_Prelude
begin

text \<open>
  Chia's \<open>Streamable\<close> trait (the crates \<open>chia-traits\<close> and \<open>chia_streamable_macro\<close>, not part
  of this repository) as an interface. A codec writes a value (\<open>stream\<close>) and reads one from
  the front of the input (\<open>parse\<close>); both may fail with the text of a library error. The
  primitive codecs stay parameters of the model. What is modelled is the composition that
  \<open>#[derive(Streamable)]\<close> makes of them: the fields of the struct, in the order in which the
  source declares them, and the two default methods \<open>to_bytes\<close> and \<open>from_bytes\<close>.
\<close>

section \<open>The interface\<close>

record 'a codec =
  cstream :: "'a \<Rightarrow> string + bytes"
  cparse :: "bytes \<Rightarrow> string + ('a \<times> bytes)"

text \<open>
  The documented contract of a \<open>Streamable\<close> type: what was streamed parses back, leaving
  the rest of the input alone, and parsing accepts only what streaming writes (the format is
  canonical).
\<close>

locale streamable =
  fixes st :: "'a \<Rightarrow> string + bytes"
    and pa :: "bytes \<Rightarrow> string + ('a \<times> bytes)"
  assumes parse_stream: "st x = Inr b \<Longrightarrow> pa (b @ r) = Inr (x, r)"
    and stream_parse: "pa bs = Inr (x, r) \<Longrightarrow> \<exists>b. st x = Inr b \<and> bs = b @ r"
begin

lemma stream_prefix_free:
  assumes "st x = Inr b" and "st y = Inr c" and "b @ r = c @ s"
  shows "x = y \<and> b = c \<and> r = s"
proof -
  have "pa (c @ s) = Inr (x, r)" using parse_stream [OF assms(1), of r] assms(3) by simp
  moreover have "pa (c @ s) = Inr (y, s)" using parse_stream [OF assms(2)] by simp
  ultimately show ?thesis using assms(3) by simp
qed

lemma stream_inject: "st x = Inr b \<Longrightarrow> st y = Inr b \<Longrightarrow> x = y"
  using stream_prefix_free [of x b y b "[]" "[]"] by simp

end

abbreviation valid_codec :: "'a codec \<Rightarrow> bool" where
  "valid_codec C \<equiv> streamable (cstream C) (cparse C)"

section \<open>Deriving the codec of a struct\<close>

definition pair_codec :: "'a codec \<Rightarrow> 'b codec \<Rightarrow> ('a \<times> 'b) codec" where
  "pair_codec A B = \<lparr>
     cstream = (\<lambda>(a, b). case cstream A a of
         Inl e \<Rightarrow> Inl e
       | Inr x \<Rightarrow> (case cstream B b of Inl e \<Rightarrow> Inl e | Inr y \<Rightarrow> Inr (x @ y))),
     cparse = (\<lambda>bs. case cparse A bs of
         Inl e \<Rightarrow> Inl e
       | Inr (a, r) \<Rightarrow> (case cparse B r of Inl e \<Rightarrow> Inl e | Inr (b, r') \<Rightarrow> Inr ((a, b), r')))\<rparr>"

text \<open>A struct, given as the tuple of its fields.\<close>

definition struct_codec :: "('f \<Rightarrow> 's) \<Rightarrow> ('s \<Rightarrow> 'f) \<Rightarrow> 'f codec \<Rightarrow> 's codec" where
  "struct_codec mk sel C = \<lparr>
     cstream = (\<lambda>s. cstream C (sel s)),
     cparse = (\<lambda>bs. case cparse C bs of Inl e \<Rightarrow> Inl e | Inr (f, r) \<Rightarrow> Inr (mk f, r))\<rparr>"

lemma cstream_pair_Inr [simp]:
  "cstream (pair_codec A B) (a, b) = Inr bs \<longleftrightarrow>
     (\<exists>x y. cstream A a = Inr x \<and> cstream B b = Inr y \<and> bs = x @ y)"
  by (auto simp: pair_codec_def split: sum.splits)

lemma cparse_pair_Inr:
  "cparse (pair_codec A B) bs = Inr ((a, b), r) \<longleftrightarrow>
     (\<exists>s. cparse A bs = Inr (a, s) \<and> cparse B s = Inr (b, r))"
  by (auto simp: pair_codec_def split: sum.splits)

lemma valid_pair_codec:
  assumes A: "valid_codec A" and B: "valid_codec B"
  shows "valid_codec (pair_codec A B)"
proof
  fix p b r
  assume "cstream (pair_codec A B) p = Inr b"
  moreover obtain a c where "p = (a, c)" by (cases p)
  ultimately show "cparse (pair_codec A B) (b @ r) = Inr (p, r)"
    by (auto simp: cparse_pair_Inr streamable.parse_stream [OF A] streamable.parse_stream [OF B])
next
  fix bs p r
  assume *: "cparse (pair_codec A B) bs = Inr (p, r)"
  obtain a c where p: "p = (a, c)" by (cases p)
  from * obtain s where "cparse A bs = Inr (a, s)" and "cparse B s = Inr (c, r)"
    by (auto simp: p cparse_pair_Inr)
  then show "\<exists>b. cstream (pair_codec A B) p = Inr b \<and> bs = b @ r"
    by (auto simp: p dest!: streamable.stream_parse [OF A] streamable.stream_parse [OF B])
qed

lemma cstream_struct [simp]: "cstream (struct_codec mk sel C) s = cstream C (sel s)"
  by (simp add: struct_codec_def)

lemma valid_struct_codec:
  assumes C: "valid_codec C" and "\<And>s. mk (sel s) = s" and "\<And>f. sel (mk f) = f"
  shows "valid_codec (struct_codec mk sel C)"
proof
  fix s b r
  assume "cstream (struct_codec mk sel C) s = Inr b"
  then show "cparse (struct_codec mk sel C) (b @ r) = Inr (s, r)"
    using streamable.parse_stream [OF C, of "sel s" b r] assms(2) by (simp add: struct_codec_def)
next
  fix bs s r
  assume "cparse (struct_codec mk sel C) bs = Inr (s, r)"
  then obtain f where "cparse C bs = Inr (f, r)" and "s = mk f"
    by (auto simp: struct_codec_def split: sum.splits)
  then show "\<exists>b. cstream (struct_codec mk sel C) s = Inr b \<and> bs = b @ r"
    using streamable.stream_parse [OF C] assms(3) by fastforce
qed

section \<open>The default methods\<close>

definition to_bytes :: "'a codec \<Rightarrow> 'a \<Rightarrow> string + bytes" where
  "to_bytes C x = cstream C x"

text \<open>\<open>from_bytes\<close> parses one value and refuses input that is left over.\<close>

definition from_bytes :: "string \<Rightarrow> 'a codec \<Rightarrow> bytes \<Rightarrow> string + 'a" where
  "from_bytes leftover C bs =
     (case cparse C bs of
        Inl e \<Rightarrow> Inl e
      | Inr (x, r) \<Rightarrow> if r = [] then Inr x else Inl leftover)"

lemma from_bytes_to_bytes:
  assumes "valid_codec C" and "to_bytes C x = Inr b"
  shows "from_bytes l C b = Inr x"
  using streamable.parse_stream [OF assms(1), of x b "[]"] assms(2)
  by (simp add: from_bytes_def to_bytes_def)

lemma to_bytes_from_bytes:
  assumes "valid_codec C" and "from_bytes l C b = Inr x"
  shows "to_bytes C x = Inr b"
  using assms(2) streamable.stream_parse [OF assms(1)]
  by (fastforce simp: from_bytes_def to_bytes_def split: sum.splits if_splits)

end
