(* ===== verification/Msg_Errors.thy ===== *)
theory Msg_Errors
  imports Msg_Prelude
begin

text \<open>
  The protocol constants (\<open>src/constants.rs\<close>) and the error taxonomy (\<open>src/error.rs\<close>).
  Sizes and counts are natural numbers (\<open>usize\<close>), the times are \<open>u64\<close> milliseconds, as in
  the source.
\<close>

section \<open>Constants\<close>

definition ENVELOPE_VERSION :: u8 where [const_defs]: "ENVELOPE_VERSION = 1"

definition MAX_ENVELOPE_BYTES :: nat where [const_defs]: "MAX_ENVELOPE_BYTES = 16 * 1024 * 1024"

definition MAX_DECOMPRESSED_BYTES :: nat where
  [const_defs]: "MAX_DECOMPRESSED_BYTES = 64 * 1024 * 1024"

definition MAX_CHUNK_BYTES :: nat where [const_defs]: "MAX_CHUNK_BYTES = 1024 * 1024"

definition MAX_CHUNK_DECOMPRESSED_BYTES :: nat where
  [const_defs]: "MAX_CHUNK_DECOMPRESSED_BYTES = MAX_CHUNK_BYTES"

definition MIN_COMPRESS_BYTES :: nat where [const_defs]: "MIN_COMPRESS_BYTES = 64"

definition ZSTD_LEVEL :: int where [const_defs]: "ZSTD_LEVEL = 3"

definition FRESHNESS_WINDOW_MS :: u64 where [const_defs]: "FRESHNESS_WINDOW_MS = 300000"

definition REPLAY_WINDOW :: nat where [const_defs]: "REPLAY_WINDOW = 1024"

definition MAX_TRACKED_SENDERS :: nat where [const_defs]: "MAX_TRACKED_SENDERS = 100000"

definition MAX_MESSAGE_TTL_MS :: u64 where [const_defs]: "MAX_MESSAGE_TTL_MS = 2592000000"

definition SIG_DOMAIN :: bytes where "SIG_DOMAIN = ascii ''DIGNET-MSG:dig-message/v1''"

definition MAX_CONCURRENT_STREAMS :: nat where [const_defs]: "MAX_CONCURRENT_STREAMS = 64"

section \<open>Errors\<close>

text \<open>
  One constructor per variant, its fields in the source's order. The \<open>String\<close> payloads are
  the texts of the underlying library errors.
\<close>

datatype message_error =
    EnvelopeTooLarge nat nat \<comment> \<open>\<open>size\<close>, \<open>max\<close>\<close>
  | Truncated string
  | UnsupportedVersion u8
  | UnsupportedCompression u8
  | DecompressionBomb nat nat \<comment> \<open>\<open>declared\<close>, \<open>max\<close>\<close>
  | DecompressedLengthMismatch nat nat \<comment> \<open>\<open>expected\<close>, \<open>actual\<close>\<close>
  | PayloadTooLarge nat
  | Codec string
  | UnsupportedType u32
  | DuplicateType u32
  | InvalidPoint
  | UnresolvableSender
  | SealFailed string
  | OpenFailed
  | BadSignature
  | HeaderMismatch
  | Replay
  | Expired
  | TtlTooLong
  | StreamLimit nat \<comment> \<open>\<open>cap\<close>\<close>
  | StreamProtocol string

type_synonym 'a res = "('a, message_error) result"

end
