(* ===== verification/Msg_Envelope.thy ===== *)
theory Msg_Envelope
  imports Chia_Codec Msg_Errors
begin

text \<open>
  The wire shapes and the size-bounded codec of \<open>src/envelope.rs\<close>: the interaction shapes
  and stream frame kinds with their encodings, the stream header, the sealed payload, the
  inner message and the envelope as records in the source's field order, their derived
  codecs, \<open>header_bytes\<close>, \<open>encode_envelope\<close> and \<open>decode_envelope\<close>.
\<close>

section \<open>Shapes and frame kinds\<close>

type_synonym message_type = u32 \<comment> \<open>the newtype \<open>MessageType(pub u32)\<close>\<close>

datatype interaction_shape = OneShot | Request | Response | StreamFrame

definition FLAG_SHAPE_MASK :: u8 where [const_defs]: "FLAG_SHAPE_MASK = 0b00000011"

definition FLAG_SEALED :: u8 where [const_defs]: "FLAG_SEALED = 0b00000100"

definition from_flags :: "u8 \<Rightarrow> interaction_shape option" where
  "from_flags flags =
     (let v = flags AND FLAG_SHAPE_MASK
      in if v = 0 then Some OneShot
         else if v = 1 then Some Request
         else if v = 2 then Some Response
         else if v = 3 then Some StreamFrame
         else None)"

fun as_bits :: "interaction_shape \<Rightarrow> u8" where
  "as_bits OneShot = 0"
| "as_bits Request = 1"
| "as_bits Response = 2"
| "as_bits StreamFrame = 3"

datatype stream_frame = Open | OpenAck | Data | Credit | Close | CloseAck | Reset

definition frame_from_u8 :: "u8 \<Rightarrow> stream_frame option" where
  "frame_from_u8 v =
     (if v = 0 then Some Open
      else if v = 1 then Some OpenAck
      else if v = 2 then Some Data
      else if v = 3 then Some Credit
      else if v = 4 then Some Close
      else if v = 5 then Some CloseAck
      else if v = 6 then Some Reset
      else None)"

fun frame_as_u8 :: "stream_frame \<Rightarrow> u8" where
  "frame_as_u8 Open = 0"
| "frame_as_u8 OpenAck = 1"
| "frame_as_u8 Data = 2"
| "frame_as_u8 Credit = 3"
| "frame_as_u8 Close = 4"
| "frame_as_u8 CloseAck = 5"
| "frame_as_u8 Reset = 6"

section \<open>The structs\<close>

record stream_header =
  hdr_frame :: u8
  hdr_seq :: u64
  hdr_window :: u32

record sealed_payload =
  kem_enc :: bytes48
  ciphertext :: bytes

record inner_message =
  im_message_type :: u32
  im_correlation_id :: bytes32
  im_compression :: u8
  im_uncompressed_len :: u32
  im_counter :: u64
  im_timestamp_ms :: u64
  im_expires_at :: u64
  im_payload :: bytes
  im_sender_sig :: bytes96

record dig_message_envelope =
  env_version :: u8
  env_message_type :: u32
  env_flags :: u8
  env_correlation_id :: bytes32
  env_sender :: bytes32
  env_recipient :: bytes32
  env_sender_epoch :: u32
  env_stream :: "stream_header option"
  env_sealed :: sealed_payload

section \<open>The codecs\<close>

text \<open>The primitive \<open>Streamable\<close> instances of the library, and its leftover-input error.\<close>

record chia_lib =
  chia_u8 :: "u8 codec"
  chia_u32 :: "u32 codec"
  chia_u64 :: "u64 codec"
  chia_bytes32 :: "bytes32 codec"
  chia_bytes48 :: "bytes48 codec"
  chia_bytes96 :: "bytes96 codec"
  chia_vec :: "bytes codec"
  chia_option :: "stream_header codec \<Rightarrow> stream_header option codec"
  chia_leftover :: string

definition stream_header_codec :: "chia_lib \<Rightarrow> stream_header codec" where
  "stream_header_codec L = struct_codec
     (\<lambda>(f, s, w). \<lparr>hdr_frame = f, hdr_seq = s, hdr_window = w\<rparr>)
     (\<lambda>h. (hdr_frame h, hdr_seq h, hdr_window h))
     (pair_codec (chia_u8 L) (pair_codec (chia_u64 L) (chia_u32 L)))"

definition sealed_payload_codec :: "chia_lib \<Rightarrow> sealed_payload codec" where
  "sealed_payload_codec L = struct_codec
     (\<lambda>(k, c). \<lparr>kem_enc = k, ciphertext = c\<rparr>)
     (\<lambda>s. (kem_enc s, ciphertext s))
     (pair_codec (chia_bytes48 L) (chia_vec L))"

definition inner_message_codec :: "chia_lib \<Rightarrow> inner_message codec" where
  "inner_message_codec L = struct_codec
     (\<lambda>(mt, ci, co, ul, ct, ts, ex, pl, sg). \<lparr>im_message_type = mt, im_correlation_id = ci,
        im_compression = co, im_uncompressed_len = ul, im_counter = ct, im_timestamp_ms = ts,
        im_expires_at = ex, im_payload = pl, im_sender_sig = sg\<rparr>)
     (\<lambda>m. (im_message_type m, im_correlation_id m, im_compression m, im_uncompressed_len m,
        im_counter m, im_timestamp_ms m, im_expires_at m, im_payload m, im_sender_sig m))
     (pair_codec (chia_u32 L) (pair_codec (chia_bytes32 L) (pair_codec (chia_u8 L)
       (pair_codec (chia_u32 L) (pair_codec (chia_u64 L) (pair_codec (chia_u64 L)
         (pair_codec (chia_u64 L) (pair_codec (chia_vec L) (chia_bytes96 L)))))))))"

definition envelope_codec :: "chia_lib \<Rightarrow> dig_message_envelope codec" where
  "envelope_codec L = struct_codec
     (\<lambda>(ve, mt, fl, ci, se, re, ep, st, sd). \<lparr>env_version = ve, env_message_type = mt,
        env_flags = fl, env_correlation_id = ci, env_sender = se, env_recipient = re,
        env_sender_epoch = ep, env_stream = st, env_sealed = sd\<rparr>)
     (\<lambda>e. (env_version e, env_message_type e, env_flags e, env_correlation_id e, env_sender e,
        env_recipient e, env_sender_epoch e, env_stream e, env_sealed e))
     (pair_codec (chia_u8 L) (pair_codec (chia_u32 L) (pair_codec (chia_u8 L)
       (pair_codec (chia_bytes32 L) (pair_codec (chia_bytes32 L) (pair_codec (chia_bytes32 L)
         (pair_codec (chia_u32 L) (pair_codec (chia_option L (stream_header_codec L))
           (sealed_payload_codec L)))))))))"

section \<open>Header bytes, encoding and decoding\<close>

definition header_bytes :: "chia_lib \<Rightarrow> dig_message_envelope \<Rightarrow> bytes res" where
  "header_bytes L e =
     and_then (map_err Codec (cstream (chia_u8 L) (env_version e))) (\<lambda>b1.
     and_then (map_err Codec (cstream (chia_u32 L) (env_message_type e))) (\<lambda>b2.
     and_then (map_err Codec (cstream (chia_u8 L) (env_flags e))) (\<lambda>b3.
     and_then (map_err Codec (cstream (chia_bytes32 L) (env_correlation_id e))) (\<lambda>b4.
     and_then (map_err Codec (cstream (chia_bytes32 L) (env_sender e))) (\<lambda>b5.
     and_then (map_err Codec (cstream (chia_bytes32 L) (env_recipient e))) (\<lambda>b6.
     and_then (map_err Codec (cstream (chia_u32 L) (env_sender_epoch e))) (\<lambda>b7.
     and_then (map_err Codec (cstream (chia_option L (stream_header_codec L)) (env_stream e))) (\<lambda>b8.
     Ok (b1 @ b2 @ b3 @ b4 @ b5 @ b6 @ b7 @ b8)))))))))"

definition encode_envelope :: "chia_lib \<Rightarrow> dig_message_envelope \<Rightarrow> bytes res" where
  "encode_envelope L e =
     and_then (map_err Codec (to_bytes (envelope_codec L) e)) (\<lambda>bytes.
       if length bytes > MAX_ENVELOPE_BYTES
       then Err (EnvelopeTooLarge (length bytes) MAX_ENVELOPE_BYTES)
       else Ok bytes)"

definition decode_envelope :: "chia_lib \<Rightarrow> bytes \<Rightarrow> dig_message_envelope res" where
  "decode_envelope L bytes =
     (if length bytes > MAX_ENVELOPE_BYTES
      then Err (EnvelopeTooLarge (length bytes) MAX_ENVELOPE_BYTES)
      else and_then (map_err Truncated (from_bytes (chia_leftover L) (envelope_codec L) bytes)) (\<lambda>e.
        if env_version e > ENVELOPE_VERSION
        then Err (UnsupportedVersion (env_version e))
        else Ok e))"

section \<open>What the library promises, and what follows for the structs\<close>

locale chia_streamable =
  fixes L :: chia_lib
  assumes u8: "valid_codec (chia_u8 L)"
    and u32: "valid_codec (chia_u32 L)"
    and u64: "valid_codec (chia_u64 L)"
    and bytes32: "valid_codec (chia_bytes32 L)"
    and bytes48: "valid_codec (chia_bytes48 L)"
    and bytes96: "valid_codec (chia_bytes96 L)"
    and vec: "valid_codec (chia_vec L)"
    and option: "valid_codec C \<Longrightarrow> valid_codec (chia_option L C)"

sublocale chia_streamable \<subseteq> header: streamable
  "cstream (stream_header_codec L)" "cparse (stream_header_codec L)"
  unfolding stream_header_codec_def
  by (intro valid_struct_codec valid_pair_codec u8 u32 u64) (auto split: prod.splits)

sublocale chia_streamable \<subseteq> sealed: streamable
  "cstream (sealed_payload_codec L)" "cparse (sealed_payload_codec L)"
  unfolding sealed_payload_codec_def
  by (intro valid_struct_codec valid_pair_codec bytes48 vec) (auto split: prod.splits)

sublocale chia_streamable \<subseteq> inner: streamable
  "cstream (inner_message_codec L)" "cparse (inner_message_codec L)"
  unfolding inner_message_codec_def
  by (intro valid_struct_codec valid_pair_codec u8 u32 u64 vec bytes32 bytes96)
    (auto split: prod.splits)

sublocale chia_streamable \<subseteq> opt_header: streamable
  "cstream (chia_option L (stream_header_codec L))" "cparse (chia_option L (stream_header_codec L))"
  by (rule option) (rule header.streamable_axioms)

sublocale chia_streamable \<subseteq> envelope: streamable
  "cstream (envelope_codec L)" "cparse (envelope_codec L)"
  unfolding envelope_codec_def
  by (intro valid_struct_codec valid_pair_codec u8 u32 bytes32
        opt_header.streamable_axioms sealed.streamable_axioms) (auto split: prod.splits)

context chia_streamable
begin

lemma inner_round_trip:
  "to_bytes (inner_message_codec L) m = Inr b \<Longrightarrow>
   from_bytes l (inner_message_codec L) b = Inr m"
  by (rule from_bytes_to_bytes [OF inner.streamable_axioms])

lemma decode_encode:
  assumes "encode_envelope L e = Ok b" and "env_version e \<le> ENVELOPE_VERSION"
  shows "decode_envelope L b = Ok e"
  using assms from_bytes_to_bytes [OF envelope.streamable_axioms]
  by (auto simp: encode_envelope_def decode_envelope_def result_elims not_less split: if_splits)

lemma encode_decode:
  assumes "decode_envelope L b = Ok e"
  shows "encode_envelope L e = Ok b"
  using assms to_bytes_from_bytes [OF envelope.streamable_axioms]
  by (auto simp: encode_envelope_def decode_envelope_def result_elims split: if_splits)

text \<open>The format is prefix-free, so that no proper prefix of an encoding parses.\<close>

lemma truncated_refused:
  assumes "encode_envelope L e = Ok b" and "n < length b"
  shows "\<exists>x. decode_envelope L (take n b) = Err (Truncated x)"
proof (cases "from_bytes (chia_leftover L) (envelope_codec L) (take n b)")
  case (Inl x)
  then show ?thesis
    using assms by (auto simp: encode_envelope_def decode_envelope_def result_elims split: if_splits)
next
  case (Inr f)
  then have "cstream (envelope_codec L) f = Inr (take n b)"
    using to_bytes_from_bytes [OF envelope.streamable_axioms] by (simp add: to_bytes_def)
  moreover have "cstream (envelope_codec L) e = Inr b"
    using assms(1) by (auto simp: encode_envelope_def to_bytes_def result_elims split: if_splits)
  ultimately show ?thesis
    using envelope.stream_prefix_free [of f "take n b" e b "drop n b" "[]"] assms(2) by simp
qed

end

text \<open>The encoding of an envelope is its header bytes followed by the sealed region.\<close>

lemma envelope_stream_split:
  "cstream (envelope_codec L) e = Inr b \<longleftrightarrow>
     (\<exists>h s. header_bytes L e = Ok h \<and> cstream (sealed_payload_codec L) (env_sealed e) = Inr s
        \<and> b = h @ s)"
  by (auto simp: envelope_codec_def header_bytes_def result_elims)

lemma header_bytes_no_panic [simp]: "\<not> is_panic (header_bytes L e)"
  by (simp add: header_bytes_def result_elims)

text \<open>
  The header bytes determine the eight cleartext fields: they are prefix-free, field by field.
\<close>

definition same_header :: "dig_message_envelope \<Rightarrow> dig_message_envelope \<Rightarrow> bool" where
  "same_header e f \<longleftrightarrow>
     env_version e = env_version f \<and> env_message_type e = env_message_type f \<and>
     env_flags e = env_flags f \<and> env_correlation_id e = env_correlation_id f \<and>
     env_sender e = env_sender f \<and> env_recipient e = env_recipient f \<and>
     env_sender_epoch e = env_sender_epoch f \<and> env_stream e = env_stream f"

context chia_streamable
begin

lemma header_bytes_inject:
  assumes e: "header_bytes L e = Ok h" and f: "header_bytes L f = Ok h"
  shows "same_header e f"
proof -
  let ?C = "pair_codec (chia_u8 L) (pair_codec (chia_u32 L) (pair_codec (chia_u8 L)
       (pair_codec (chia_bytes32 L) (pair_codec (chia_bytes32 L) (pair_codec (chia_bytes32 L)
         (pair_codec (chia_u32 L) (chia_option L (stream_header_codec L))))))))"
  let ?t = "\<lambda>e. (env_version e, env_message_type e, env_flags e, env_correlation_id e,
     env_sender e, env_recipient e, env_sender_epoch e, env_stream e)"
  have C: "valid_codec ?C"
    by (intro valid_pair_codec u8 u32 bytes32 opt_header.streamable_axioms)
  have "cstream ?C (?t e) = Inr h" "cstream ?C (?t f) = Inr h"
    using e f by (auto simp: header_bytes_def result_elims)
  then have "?t e = ?t f" by (rule streamable.stream_inject [OF C])
  then show ?thesis by (simp add: same_header_def)
qed

end

section \<open>Sizes\<close>

text \<open>
  The widths of the primitive encodings, as the repository's known-answer tests fix them (an
  envelope without and with a stream header, and 24 bytes of ciphertext, has 183 and 196
  bytes).
\<close>

locale chia_sized = chia_streamable +
  assumes len_u8: "\<exists>b. cstream (chia_u8 L) x8 = Inr b \<and> length b = 1"
    and len_u32: "\<exists>b. cstream (chia_u32 L) x32 = Inr b \<and> length b = 4"
    and len_u64: "\<exists>b. cstream (chia_u64 L) x64 = Inr b \<and> length b = 8"
    and len_bytes32: "\<exists>b. cstream (chia_bytes32 L) a32 = Inr b \<and> length b = 32"
    and len_bytes48: "\<exists>b. cstream (chia_bytes48 L) a48 = Inr b \<and> length b = 48"
    and len_bytes96: "\<exists>b. cstream (chia_bytes96 L) a96 = Inr b \<and> length b = 96"
    and len_vec: "length v < 2 ^ 32 \<Longrightarrow> \<exists>b. cstream (chia_vec L) v = Inr b \<and> length b = 4 + length v"
    and len_none: "\<exists>b. cstream (chia_option L C) None = Inr b \<and> length b = 1"
    and len_some: "cstream C h = Inr c \<Longrightarrow>
      \<exists>b. cstream (chia_option L C) (Some h) = Inr b \<and> length b = 1 + length c"

definition header_size :: "dig_message_envelope \<Rightarrow> nat" where
  "header_size e = 106 + (case env_stream e of None \<Rightarrow> 1 | Some _ \<Rightarrow> 14)"

definition envelope_size :: "dig_message_envelope \<Rightarrow> nat" where
  "envelope_size e = header_size e + 52 + length (ciphertext (env_sealed e))"

definition inner_size :: "inner_message \<Rightarrow> nat" where
  "inner_size m = 165 + length (im_payload m)"

context chia_sized
begin

lemma len_stream_header: "\<exists>b. cstream (stream_header_codec L) h = Inr b \<and> length b = 13"
proof -
  obtain a b c where "cstream (chia_u8 L) (hdr_frame h) = Inr a" "length a = 1"
    "cstream (chia_u64 L) (hdr_seq h) = Inr b" "length b = 8"
    "cstream (chia_u32 L) (hdr_window h) = Inr c" "length c = 4"
    using len_u8 len_u64 len_u32 by meson
  then show ?thesis by (auto simp: stream_header_codec_def)
qed

lemma len_option_header:
  "\<exists>b. cstream (chia_option L (stream_header_codec L)) s = Inr b
     \<and> length b = (case s of None \<Rightarrow> 1 | Some _ \<Rightarrow> 14)"
proof (cases s)
  case None
  then show ?thesis using len_none by simp
next
  case (Some h)
  obtain c where "cstream (stream_header_codec L) h = Inr c" "length c = 13"
    using len_stream_header by blast
  then show ?thesis using Some len_some [of "stream_header_codec L" h c] by simp
qed

lemma header_bytes_Ok: "\<exists>h. header_bytes L e = Ok h \<and> length h = header_size e"
proof -
  obtain b1 b2 b3 b4 b5 b6 b7 b8 where
    "cstream (chia_u8 L) (env_version e) = Inr b1" "length b1 = 1"
    "cstream (chia_u32 L) (env_message_type e) = Inr b2" "length b2 = 4"
    "cstream (chia_u8 L) (env_flags e) = Inr b3" "length b3 = 1"
    "cstream (chia_bytes32 L) (env_correlation_id e) = Inr b4" "length b4 = 32"
    "cstream (chia_bytes32 L) (env_sender e) = Inr b5" "length b5 = 32"
    "cstream (chia_bytes32 L) (env_recipient e) = Inr b6" "length b6 = 32"
    "cstream (chia_u32 L) (env_sender_epoch e) = Inr b7" "length b7 = 4"
    "cstream (chia_option L (stream_header_codec L)) (env_stream e) = Inr b8"
    "length b8 = (case env_stream e of None \<Rightarrow> 1 | Some _ \<Rightarrow> 14)"
    using len_u8 len_u32 len_bytes32 len_option_header by meson
  then show ?thesis by (simp add: header_bytes_def header_size_def)
qed

lemma len_sealed:
  assumes "length (ciphertext s) < 2 ^ 32"
  shows "\<exists>b. cstream (sealed_payload_codec L) s = Inr b \<and> length b = 52 + length (ciphertext s)"
proof -
  obtain a c where "cstream (chia_bytes48 L) (kem_enc s) = Inr a" "length a = 48"
    "cstream (chia_vec L) (ciphertext s) = Inr c" "length c = 4 + length (ciphertext s)"
    using len_bytes48 len_vec [OF assms] by meson
  then show ?thesis by (auto simp: sealed_payload_codec_def)
qed

lemma len_envelope:
  assumes "length (ciphertext (env_sealed e)) < 2 ^ 32"
  shows "\<exists>b. to_bytes (envelope_codec L) e = Inr b \<and> length b = envelope_size e"
  using header_bytes_Ok [of e] len_sealed [OF assms]
  by (auto simp: to_bytes_def envelope_stream_split envelope_size_def)

lemma len_inner:
  assumes "length (im_payload m) < 2 ^ 32"
  shows "\<exists>b. to_bytes (inner_message_codec L) m = Inr b \<and> length b = inner_size m"
proof -
  obtain b1 b2 b3 b4 b5 b6 b7 b8 b9 where
    "cstream (chia_u32 L) (im_message_type m) = Inr b1" "length b1 = 4"
    "cstream (chia_bytes32 L) (im_correlation_id m) = Inr b2" "length b2 = 32"
    "cstream (chia_u8 L) (im_compression m) = Inr b3" "length b3 = 1"
    "cstream (chia_u32 L) (im_uncompressed_len m) = Inr b4" "length b4 = 4"
    "cstream (chia_u64 L) (im_counter m) = Inr b5" "length b5 = 8"
    "cstream (chia_u64 L) (im_timestamp_ms m) = Inr b6" "length b6 = 8"
    "cstream (chia_u64 L) (im_expires_at m) = Inr b7" "length b7 = 8"
    "cstream (chia_vec L) (im_payload m) = Inr b8" "length b8 = 4 + length (im_payload m)"
    "cstream (chia_bytes96 L) (im_sender_sig m) = Inr b9" "length b9 = 96"
    using len_u8 len_u32 len_u64 len_bytes32 len_bytes96 len_vec [OF assms] by meson
  then show ?thesis by (auto simp: to_bytes_def inner_message_codec_def inner_size_def)
qed

lemma encode_envelope_size:
  assumes "length (ciphertext (env_sealed e)) < 2 ^ 32"
  shows "if envelope_size e > MAX_ENVELOPE_BYTES
         then encode_envelope L e = Err (EnvelopeTooLarge (envelope_size e) MAX_ENVELOPE_BYTES)
         else \<exists>b. encode_envelope L e = Ok b \<and> length b = envelope_size e"
  using len_envelope [OF assms] by (auto simp: encode_envelope_def)

end

section \<open>The tags are bijective\<close>

lemma from_flags_as_bits [simp]: "from_flags (as_bits s OR FLAG_SEALED) = Some s"
  by (cases s) (simp_all add: from_flags_def const_defs Let_def)

lemma flags_and_mask: "(w :: u8) AND FLAG_SHAPE_MASK \<in> {0, 1, 2, 3}"
proof -
  have "w AND FLAG_SHAPE_MASK = take_bit 2 w"
    by (simp add: FLAG_SHAPE_MASK_def take_bit_eq_mask mask_eq_exp_minus_1 and.commute)
  moreover have "unat (take_bit 2 w) < 4"
    by (simp only: unsigned_take_bit_eq) (simp add: take_bit_eq_mod)
  then have "unat (take_bit 2 w) \<in> {0, 1, 2, 3}" by (simp only: insert_iff empty_iff) arith
  then have "take_bit 2 w \<in> {0, 1, 2, 3}"
    by (simp only: insert_iff empty_iff word_unat_eq_iff) simp
  ultimately show ?thesis by simp
qed

lemma from_flags_total: "\<exists>s. from_flags flags = Some s"
  using flags_and_mask [of flags] by (auto simp: from_flags_def Let_def)

lemma frame_from_as_u8 [simp]: "frame_from_u8 (frame_as_u8 f) = Some f"
  by (cases f) (simp_all add: frame_from_u8_def)

lemma frame_from_u8_Some_iff: "frame_from_u8 v = Some f \<longleftrightarrow> v = frame_as_u8 f"
  by (cases f) (auto simp: frame_from_u8_def split: if_splits)

end
