(* ===== verification/Msg_Crypto.thy ===== *)
theory Msg_Crypto
  imports Msg_Errors
begin

text \<open>
  The cryptographic libraries the crate composes (\<open>dig-identity\<close>, \<open>chia-bls\<close>, \<open>sha2\<close>,
  \<open>hkdf\<close>, \<open>chacha20poly1305\<close>), none of which is part of this repository: a record of
  functions, and as an interface the functional behaviour that the seal relies on. Nothing
  is assumed about what an adversary can compute.
\<close>

type_synonym okm = "44 byte_array" \<comment> \<open>\<open>[u8; OKM_LEN]\<close>, the AEAD key and the base nonce\<close>

record 'sk crypto_lib =
  public_key_bytes :: "'sk \<Rightarrow> bytes48"
  g1_dh :: "'sk \<Rightarrow> bytes48 \<Rightarrow> bytes48 option"
  g1_subgroup_check :: "bytes48 \<Rightarrow> bool"
  sign_message :: "'sk \<Rightarrow> bytes \<Rightarrow> bytes96"
  verify_signature :: "bytes48 \<Rightarrow> bytes \<Rightarrow> bytes96 \<Rightarrow> bool"
  sha256 :: "bytes \<Rightarrow> bytes32"
  hkdf_sha256 :: "bytes option \<Rightarrow> bytes \<Rightarrow> bytes \<Rightarrow> okm option" \<comment> \<open>salt, ikm, info\<close>
  chacha_encrypt :: "bytes32 \<Rightarrow> 12 byte_array \<Rightarrow> bytes \<Rightarrow> bytes \<Rightarrow> bytes option" \<comment> \<open>key, nonce, aad, msg\<close>
  chacha_decrypt :: "bytes32 \<Rightarrow> 12 byte_array \<Rightarrow> bytes \<Rightarrow> bytes \<Rightarrow> bytes option"
  sk_from_seed :: "bytes32 \<Rightarrow> 'sk"

text \<open>
  Documented behaviour: the Diffie-Hellman of two key pairs agrees and is defined, public
  keys lie in the prime-order subgroup, an honest signature verifies, HKDF-SHA256 can expand
  44 bytes (its limit is 255 blocks of 32), and the AEAD encrypts every message below its
  size limit and decrypts exactly what it encrypts.
\<close>

locale crypto_primitives =
  fixes C :: "'sk crypto_lib"
  assumes dh_agree: "g1_dh C a (public_key_bytes C b) = g1_dh C b (public_key_bytes C a)"
    and dh_defined: "\<exists>z. g1_dh C a (public_key_bytes C b) = Some z"
    and public_key_in_subgroup: "g1_subgroup_check C (public_key_bytes C a)"
    and verify_sign: "verify_signature C (public_key_bytes C a) m (sign_message C a m)"
    and hkdf_defined: "\<exists>okm. hkdf_sha256 C salt ikm info = Some okm"
    and encrypt_defined: "length m < 2 ^ 38 - 64 \<Longrightarrow> \<exists>c. chacha_encrypt C k n aad m = Some c"
    and decrypt_encrypt: "chacha_encrypt C k n aad m = Some c \<Longrightarrow> chacha_decrypt C k n aad c = Some m"

section \<open>An instance\<close>

text \<open>
  A transparent instance on one-byte keys, for evaluation: it satisfies the interface and
  has no cryptographic strength. Keys, signatures, hashes and tags are byte sums.
\<close>

definition byte_sum :: "bytes \<Rightarrow> u8" where
  "byte_sum bs = sum_list bs"

definition key_byte :: "'n::len byte_array \<Rightarrow> u8" where
  "key_byte a = hd (as_ref a)"

lemma key_byte_array_of_byte [simp]: "key_byte (array_of_byte b) = b"
  by (simp add: key_byte_def hd_replicate)

definition sum_crypto :: "u8 crypto_lib" where
  "sum_crypto = \<lparr>
     public_key_bytes = array_of_byte,
     g1_dh = (\<lambda>sk p. if p = array_of_byte (key_byte p) then Some (array_of_byte (sk + key_byte p)) else None),
     g1_subgroup_check = (\<lambda>p. p = array_of_byte (key_byte p)),
     sign_message = (\<lambda>sk m. array_of_byte (sk + byte_sum m)),
     verify_signature = (\<lambda>p m s. s = array_of_byte (key_byte p + byte_sum m)),
     sha256 = (\<lambda>m. array_of_byte (byte_sum m)),
     hkdf_sha256 = (\<lambda>salt ikm info. Some (array_of_byte (byte_sum ikm + byte_sum info))),
     chacha_encrypt = (\<lambda>k n aad m. Some ((byte_sum (as_ref k) + byte_sum aad + byte_sum m) # m)),
     chacha_decrypt = (\<lambda>k n aad c. case c of [] \<Rightarrow> None
        | t # m \<Rightarrow> if t = byte_sum (as_ref k) + byte_sum aad + byte_sum m then Some m else None),
     sk_from_seed = key_byte\<rparr>"

interpretation sum: crypto_primitives sum_crypto
  by unfold_locales (simp_all add: sum_crypto_def add.commute)

end
