(* ===== verification/Msg_Transcript.thy ===== *)
theory Msg_Transcript
  imports Msg_Envelope Msg_Crypto
begin

text \<open>
  The signed transcript (\<open>src/transcript.rs\<close>): the fields a sender signature binds, their
  fixed-width big-endian serialisation behind the domain tag, signing and verification.
\<close>

definition TRANSCRIPT_LEN :: nat where
  [const_defs]: "TRANSCRIPT_LEN = 1 + 4 + 1 + 32 + 32 + 32 + 4 + 8 + 8 + 8 + 1 + 8 + 48 + 1 + 4 + 32"

record transcript_fields =
  tf_version :: u8
  tf_message_type :: u32
  tf_flags :: u8
  tf_correlation_id :: bytes32
  tf_sender :: bytes32
  tf_recipient :: bytes32
  tf_sender_epoch :: u32
  tf_counter :: u64
  tf_timestamp_ms :: u64
  tf_expires_at :: u64
  tf_stream :: "stream_header option"
  tf_kem_enc :: bytes48
  tf_compression :: u8
  tf_uncompressed_len :: u32
  tf_compressed_payload :: bytes

text \<open>\<open>self.stream.map_or((0, 0), |s| (s.frame, s.seq))\<close>.\<close>

definition frame_and_seq :: "stream_header option \<Rightarrow> u8 \<times> u64" where
  "frame_and_seq s = (case s of None \<Rightarrow> (0, 0) | Some h \<Rightarrow> (hdr_frame h, hdr_seq h))"

definition signing_bytes :: "'sk crypto_lib \<Rightarrow> transcript_fields \<Rightarrow> bytes" where
  "signing_bytes C t =
     (let (frame, seq) = frame_and_seq (tf_stream t);
          hash = sha256 C (tf_compressed_payload t)
      in SIG_DOMAIN
         @ to_be_bytes (tf_version t)
         @ to_be_bytes (tf_message_type t)
         @ to_be_bytes (tf_flags t)
         @ as_ref (tf_correlation_id t)
         @ as_ref (tf_sender t)
         @ as_ref (tf_recipient t)
         @ to_be_bytes (tf_sender_epoch t)
         @ to_be_bytes (tf_counter t)
         @ to_be_bytes (tf_timestamp_ms t)
         @ to_be_bytes (tf_expires_at t)
         @ to_be_bytes frame
         @ to_be_bytes seq
         @ as_ref (tf_kem_enc t)
         @ to_be_bytes (tf_compression t)
         @ to_be_bytes (tf_uncompressed_len t)
         @ as_ref hash)"

definition transcript_sign :: "'sk crypto_lib \<Rightarrow> transcript_fields \<Rightarrow> 'sk \<Rightarrow> bytes96" where
  "transcript_sign C t sender_sk = sign_message C sender_sk (signing_bytes C t)"

definition transcript_verify ::
    "'sk crypto_lib \<Rightarrow> transcript_fields \<Rightarrow> bytes48 \<Rightarrow> bytes96 \<Rightarrow> bool" where
  "transcript_verify C t sender_pub sig = verify_signature C sender_pub (signing_bytes C t) sig"

section \<open>Width, domain tag and injectivity\<close>

lemma length_SIG_DOMAIN [simp, width_simps]: "length SIG_DOMAIN = 25"
  by (simp add: SIG_DOMAIN_def)

lemma length_signing_bytes: "length (signing_bytes C t) = length SIG_DOMAIN + TRANSCRIPT_LEN"
  by (simp add: signing_bytes_def Let_def const_defs split: prod.split)

lemma signing_bytes_domain: "take (length SIG_DOMAIN) (signing_bytes C t) = SIG_DOMAIN"
  by (simp add: signing_bytes_def Let_def split: prod.split)

text \<open>What a transcript determines: every field, the payload through its hash.\<close>

definition same_transcript :: "'sk crypto_lib \<Rightarrow> transcript_fields \<Rightarrow> transcript_fields \<Rightarrow> bool" where
  "same_transcript C s t \<longleftrightarrow>
     tf_version s = tf_version t \<and> tf_message_type s = tf_message_type t \<and>
     tf_flags s = tf_flags t \<and> tf_correlation_id s = tf_correlation_id t \<and>
     tf_sender s = tf_sender t \<and> tf_recipient s = tf_recipient t \<and>
     tf_sender_epoch s = tf_sender_epoch t \<and> tf_counter s = tf_counter t \<and>
     tf_timestamp_ms s = tf_timestamp_ms t \<and> tf_expires_at s = tf_expires_at t \<and>
     frame_and_seq (tf_stream s) = frame_and_seq (tf_stream t) \<and>
     tf_kem_enc s = tf_kem_enc t \<and> tf_compression s = tf_compression t \<and>
     tf_uncompressed_len s = tf_uncompressed_len t \<and>
     sha256 C (tf_compressed_payload s) = sha256 C (tf_compressed_payload t)"

lemma signing_bytes_eq_iff: "signing_bytes C s = signing_bytes C t \<longleftrightarrow> same_transcript C s t"
  by (auto simp: signing_bytes_def same_transcript_def Let_def split: prod.splits)

section \<open>Properties\<close>

text \<open>
  C23: the signed transcript determines what it covers. Two transcripts have the same signing
  bytes exactly when they agree in version, type, flags, correlation id, sender, recipient,
  epoch, counter, timestamp, expiry, frame kind and number, encapsulation, codec, declared
  length and payload hash; the signing bytes start with the domain tag and have a fixed length.
\<close>
theorem transcript_binding:
  "(signing_bytes C s = signing_bytes C t \<longleftrightarrow> same_transcript C s t) \<and>
   take (length SIG_DOMAIN) (signing_bytes C t) = SIG_DOMAIN \<and>
   length (signing_bytes C t) = length SIG_DOMAIN + TRANSCRIPT_LEN"
  using signing_bytes_eq_iff signing_bytes_domain length_signing_bytes by blast

text \<open>
  What the signature leaves open. The flow-control window of the stream header is not in
  the signed bytes, and a message without a stream header signs as an OPEN frame numbered 0:
  these are bound by the associated data of the seal alone.
\<close>
theorem transcript_omits_window:
  "signing_bytes C (t\<lparr>tf_stream := Some h\<rparr>) = signing_bytes C (t\<lparr>tf_stream := Some (h\<lparr>hdr_window := w\<rparr>)\<rparr>) \<and>
   signing_bytes C (t\<lparr>tf_stream := None\<rparr>) =
     signing_bytes C (t\<lparr>tf_stream := Some \<lparr>hdr_frame = frame_as_u8 Open, hdr_seq = 0, hdr_window = w\<rparr>\<rparr>)"
  by (simp add: signing_bytes_def frame_and_seq_def)

end
