(* ===== verification/Msg_Compression.thy ===== *)
theory Msg_Compression
  imports Msg_Errors
begin

text \<open>
  The compression layer (\<open>src/compression.rs\<close>): the choice between the raw and the zstd codec
  on the sending side and the guarded decompression on the receiving side. The zstd library
  is a parameter; what the crate relies on is the interface \<open>zstd_codec\<close>.
\<close>

section \<open>The library\<close>

record zstd_lib =
  zstd_compress :: "bytes \<Rightarrow> int \<Rightarrow> string + bytes" \<comment> \<open>\<open>zstd::bulk::compress(data, level)\<close>\<close>
  zstd_decompress :: "bytes \<Rightarrow> nat \<Rightarrow> string + bytes" \<comment> \<open>\<open>zstd::bulk::decompress(data, capacity)\<close>\<close>

section \<open>Compressing and decompressing\<close>

definition COMPRESSION_NONE :: u8 where [const_defs]: "COMPRESSION_NONE = 0"

definition COMPRESSION_ZSTD :: u8 where [const_defs]: "COMPRESSION_ZSTD = 1"

record compressed_payload =
  cp_compression :: u8
  cp_bytes :: bytes
  cp_uncompressed_len :: u32

definition raw :: "bytes \<Rightarrow> u32 \<Rightarrow> compressed_payload" where
  "raw payload uncompressed_len =
     \<lparr>cp_compression = COMPRESSION_NONE, cp_bytes = payload, cp_uncompressed_len = uncompressed_len\<rparr>"

text \<open>\<open>u32::try_from\<close> of a length.\<close>

definition u32_try_from :: "nat \<Rightarrow> u32 option" where
  "u32_try_from n = (if n < 2 ^ 32 then Some (of_nat n) else None)"

definition compress_payload :: "zstd_lib \<Rightarrow> bytes \<Rightarrow> compressed_payload res" where
  "compress_payload Z payload =
     and_then (ok_or (u32_try_from (length payload)) (PayloadTooLarge (length payload))) (\<lambda>uncompressed_len.
     if length payload < MIN_COMPRESS_BYTES then Ok (raw payload uncompressed_len)
     else and_then (map_err Codec (zstd_compress Z payload ZSTD_LEVEL)) (\<lambda>compressed.
       if length compressed \<ge> length payload then Ok (raw payload uncompressed_len)
       else Ok \<lparr>cp_compression = COMPRESSION_ZSTD, cp_bytes = compressed,
                cp_uncompressed_len = uncompressed_len\<rparr>))"

definition decompress_payload :: "zstd_lib \<Rightarrow> u8 \<Rightarrow> bytes \<Rightarrow> u32 \<Rightarrow> bytes res" where
  "decompress_payload Z compression data uncompressed_len =
     (let declared = unat uncompressed_len
      in if declared > MAX_DECOMPRESSED_BYTES
         then Err (DecompressionBomb declared MAX_DECOMPRESSED_BYTES)
         else if compression = COMPRESSION_NONE then
           (if length data \<noteq> declared
            then Err (DecompressedLengthMismatch declared (length data))
            else Ok data)
         else if compression = COMPRESSION_ZSTD then
           and_then (map_err Codec (zstd_decompress Z data declared)) (\<lambda>decoded.
             if length decoded \<noteq> declared
             then Err (DecompressedLengthMismatch declared (length decoded))
             else Ok decoded)
         else Err (UnsupportedCompression compression))"

section \<open>What holds of them\<close>

lemma u32_try_from_Some [simp]: "u32_try_from n = Some u \<Longrightarrow> unat u = n"
  by (auto simp: u32_try_from_def unsigned_of_nat take_bit_nat_eq_self split: if_splits)

lemma compress_no_panic [simp]: "\<not> is_panic (compress_payload Z p)"
  by (simp add: compress_payload_def result_elims)

lemma decompress_no_panic [simp]: "\<not> is_panic (decompress_payload Z c d n)"
  by (simp add: decompress_payload_def result_elims Let_def)

lemma compress_cases:
  assumes "compress_payload Z p = Ok c"
  obtains (raw) u where "c = raw p u" "unat u = length p"
    | (zstd) u b where "zstd_compress Z p ZSTD_LEVEL = Inr b" "length b < length p"
        "MIN_COMPRESS_BYTES \<le> length p" "unat u = length p"
        "c = \<lparr>cp_compression = COMPRESSION_ZSTD, cp_bytes = b, cp_uncompressed_len = u\<rparr>"
  using assms
  by (auto simp: compress_payload_def result_elims not_less not_le split: if_splits)

text \<open>
  The interface of the library: decompression inverts compression within the given capacity
  and never returns more than the capacity.
\<close>

locale zstd_codec =
  fixes Z :: zstd_lib
  assumes decompress_compress:
      "zstd_compress Z p l = Inr c \<Longrightarrow> length p \<le> cap \<Longrightarrow> zstd_decompress Z c cap = Inr p"
    and decompress_capacity: "zstd_decompress Z c cap = Inr d \<Longrightarrow> length d \<le> cap"
begin

lemma compress_round_trip:
  assumes "compress_payload Z p = Ok c" and "length p \<le> MAX_DECOMPRESSED_BYTES"
  shows "decompress_payload Z (cp_compression c) (cp_bytes c) (cp_uncompressed_len c) = Ok p"
  using assms(1)
proof (cases rule: compress_cases)
  case (raw u)
  then show ?thesis using assms(2) by (simp add: decompress_payload_def raw_def)
next
  case (zstd u b)
  then show ?thesis
    using assms(2) decompress_compress [OF zstd(1), of "length p"]
    by (simp add: decompress_payload_def COMPRESSION_ZSTD_def COMPRESSION_NONE_def)
qed

end

text \<open>A payload over the receiver's cap is sealed all the same, and no receiver opens it.\<close>

lemma compress_over_cap:
  assumes "compress_payload Z p = Ok c" and "MAX_DECOMPRESSED_BYTES < length p"
  shows "decompress_payload Z (cp_compression c) (cp_bytes c) (cp_uncompressed_len c)
           = Err (DecompressionBomb (length p) MAX_DECOMPRESSED_BYTES)"
proof -
  have "unat (cp_uncompressed_len c) = length p"
    using assms(1) by (cases rule: compress_cases) (auto simp: raw_def)
  then show ?thesis using assms(2) by (simp add: decompress_payload_def)
qed

lemma compress_length: "compress_payload Z p = Ok c \<Longrightarrow> length (cp_bytes c) \<le> length p"
  by (erule compress_cases) (auto simp: raw_def)

lemma compress_declared: "compress_payload Z p = Ok c \<Longrightarrow> unat (cp_uncompressed_len c) = length p"
  by (erule compress_cases) (auto simp: raw_def)

lemma decompress_bounds:
  assumes "decompress_payload Z c d n = Ok p"
  shows "length p = unat n \<and> unat n \<le> MAX_DECOMPRESSED_BYTES"
  using assms
  by (auto simp: decompress_payload_def result_elims Let_def not_less split: if_splits)

section \<open>An instance of the library\<close>

text \<open>
  Run-length coding of constant payloads: \<open>b\<close> repeated \<open>n\<close> times becomes the nine bytes
  \<open>b\<close>, \<open>n\<close>; other payloads are prefixed by a marker. It satisfies the interface and does
  shrink long constant payloads, so both codecs of the source are exercised.
\<close>

definition rle_compress :: "bytes \<Rightarrow> int \<Rightarrow> string + bytes" where
  "rle_compress p l =
     (if length p < 2 ^ 64 \<and> p \<noteq> [] \<and> p = replicate (length p) (hd p)
      then Inr (1 # hd p # to_be_bytes (of_nat (length p) :: u64))
      else Inr (0 # p))"

definition rle_decompress :: "bytes \<Rightarrow> nat \<Rightarrow> string + bytes" where
  "rle_decompress c cap =
     (case c of
        [] \<Rightarrow> Inl ''empty frame''
      | t # r \<Rightarrow>
          if t = 0 then (if length r \<le> cap then Inr r else Inl ''destination too small'')
          else (case r of
             [] \<Rightarrow> Inl ''truncated frame''
           | b # ns \<Rightarrow>
               let n = unat (from_be_bytes ns :: u64)
               in if n \<le> cap then Inr (replicate n b) else Inl ''destination too small''))"

definition rle_zstd :: zstd_lib where
  "rle_zstd = \<lparr>zstd_compress = rle_compress, zstd_decompress = rle_decompress\<rparr>"

interpretation rle: zstd_codec rle_zstd
proof
  fix p l c cap
  assume "zstd_compress rle_zstd p l = Inr c" and "length p \<le> cap"
  then show "zstd_decompress rle_zstd c cap = Inr p"
    by (auto simp: rle_zstd_def rle_compress_def rle_decompress_def unsigned_of_nat
        take_bit_nat_eq_self split: if_splits)
next
  fix c cap d
  assume "zstd_decompress rle_zstd c cap = Inr d"
  then show "length d \<le> cap"
    by (auto simp: rle_zstd_def rle_decompress_def Let_def split: list.splits if_splits)
qed

section \<open>Properties\<close>

text \<open>
  C30: decompression inverts compression, on both codecs. A payload within the receiver's cap
  comes back unchanged from whatever the sender chose, and the chosen bytes are never longer
  than the payload.
\<close>
theorem compression_round_trip:
  assumes "zstd_codec Z" and "compress_payload Z p = Ok c" and "length p \<le> MAX_DECOMPRESSED_BYTES"
  shows "decompress_payload Z (cp_compression c) (cp_bytes c) (cp_uncompressed_len c) = Ok p \<and>
    length (cp_bytes c) \<le> length p"
  using zstd_codec.compress_round_trip [OF assms] compress_length [OF assms(2)] by blast

theorem compression_round_trip_witness:
  "\<exists>c. compress_payload rle_zstd (replicate 100 7) = Ok c \<and> cp_compression c = COMPRESSION_ZSTD \<and>
     decompress_payload rle_zstd (cp_compression c) (cp_bytes c) (cp_uncompressed_len c) = Ok (replicate 100 7)"
proof -
  have "\<exists>c. compress_payload rle_zstd (replicate 100 7) = Ok c \<and> cp_compression c = COMPRESSION_ZSTD"
    by (simp add: compress_payload_def u32_try_from_def rle_zstd_def rle_compress_def const_defs)
  then obtain c where c: "compress_payload rle_zstd (replicate 100 7) = Ok c" "cp_compression c = COMPRESSION_ZSTD"
    by blast
  with compression_round_trip [OF rle.zstd_codec_axioms c(1)] show ?thesis by (auto simp: const_defs)
qed

text \<open>
  C31: the decompression-bomb guard, whatever the library does. A result has exactly the declared
  length, at most 64 MiB; a larger declaration is refused without calling the library, and an
  unknown codec is refused.
\<close>
theorem decompression_guard:
  "(decompress_payload Z c d n = Ok p \<longrightarrow> length p = unat n \<and> length p \<le> MAX_DECOMPRESSED_BYTES) \<and>
   (MAX_DECOMPRESSED_BYTES < unat n \<longrightarrow>
      decompress_payload Z c d n = Err (DecompressionBomb (unat n) MAX_DECOMPRESSED_BYTES)) \<and>
   (unat n \<le> MAX_DECOMPRESSED_BYTES \<and> c \<noteq> COMPRESSION_NONE \<and> c \<noteq> COMPRESSION_ZSTD \<longrightarrow>
      decompress_payload Z c d n = Err (UnsupportedCompression c))"
  using decompress_bounds [of Z c d n p] by (auto simp: decompress_payload_def Let_def)

theorem decompression_guard_witness:
  "decompress_payload rle_zstd 0 [1, 2] 2 = Ok [1, 2] \<and> length [1, 2 :: u8] \<le> MAX_DECOMPRESSED_BYTES \<and>
   decompress_payload rle_zstd 1 [] (- 1) = Err (DecompressionBomb (2 ^ 32 - 1) MAX_DECOMPRESSED_BYTES) \<and>
   decompress_payload rle_zstd 9 [] 0 = Err (UnsupportedCompression 9)"
  using decompression_guard [of rle_zstd 0 "[1, 2]" 2 "[1, 2]"] decompression_guard [of rle_zstd 1 "[]" "- 1"]
    decompression_guard [of rle_zstd 9 "[]" 0]
  by (simp add: const_defs decompress_payload_def unsigned_minus_1_eq_mask mask_eq_exp_minus_1)

end
