(* ===== verification/Hash_Map.thy ===== *)
theory Hash_Map
  imports Msg_Prelude "HOL-Library.AList"
begin

text \<open>
  The standard library's \<open>HashMap\<close>, as the crate uses it: an association list with
  distinct keys. The order of the list has no meaning; where the source iterates over a map
  (the eviction of the anti-replay table) the iteration order is a parameter of the
  operation. The interface \<open>hash_table\<close> states what the three clients (the anti-replay
  table, the stream registry and the type registry) rely on.
\<close>

section \<open>The interface\<close>

locale hash_table =
  fixes new :: 'm
    and get :: "'m \<Rightarrow> 'k \<Rightarrow> 'v option"
    and put :: "'k \<Rightarrow> 'v \<Rightarrow> 'm \<Rightarrow> 'm"
    and del :: "'k \<Rightarrow> 'm \<Rightarrow> 'm"
    and len :: "'m \<Rightarrow> nat"
    and wf :: "'m \<Rightarrow> bool"
  assumes get_new: "get new k = None"
    and get_put: "get (put k v m) k' = (if k' = k then Some v else get m k')"
    and get_del: "get (del k m) k' = (if k' = k then None else get m k')"
    and finite_dom: "finite (dom (get m))"
    and len_card: "wf m \<Longrightarrow> len m = card (dom (get m))"
    and wf_new: "wf new"
    and wf_put: "wf m \<Longrightarrow> wf (put k v m)"
    and wf_del: "wf m \<Longrightarrow> wf (del k m)"
begin

lemma dom_put: "dom (get (put k v m)) = insert k (dom (get m))"
  by (auto simp: dom_def get_put)

lemma dom_del: "dom (get (del k m)) = dom (get m) - {k}"
  by (auto simp: dom_def get_del)

lemma len_new: "len new = 0"
  by (simp add: len_card wf_new dom_def get_new)

lemma len_put_fresh: "wf m \<Longrightarrow> get m k = None \<Longrightarrow> len (put k v m) = Suc (len m)"
  by (simp add: len_card wf_put dom_put finite_dom domIff)

lemma len_put_known: "wf m \<Longrightarrow> get m k \<noteq> None \<Longrightarrow> len (put k v m) = len m"
  by (auto simp: len_card wf_put dom_put domIff intro: arg_cong [where f = card])

lemma len_del_known: "wf m \<Longrightarrow> get m k \<noteq> None \<Longrightarrow> Suc (len (del k m)) = len m"
  using card_Suc_Diff1 [OF finite_dom, of k m]
  by (simp add: len_card wf_del dom_del domIff del: card_Diff_insert)

lemma len_del_le: "wf m \<Longrightarrow> len (del k m) \<le> len m"
  by (simp add: len_card wf_del dom_del finite_dom card_mono)

lemma len_put_le: "wf m \<Longrightarrow> len (put k v m) \<le> Suc (len m)"
  by (simp add: len_card wf_put dom_put card_insert_le_m1 card_insert_if finite_dom)

lemma get_put_other: "k' \<noteq> k \<Longrightarrow> get (put k v m) k' = get m k'"
  by (simp add: get_put)

end

section \<open>The implementation\<close>

type_synonym ('k, 'v) hash_map = "('k \<times> 'v) list"

definition hm_new :: "('k, 'v) hash_map" where
  "hm_new = []"

definition hm_get :: "('k, 'v) hash_map \<Rightarrow> 'k \<Rightarrow> 'v option" where
  "hm_get m k = map_of m k"

definition hm_contains_key :: "('k, 'v) hash_map \<Rightarrow> 'k \<Rightarrow> bool" where
  "hm_contains_key m k = (hm_get m k \<noteq> None)"

definition hm_insert :: "'k \<Rightarrow> 'v \<Rightarrow> ('k, 'v) hash_map \<Rightarrow> ('k, 'v) hash_map" where
  "hm_insert k v m = AList.update k v m"

definition hm_remove :: "'k \<Rightarrow> ('k, 'v) hash_map \<Rightarrow> ('k, 'v) hash_map" where
  "hm_remove k m = AList.delete k m"

definition hm_len :: "('k, 'v) hash_map \<Rightarrow> nat" where
  "hm_len m = length m"

definition hm_wf :: "('k, 'v) hash_map \<Rightarrow> bool" where
  "hm_wf m = distinct (map fst m)"

lemma hm_len_card: "hm_wf m \<Longrightarrow> hm_len m = card (dom (hm_get m))"
proof -
  assume "hm_wf m"
  then have "length m = card (set (map fst m))"
    using distinct_card [of "map fst m"] by (simp add: hm_wf_def)
  moreover have "dom (hm_get m) = set (map fst m)"
    by (simp add: hm_get_def [abs_def] dom_map_of_conv_image_fst)
  ultimately show ?thesis by (simp add: hm_len_def)
qed

lemma hm_wf_insert: "hm_wf m \<Longrightarrow> hm_wf (hm_insert k v m)"
  by (simp add: hm_wf_def hm_insert_def distinct_update)

lemma hm_wf_remove: "hm_wf m \<Longrightarrow> hm_wf (hm_remove k m)"
  by (simp add: hm_wf_def hm_remove_def distinct_delete)

interpretation hm: hash_table hm_new hm_get hm_insert hm_remove hm_len hm_wf
proof unfold_locales
  show "hm_get hm_new k = None" for k :: 'a
    by (simp add: hm_get_def hm_new_def)
  show "hm_get (hm_insert k v m) k' = (if k' = k then Some v else hm_get m k')"
    for k k' :: 'a and v :: 'b and m
    by (simp add: hm_get_def hm_insert_def update_conv')
  show "hm_get (hm_remove k m) k' = (if k' = k then None else hm_get m k')"
    for k k' :: 'a and m :: "('a, 'b) hash_map"
    by (simp add: hm_get_def hm_remove_def delete_conv')
  show "finite (dom (hm_get m))" for m :: "('a, 'b) hash_map"
    by (simp add: hm_get_def [abs_def] finite_dom_map_of)
qed (simp_all add: hm_len_card hm_wf_insert hm_wf_remove, simp add: hm_wf_def hm_new_def)

lemmas hm_simps [simp] = hm.get_new hm.get_put hm.get_del hm.len_new hm.wf_new hm.wf_put hm.wf_del

lemma hm_contains_key_new [simp]: "\<not> hm_contains_key hm_new k"
  by (simp add: hm_contains_key_def)

lemma hm_get_in_set: "hm_get m k = Some v \<Longrightarrow> (k, v) \<in> set m"
  by (simp add: hm_get_def map_of_SomeD)

lemma hm_in_set_get: "hm_wf m \<Longrightarrow> (k, v) \<in> set m \<Longrightarrow> hm_get m k = Some v"
  by (simp add: hm_get_def hm_wf_def)

section \<open>Iterating for a minimum\<close>

text \<open>\<open>Iterator::min_by_key\<close>: the first element whose key is minimal.\<close>

fun min_by_key :: "('a \<Rightarrow> 'b::linorder) \<Rightarrow> 'a list \<Rightarrow> 'a option" where
  "min_by_key f [] = None"
| "min_by_key f (x # xs) =
     (case min_by_key f xs of None \<Rightarrow> Some x | Some y \<Rightarrow> if f x \<le> f y then Some x else Some y)"

lemma min_by_key_None_iff [simp]: "min_by_key f xs = None \<longleftrightarrow> xs = []"
  by (cases xs) (auto split: option.splits)

lemma min_by_key_in_set: "min_by_key f xs = Some x \<Longrightarrow> x \<in> set xs"
  by (induction xs arbitrary: x) (auto split: option.splits if_splits)

lemma min_by_key_le: "min_by_key f xs = Some x \<Longrightarrow> y \<in> set xs \<Longrightarrow> f x \<le> f y"
  by (induction xs arbitrary: x) (fastforce split: option.splits if_splits)+

end
