(* ===== verification/Replay_Guard.thy ===== *)
theory Replay_Guard
  imports Hash_Map Msg_Errors "HOL-Library.Multiset"
begin

text \<open>
  Anti-replay protection (\<open>src/replay.rs\<close>). The per-sender window keeps the highest counter
  and a bitmap of 1024 bits in sixteen \<open>u64\<close> words; the guard keeps one window per
  \<open>(sender DID, sender_epoch)\<close> under a cap, evicting the least recently seen sender.

  The window operations take the pointer width \<open>pw\<close> of the target, because the source
  casts \<open>u64\<close> counter differences with \<open>as usize\<close>. The guard runs at the width
  \<open>POINTER_WIDTH\<close>.
\<close>

section \<open>The sliding window of one sender\<close>

definition WINDOW_WORDS :: nat where [const_defs]: "WINDOW_WORDS = REPLAY_WINDOW div 64"

type_synonym sender_key = "bytes32 \<times> u32"

record sender_window =
  highest :: u64
  bits :: "u64 list" \<comment> \<open>\<open>[u64; WINDOW_WORDS]\<close>\<close>
  last_seen_ms :: u64
  started :: bool

definition window_new :: sender_window where
  "window_new = \<lparr>highest = 0, bits = replicate WINDOW_WORDS 0, last_seen_ms = 0, started = False\<rparr>"

text \<open>Indexing \<open>self.bits[i]\<close> panics out of bounds.\<close>

definition get_bit :: "nat \<Rightarrow> sender_window \<Rightarrow> u64 \<Rightarrow> bool res" where
  "get_bit pw w offset =
     (let i = as_usize pw offset
      in if i div 64 < length (bits w)
         then Ok ((drop_bit (i mod 64) (bits w ! (i div 64))) AND 1 = 1)
         else Panic ''index out of bounds'')"

definition set_bit :: "nat \<Rightarrow> sender_window \<Rightarrow> u64 \<Rightarrow> sender_window res" where
  "set_bit pw w offset =
     (let i = as_usize pw offset
      in if i div 64 < length (bits w)
         then Ok (w\<lparr>bits := (bits w)[i div 64 := bits w ! (i div 64) OR push_bit (i mod 64) 1]\<rparr>)
         else Panic ''index out of bounds'')"

text \<open>One iteration of the loop of \<open>shift_left\<close>: the new word \<open>i\<close>.\<close>

definition shifted_word :: "nat \<Rightarrow> nat \<Rightarrow> u64 list \<Rightarrow> nat \<Rightarrow> u64" where
  "shifted_word word_shift bit_shift bs i =
     (if i \<ge> word_shift then
        (let v = push_bit bit_shift (bs ! (i - word_shift))
         in if bit_shift > 0 \<and> i > word_shift
            then v OR drop_bit (64 - bit_shift) (bs ! (i - word_shift - 1))
            else v)
      else 0)"

definition shift_left :: "nat \<Rightarrow> sender_window \<Rightarrow> u64 \<Rightarrow> sender_window" where
  "shift_left pw w diff =
     (if as_usize pw diff \<ge> REPLAY_WINDOW then w\<lparr>bits := replicate WINDOW_WORDS 0\<rparr>
      else
        let shift = as_usize pw diff;
            word_shift = shift div 64;
            bit_shift = shift mod 64;
            out = fold (\<lambda>i out. out[i := shifted_word word_shift bit_shift (bits w) i])
                    (rev [0..<WINDOW_WORDS]) (replicate WINDOW_WORDS 0)
        in w\<lparr>bits := out\<rparr>)"

definition admit :: "nat \<Rightarrow> sender_window \<Rightarrow> u64 \<Rightarrow> (bool \<times> sender_window) res" where
  "admit pw w counter =
     (if \<not> started w then
        and_then (set_bit pw (w\<lparr>started := True, highest := counter\<rparr>) 0) (\<lambda>w'. Ok (True, w'))
      else if counter > highest w then
        and_then (set_bit pw ((shift_left pw w (counter - highest w))\<lparr>highest := counter\<rparr>) 0)
          (\<lambda>w'. Ok (True, w'))
      else
        let offset = highest w - counter
        in if as_usize pw offset \<ge> REPLAY_WINDOW then Ok (False, w)
           else and_then (get_bit pw w offset) (\<lambda>b.
             if b then Ok (False, w)
             else and_then (set_bit pw w offset) (\<lambda>w'. Ok (True, w'))))"

section \<open>The guard\<close>

definition POINTER_WIDTH :: nat where [const_defs]: "POINTER_WIDTH = 64"

type_synonym replay_guard = "(sender_key, sender_window) hash_map"

definition guard_new :: replay_guard where
  "guard_new = hm_new"

definition tracked_senders :: "replay_guard \<Rightarrow> nat" where
  "tracked_senders g = hm_len g"

text \<open>
  The order in which a \<open>HashMap\<close> is iterated is unspecified: it is the parameter \<open>iter\<close>,
  some rearrangement of the entries.
\<close>

type_synonym iteration =
  "(sender_key \<times> sender_window) list \<Rightarrow> (sender_key \<times> sender_window) list"

definition evict_if_full :: "iteration \<Rightarrow> replay_guard \<Rightarrow> replay_guard" where
  "evict_if_full iter g =
     (if hm_len g < MAX_TRACKED_SENDERS then g
      else case min_by_key (\<lambda>(_, w). last_seen_ms w) (iter g) of
             Some (victim, _) \<Rightarrow> hm_remove victim g
           | None \<Rightarrow> g)"

definition fresh :: "u64 \<Rightarrow> u64 \<Rightarrow> bool" where
  "fresh timestamp_ms now_ms =
     (let lower = saturating_sub now_ms FRESHNESS_WINDOW_MS;
          upper = saturating_add now_ms FRESHNESS_WINDOW_MS
      in \<not> (timestamp_ms < lower \<or> timestamp_ms > upper))"

definition check_and_admit ::
    "iteration \<Rightarrow> replay_guard \<Rightarrow> bytes32 \<Rightarrow> u32 \<Rightarrow> u64 \<Rightarrow> u64 \<Rightarrow> u64 \<Rightarrow> (bool \<times> replay_guard) res" where
  "check_and_admit iter g sender sender_epoch counter timestamp_ms now_ms =
     (if \<not> fresh timestamp_ms now_ms then Ok (False, g)
      else
        let key = (sender, sender_epoch);
            g1 = (if hm_contains_key g key then g else evict_if_full iter g);
            window = (case hm_get g1 key of Some w \<Rightarrow> w | None \<Rightarrow> window_new)
        in and_then (admit POINTER_WIDTH window counter) (\<lambda>(accepted, w').
             if accepted
             then Ok (True, hm_insert key (w'\<lparr>last_seen_ms := max (last_seen_ms w') timestamp_ms\<rparr>) g1)
             else Ok (False, hm_insert key w' g1)))"

section \<open>Reading the bitmap\<close>

text \<open>Bit \<open>i\<close> of the window: word \<open>i div 64\<close>, bit \<open>i mod 64\<close>.\<close>

definition window_bit :: "sender_window \<Rightarrow> nat \<Rightarrow> bool" where
  "window_bit w i = bit (bits w ! (i div 64)) (i mod 64)"

definition wf_window :: "sender_window \<Rightarrow> bool" where
  "wf_window w \<longleftrightarrow> length (bits w) = WINDOW_WORDS"

lemma wf_window_new [simp]: "wf_window window_new"
  by (simp add: wf_window_def window_new_def)

lemma wf_window_words: "wf_window w \<Longrightarrow> i < REPLAY_WINDOW \<Longrightarrow> i div 64 < length (bits w)"
  by (simp add: wf_window_def const_defs less_mult_imp_div_less)

lemma get_bit_Ok:
  assumes "wf_window w" and "as_usize pw off < REPLAY_WINDOW"
  shows "get_bit pw w off = Ok (window_bit w (as_usize pw off))"
  using wf_window_words [OF assms]
  by (simp add: get_bit_def Let_def window_bit_def bit_iff_odd_drop_bit and_one_eq odd_iff_mod_2_eq_one)

lemma set_bit_Ok:
  assumes w: "wf_window w" and off: "as_usize pw off < REPLAY_WINDOW"
  obtains w' where "set_bit pw w off = Ok w'" "wf_window w'"
    "highest w' = highest w" "started w' = started w" "last_seen_ms w' = last_seen_ms w"
    "\<And>j. j < REPLAY_WINDOW \<Longrightarrow> window_bit w' j \<longleftrightarrow> j = as_usize pw off \<or> window_bit w j"
proof
  let ?i = "as_usize pw off"
  let ?w' = "w\<lparr>bits := (bits w)[?i div 64 := bits w ! (?i div 64) OR push_bit (?i mod 64) 1]\<rparr>"
  show "set_bit pw w off = Ok ?w'"
    using wf_window_words [OF assms] by (simp add: set_bit_def Let_def)
  show "wf_window ?w'" using w by (simp add: wf_window_def)
  fix j assume "j < REPLAY_WINDOW"
  then have "j div 64 < length (bits w)" by (rule wf_window_words [OF w])
  moreover have "j div 64 = ?i div 64 \<Longrightarrow> j mod 64 = ?i mod 64 \<longleftrightarrow> j = ?i"
    by (metis div_mult_mod_eq)
  ultimately show "window_bit ?w' j \<longleftrightarrow> j = ?i \<or> window_bit w j"
    using wf_window_words [OF assms] by (auto simp: window_bit_def nth_list_update bit_simps)
qed simp_all

text \<open>The shift loop writes every word once.\<close>

lemma fold_update_words:
  "length xs = n \<Longrightarrow> m \<le> n \<Longrightarrow>
   fold (\<lambda>i out. out[i := f i]) (rev [0..<m]) xs = map f [0..<m] @ drop m xs"
proof (induction m arbitrary: xs)
  case 0
  then show ?case by simp
next
  case (Suc m)
  then have "drop m (xs[m := f m]) = f m # drop (Suc m) xs"
    by (simp add: drop_update_swap Cons_nth_drop_Suc [symmetric])
  with Suc show ?case by simp
qed

lemma bit_shifted_word:
  assumes "k < 64" and s: "s = 64 * ws + bs" and "bs < 64"
  shows "bit (shifted_word ws bs B i) k \<longleftrightarrow>
    s \<le> 64 * i + k \<and> bit (B ! ((64 * i + k - s) div 64)) ((64 * i + k - s) mod 64)"
proof (cases "i < ws")
  case True
  then have "64 * i + 64 \<le> 64 * ws" by simp
  then have "\<not> s \<le> 64 * i + k" using assms by linarith
  then show ?thesis using True by (simp add: shifted_word_def)
next
  case False
  show ?thesis
  proof (cases "bs \<le> k")
    case True
    have "64 * i + k - s = 64 * (i - ws) + (k - bs)" "s \<le> 64 * i + k"
      using False True s by (auto simp: diff_mult_distrib2)
    moreover have "k - bs < 64" using assms by simp
    ultimately have "(64 * i + k - s) div 64 = i - ws" "(64 * i + k - s) mod 64 = k - bs"
      "s \<le> 64 * i + k" by simp_all
    then show ?thesis
      using False True assms
      by (auto simp: shifted_word_def Let_def bit_simps dest: bit_imp_le_length)
  next
    case k: False
    show ?thesis
    proof (cases "i = ws")
      case True
      then show ?thesis using k s by (simp add: shifted_word_def bit_simps)
    next
      case ne: False
      then have "64 * i + k - s = 64 * (i - ws - 1) + (64 + k - bs)" "s \<le> 64 * i + k"
        using False k s assms by (auto simp: diff_mult_distrib2)
      moreover have "64 + k - bs < 64" using k by simp
      ultimately have "(64 * i + k - s) div 64 = i - ws - 1" "(64 * i + k - s) mod 64 = 64 + k - bs"
        "s \<le> 64 * i + k" by simp_all
      then show ?thesis
        using False ne k assms by (auto simp: shifted_word_def Let_def bit_simps)
    qed
  qed
qed

lemma shift_left_bit:
  assumes w: "wf_window w" and j: "j < REPLAY_WINDOW"
  shows "window_bit (shift_left pw w d) j \<longleftrightarrow>
    as_usize pw d < REPLAY_WINDOW \<and> as_usize pw d \<le> j \<and> window_bit w (j - as_usize pw d)"
proof (cases "as_usize pw d \<ge> REPLAY_WINDOW")
  case True
  moreover have "j div 64 < WINDOW_WORDS" using wf_window_words [OF w j] w by (simp add: wf_window_def)
  ultimately show ?thesis by (simp add: shift_left_def window_bit_def)
next
  case False
  let ?s = "as_usize pw d"
  have j16: "j div 64 < WINDOW_WORDS" using wf_window_words [OF w j] w by (simp add: wf_window_def)
  have "bits (shift_left pw w d) = map (shifted_word (?s div 64) (?s mod 64) (bits w)) [0..<WINDOW_WORDS]"
    using False by (simp add: shift_left_def Let_def fold_update_words)
  then have "window_bit (shift_left pw w d) j
      = bit (shifted_word (?s div 64) (?s mod 64) (bits w) (j div 64)) (j mod 64)"
    using j16 by (simp add: window_bit_def)
  also have "\<dots> \<longleftrightarrow> ?s \<le> j \<and> window_bit w (j - ?s)"
    by (subst bit_shifted_word [where s = ?s]) (simp_all add: window_bit_def)
  finally show ?thesis using False by simp
qed

lemma shift_left_fields [simp]:
  "highest (shift_left pw w d) = highest w" "started (shift_left pw w d) = started w"
  "last_seen_ms (shift_left pw w d) = last_seen_ms w" "wf_window w \<Longrightarrow> wf_window (shift_left pw w d)"
  by (simp_all add: shift_left_def Let_def wf_window_def fold_update_words)

section \<open>The window against the history of accepted counters\<close>

text \<open>
  The specification keeps every counter ever accepted. A counter is accepted when it is new
  and not more than the window width below the highest one.
\<close>

definition accepts :: "nat set \<Rightarrow> nat \<Rightarrow> bool" where
  "accepts H c \<longleftrightarrow> c \<notin> H \<and> (H = {} \<or> Max H < c + REPLAY_WINDOW)"

definition remember :: "nat set \<Rightarrow> nat \<Rightarrow> nat set" where
  "remember H c = (if accepts H c then insert c H else H)"

text \<open>The bitmap represents a history: bit \<open>i\<close> says that \<open>highest - i\<close> was accepted.\<close>

definition represents :: "sender_window \<Rightarrow> nat set \<Rightarrow> bool" where
  "represents w H \<longleftrightarrow> wf_window w \<and> finite H \<and> (started w \<longleftrightarrow> H \<noteq> {}) \<and>
     (H \<noteq> {} \<longrightarrow> unat (highest w) = Max H) \<and>
     (\<forall>i < REPLAY_WINDOW. window_bit w i \<longleftrightarrow> H \<noteq> {} \<and> i \<le> Max H \<and> Max H - i \<in> H)"

lemma represents_new [simp]: "represents window_new {}"
  by (simp add: represents_def window_new_def wf_window_def window_bit_def const_defs less_mult_imp_div_less)

lemma represents_last_seen [simp]: "represents (w\<lparr>last_seen_ms := t\<rparr>) H = represents w H"
  by (simp add: represents_def wf_window_def window_bit_def)

lemma representsI:
  assumes "wf_window w" "finite H" "started w" "H \<noteq> {}" "unat (highest w) = Max H"
    and "\<And>i. i < REPLAY_WINDOW \<Longrightarrow> window_bit w i \<longleftrightarrow> i \<le> Max H \<and> Max H - i \<in> H"
  shows "represents w H"
  using assms by (simp add: represents_def)

lemma admit_first:
  assumes "represents w {}"
  shows "\<exists>w'. admit 64 w c = Ok (True, w') \<and> represents w' {unat c}"
proof -
  let ?w = "w\<lparr>started := True, highest := c\<rparr>"
  have "wf_window ?w" using assms by (simp add: represents_def wf_window_def)
  moreover have "as_usize 64 0 < REPLAY_WINDOW" by (simp add: const_defs)
  ultimately obtain w' where w': "set_bit 64 ?w 0 = Ok w'" "wf_window w'" "highest w' = c" "started w'"
      "\<And>j. j < REPLAY_WINDOW \<Longrightarrow> window_bit w' j \<longleftrightarrow> j = 0 \<or> window_bit ?w j"
    by (rule set_bit_Ok) auto
  have "represents w' {unat c}"
    using assms w' by (intro representsI) (auto simp: represents_def window_bit_def)
  moreover have "admit 64 w c = Ok (True, w')"
    using assms w' by (simp add: admit_def represents_def)
  ultimately show ?thesis by blast
qed

lemma admit_advance:
  assumes rep: "represents w H" and ne: "H \<noteq> {}" and gt: "highest w < c"
  shows "\<exists>w'. admit 64 w c = Ok (True, w') \<and> represents w' (insert (unat c) H)"
proof -
  let ?d = "c - highest w" let ?w = "(shift_left 64 w ?d)\<lparr>highest := c\<rparr>"
  have wf: "wf_window w" and fin: "finite H" and hi: "unat (highest w) = Max H" and st: "started w"
    using rep ne by (auto simp: represents_def)
  have d: "unat ?d = unat c - Max H" and lt: "Max H < unat c"
    using gt hi by (auto simp: unat_sub word_le_nat_alt word_less_nat_alt)
  have "wf_window ?w" using shift_left_fields(4) [OF wf] by (simp add: wf_window_def)
  moreover have "as_usize 64 0 < REPLAY_WINDOW" by (simp add: const_defs)
  ultimately obtain w' where w': "set_bit 64 ?w 0 = Ok w'" "wf_window w'" "highest w' = c" "started w'"
      "\<And>j. j < REPLAY_WINDOW \<Longrightarrow> window_bit w' j \<longleftrightarrow> j = 0 \<or> window_bit ?w j"
    by (rule set_bit_Ok) (use st in auto)
  have max: "Max (insert (unat c) H) = unat c"
    using lt fin ne by simp
  have "represents w' (insert (unat c) H)"
  proof (intro representsI)
    fix i assume i: "i < REPLAY_WINDOW"
    have "window_bit ?w i \<longleftrightarrow> unat ?d \<le> i \<and> i - unat ?d \<le> Max H \<and> Max H - (i - unat ?d) \<in> H"
      using shift_left_bit [OF wf i, of 64 ?d] rep ne i by (auto simp: window_bit_def represents_def)
    also have "\<dots> \<longleftrightarrow> i \<noteq> 0 \<and> i \<le> unat c \<and> unat c - i \<in> H"
      using lt Max_ge [OF fin, of "unat c - i"] by (auto simp: d)
    finally show "window_bit w' i \<longleftrightarrow>
        i \<le> Max (insert (unat c) H) \<and> Max (insert (unat c) H) - i \<in> insert (unat c) H"
      using w'(5) [OF i] lt max by auto
  qed (use w' max fin in auto)
  moreover have "admit 64 w c = Ok (True, w')"
    using w' st gt by (simp add: admit_def)
  ultimately show ?thesis by blast
qed

lemma admit_within:
  assumes rep: "represents w H" and ne: "H \<noteq> {}" and le: "c \<le> highest w"
  shows "\<exists>w'. admit 64 w c = Ok (accepts H (unat c), w') \<and> represents w' (remember H (unat c))
    \<and> (\<not> accepts H (unat c) \<longrightarrow> w' = w)"
proof -
  let ?off = "highest w - c"
  have wf: "wf_window w" and fin: "finite H" and hi: "unat (highest w) = Max H" and st: "started w"
    using rep ne by (auto simp: represents_def)
  have off: "unat ?off = Max H - unat c" and cle: "unat c \<le> Max H"
    using le hi by (auto simp: unat_sub word_le_nat_alt)
  show ?thesis
  proof (cases "unat ?off < REPLAY_WINDOW")
    case False
    then show ?thesis
      using le st ne rep cle off by (auto simp: admit_def accepts_def remember_def Let_def)
  next
    case True
    then have bit: "window_bit w (unat ?off) \<longleftrightarrow> unat c \<in> H"
      using rep ne cle off by (simp add: represents_def)
    have acc: "accepts H (unat c) \<longleftrightarrow> unat c \<notin> H"
      using True off by (auto simp: accepts_def)
    obtain w' where w': "set_bit 64 w ?off = Ok w'" "wf_window w'" "highest w' = highest w"
        "started w' = started w"
        "\<And>j. j < REPLAY_WINDOW \<Longrightarrow> window_bit w' j \<longleftrightarrow> j = unat ?off \<or> window_bit w j"
      using set_bit_Ok [OF wf, of 64 ?off] True by auto
    have "represents w' (insert (unat c) H)"
    proof (intro representsI)
      fix i assume i: "i < REPLAY_WINDOW"
      show "window_bit w' i \<longleftrightarrow>
          i \<le> Max (insert (unat c) H) \<and> Max (insert (unat c) H) - i \<in> insert (unat c) H"
        using w'(5) [OF i] rep ne i cle off fin by (auto simp: represents_def max_def)
    qed (use w' fin ne cle hi st in \<open>auto simp: max_def\<close>)
    then show ?thesis
      using le st w' rep True bit acc get_bit_Ok [OF wf, of 64 ?off]
      by (auto simp: admit_def remember_def Let_def)
  qed
qed

text \<open>The bitmap decides as the history does, and keeps representing it.\<close>

lemma admit_refines:
  assumes "represents w H"
  shows "\<exists>w'. admit 64 w c = Ok (accepts H (unat c), w') \<and> represents w' (remember H (unat c))
    \<and> (\<not> accepts H (unat c) \<longrightarrow> w' = w)"
proof -
  consider "H = {}" | "H \<noteq> {}" "highest w < c" | "H \<noteq> {}" "c \<le> highest w" by fastforce
  then show ?thesis
  proof cases
    case 1
    then show ?thesis using admit_first assms by (auto simp: accepts_def remember_def)
  next
    case 2
    have fin: "finite H" and hi: "unat (highest w) = Max H" using assms 2 by (auto simp: represents_def)
    have "accepts H (unat c)"
      using 2 fin hi Max_ge [of H "unat c"] by (auto simp: accepts_def word_less_nat_alt)
    then show ?thesis using admit_advance [OF assms 2] by (auto simp: remember_def)
  next
    case 3
    then show ?thesis by (rule admit_within [OF assms])
  qed
qed

section \<open>Runs over a sequence of counters\<close>

fun run_window :: "('s \<Rightarrow> u64 \<Rightarrow> (bool \<times> 's) res) \<Rightarrow> 's \<Rightarrow> u64 list \<Rightarrow> (bool list \<times> 's) res" where
  "run_window step s [] = Ok ([], s)"
| "run_window step s (c # cs) =
     and_then (step s c) (\<lambda>(b, s'). and_then (run_window step s' cs) (\<lambda>(bs, s''). Ok (b # bs, s'')))"

fun history_run :: "nat set \<Rightarrow> nat list \<Rightarrow> bool list" where
  "history_run H [] = []"
| "history_run H (c # cs) = accepts H c # history_run (remember H c) cs"

text \<open>The inputs that were accepted, in order.\<close>

definition accepted :: "'a list \<Rightarrow> bool list \<Rightarrow> 'a list" where
  "accepted xs bs = map fst (filter snd (zip xs bs))"

lemma accepted_simps [simp]:
  "accepted [] bs = []"
  "accepted (x # xs) (b # bs) = (if b then x # accepted xs bs else accepted xs bs)"
  by (simp_all add: accepted_def)

lemma length_history_run [simp]: "length (history_run H cs) = length cs"
  by (induction H cs rule: history_run.induct) auto

lemma history_run_distinct:
  "distinct (accepted cs (history_run H cs)) \<and> (\<forall>c \<in> set (accepted cs (history_run H cs)). c \<notin> H)"
proof (induction cs arbitrary: H)
  case Nil
  then show ?case by simp
next
  case (Cons c cs)
  show ?case
  proof (cases "accepts H c")
    case True
    then have "c \<notin> H" by (simp add: accepts_def)
    with True Cons.IH [of "insert c H"] show ?thesis by (auto simp: remember_def)
  next
    case False
    with Cons.IH [of H] show ?thesis by (simp add: remember_def)
  qed
qed

text \<open>
  What the guard needs from a per-sender window: it decides as the history of accepted
  counters does.
\<close>

locale dedup_window =
  fixes init :: 's
    and step :: "'s \<Rightarrow> u64 \<Rightarrow> (bool \<times> 's) res"
    and models :: "'s \<Rightarrow> nat set \<Rightarrow> bool"
  assumes models_init: "models init {}"
    and step_models: "models s H \<Longrightarrow>
      \<exists>s'. step s c = Ok (accepts H (unat c), s') \<and> models s' (remember H (unat c))"
begin

lemma run_refines:
  "models s H \<Longrightarrow> \<exists>s'. run_window step s cs = Ok (history_run H (map unat cs), s')"
proof (induction cs arbitrary: s H)
  case Nil
  then show ?case by simp
next
  case (Cons c cs)
  from step_models [OF Cons.prems] obtain s' where
    "step s c = Ok (accepts H (unat c), s')" "models s' (remember H (unat c))" by blast
  with Cons.IH [of s' "remember H (unat c)"] show ?case by auto
qed

lemma run_never_accepts_twice:
  "\<exists>bs s'. run_window step init cs = Ok (bs, s') \<and> distinct (accepted (map unat cs) bs)"
  using run_refines [OF models_init, of cs] history_run_distinct [of "map unat cs" "{}"] by blast

end

interpretation window: dedup_window window_new "admit 64" represents
  by unfold_locales (use admit_refines in \<open>simp, blast\<close>)

section \<open>The table of senders\<close>

text \<open>The guard against one history per sender; a sender without an entry has none.\<close>

fun entry_models :: "sender_window option \<Rightarrow> nat set \<Rightarrow> bool" where
  "entry_models None H \<longleftrightarrow> H = {}"
| "entry_models (Some w) H \<longleftrightarrow> represents w H \<and> H \<noteq> {}"

definition guard_models :: "replay_guard \<Rightarrow> (sender_key \<Rightarrow> nat set) \<Rightarrow> bool" where
  "guard_models g F \<longleftrightarrow> hm_wf g \<and> hm_len g \<le> MAX_TRACKED_SENDERS \<and>
     (\<forall>k. entry_models (hm_get g k) (F k))"

lemma guard_modelsI:
  assumes "hm_wf g" "hm_len g \<le> MAX_TRACKED_SENDERS" "\<And>k. entry_models (hm_get g k) (F k)"
  shows "guard_models g F"
  using assms by (simp add: guard_models_def)

lemma guard_modelsD:
  assumes "guard_models g F"
  shows "hm_wf g" "hm_len g \<le> MAX_TRACKED_SENDERS" "entry_models (hm_get g k) (F k)"
  using assms by (simp_all add: guard_models_def del: split_paired_All)

definition iteration_order :: "iteration \<Rightarrow> bool" where
  "iteration_order iter \<longleftrightarrow> (\<forall>m. mset (iter m) = mset m)"

lemma iteration_order_set: "iteration_order iter \<Longrightarrow> set (iter m) = set m"
  by (metis iteration_order_def set_mset_mset)

lemma guard_models_new [simp]: "guard_models guard_new (\<lambda>_. {})"
  by (intro guard_modelsI) (simp_all add: guard_new_def)

lemma hm_insert_same: "hm_get m k = Some v \<Longrightarrow> hm_insert k v m = m"
  by (simp add: hm_get_def hm_insert_def update_triv)

lemma evict_room: "hm_len g < MAX_TRACKED_SENDERS \<Longrightarrow> evict_if_full iter g = g"
  by (simp add: evict_if_full_def)

lemma evict_victim:
  assumes "iteration_order iter" and "hm_wf g" and "MAX_TRACKED_SENDERS \<le> hm_len g"
  obtains v w where "hm_get g v = Some w" "evict_if_full iter g = hm_remove v g"
    "\<And>k w'. hm_get g k = Some w' \<Longrightarrow> last_seen_ms w \<le> last_seen_ms w'"
proof -
  have "g \<noteq> []" using assms(3) by (auto simp: hm_len_def const_defs)
  then have "iter g \<noteq> []"
    using assms(1) by (metis iteration_order_def mset_zero_iff)
  then obtain v w where m: "min_by_key (\<lambda>(_, w). last_seen_ms w) (iter g) = Some (v, w)"
    by (metis min_by_key_None_iff not_None_eq surj_pair)
  show ?thesis
  proof
    show "hm_get g v = Some w"
      using min_by_key_in_set [OF m] assms by (simp add: iteration_order_set hm_in_set_get)
    show "evict_if_full iter g = hm_remove v g"
      using m assms(3) by (simp add: evict_if_full_def)
    show "last_seen_ms w \<le> last_seen_ms w'" if "hm_get g k = Some w'" for k w'
      using min_by_key_le [OF m, of "(k, w')"] that assms(1)
      by (simp add: iteration_order_set hm_get_in_set)
  qed
qed

lemma guard_models_remove:
  assumes "guard_models g F"
  shows "guard_models (hm_remove v g) (F(v := {}))"
  using guard_modelsD [OF assms] hm.len_del_le [of g v] by (intro guard_modelsI) auto

lemma evict_models:
  assumes it: "iteration_order iter" and g: "guard_models g F"
  shows "\<exists>V. guard_models (evict_if_full iter g) (\<lambda>k. if k \<in> V then {} else F k)
    \<and> hm_len (evict_if_full iter g) < MAX_TRACKED_SENDERS
    \<and> (hm_len g < MAX_TRACKED_SENDERS \<longrightarrow> V = {})"
proof (cases "hm_len g < MAX_TRACKED_SENDERS")
  case True
  with g show ?thesis by (intro exI [of _ "{}"]) (simp add: evict_room)
next
  case False
  have wf: "hm_wf g" and len: "hm_len g \<le> MAX_TRACKED_SENDERS" using guard_modelsD [OF g] by auto
  from False obtain v w where v: "hm_get g v = Some w" "evict_if_full iter g = hm_remove v g"
    using evict_victim [OF it wf] by (metis not_less)
  have "Suc (hm_len (hm_remove v g)) = hm_len g"
    using hm.len_del_known [OF wf, of v] v by simp
  moreover have "(\<lambda>k. if k \<in> {v} then {} else F k) = F(v := {})" by auto
  ultimately show ?thesis
    using False len v guard_models_remove [OF g, of v] by (intro exI [of _ "{v}"]) simp
qed

lemma guard_models_insert:
  assumes g: "guard_models g F" and w: "represents w H" "H \<noteq> {}"
    and room: "hm_contains_key g k \<or> hm_len g < MAX_TRACKED_SENDERS"
  shows "guard_models (hm_insert k w g) (F(k := H))"
proof -
  have wf: "hm_wf g" and len: "hm_len g \<le> MAX_TRACKED_SENDERS" using guard_modelsD [OF g] by auto
  have "hm_len (hm_insert k w g) \<le> MAX_TRACKED_SENDERS"
    using hm.len_put_known [OF wf, of k w] hm.len_put_le [OF wf, of k w] room len
    by (auto simp: hm_contains_key_def)
  then show ?thesis using guard_modelsD [OF g] w by (intro guard_modelsI) auto
qed

text \<open>One admission with room in the table (no eviction), on every branch.\<close>

lemma check_and_admit_room:
  assumes g: "guard_models g F"
    and room: "hm_contains_key g (s, e) \<or> hm_len g < MAX_TRACKED_SENDERS"
  shows "\<exists>g'. check_and_admit iter g s e c ts now = Ok (fresh ts now \<and> accepts (F (s, e)) (unat c), g')
    \<and> guard_models g' (if fresh ts now then F((s, e) := remember (F (s, e)) (unat c)) else F)
    \<and> (\<not> (fresh ts now \<and> accepts (F (s, e)) (unat c)) \<longrightarrow> g' = g)"
proof (cases "fresh ts now")
  case False
  then show ?thesis using g by (simp add: check_and_admit_def)
next
  case True
  let ?k = "(s, e)" and ?g1 = "if hm_contains_key g (s, e) then g else evict_if_full iter g"
  let ?w = "case hm_get g ?k of Some w \<Rightarrow> w | None \<Rightarrow> window_new"
  have g1: "?g1 = g" using room by (auto simp: evict_room)
  have rep: "represents ?w (F ?k)"
    using guard_modelsD(3) [OF g, of ?k] by (cases "hm_get g ?k") auto
  obtain w' where w': "admit 64 ?w c = Ok (accepts (F ?k) (unat c), w')"
      "represents w' (remember (F ?k) (unat c))" "\<not> accepts (F ?k) (unat c) \<longrightarrow> w' = ?w"
    using admit_refines [OF rep] by blast
  show ?thesis
  proof (cases "accepts (F ?k) (unat c)")
    case True
    let ?g' = "hm_insert ?k (w'\<lparr>last_seen_ms := max (last_seen_ms w') ts\<rparr>) g"
    have "guard_models ?g' (F(?k := remember (F ?k) (unat c)))"
      using w' True room g by (intro guard_models_insert) (auto simp: remember_def)
    then show ?thesis
      using True \<open>fresh ts now\<close> w' g1 by (simp add: check_and_admit_def Let_def POINTER_WIDTH_def)
  next
    case False
    then have "F ?k \<noteq> {}" by (auto simp: accepts_def)
    then obtain w where w: "hm_get g ?k = Some w"
      using guard_modelsD(3) [OF g, of ?k] by (cases "hm_get g ?k") auto
    then have "hm_insert ?k w' g = g" using w' False by (simp add: hm_insert_same)
    then show ?thesis
      using False \<open>fresh ts now\<close> w' g1 g
      by (simp add: check_and_admit_def Let_def POINTER_WIDTH_def remember_def)
  qed
qed

text \<open>With a full table and an untracked sender, the admission is the one after the eviction.\<close>

lemma evict_absent:
  assumes "\<not> hm_contains_key g k"
  shows "\<not> hm_contains_key (evict_if_full iter g) k"
  using assms by (simp add: evict_if_full_def hm_contains_key_def split: option.splits)

lemma check_and_admit_evict:
  assumes it: "iteration_order iter" and g: "guard_models g F"
    and absent: "\<not> hm_contains_key g (s, e)" and fr: "fresh ts now"
  shows "check_and_admit iter g s e c ts now
    = check_and_admit iter (evict_if_full iter g) s e c ts now"
proof -
  have "evict_if_full iter (evict_if_full iter g) = evict_if_full iter g"
    using evict_models [OF it g] by (blast intro: evict_room)
  then show ?thesis
    using absent evict_absent [OF absent] fr by (simp add: check_and_admit_def)
qed

text \<open>
  The verdict in every state of the table, evictions included: an untracked sender starts
  from the empty history, so the verdict is the specification's on the histories before the
  call, and a refusal changes nothing.
\<close>

lemma check_and_admit_total:
  assumes it: "iteration_order iter" and g: "guard_models g F"
  shows "\<exists>g' F'. check_and_admit iter g s e c ts now = Ok (fresh ts now \<and> accepts (F (s, e)) (unat c), g')
    \<and> guard_models g' F' \<and> F' (s, e) = (if fresh ts now then remember (F (s, e)) (unat c) else F (s, e))
    \<and> (\<not> (fresh ts now \<and> accepts (F (s, e)) (unat c)) \<longrightarrow> g' = g)"
proof (cases "fresh ts now \<and> \<not> hm_contains_key g (s, e)")
  case False
  then show ?thesis
  proof (cases "fresh ts now")
    case True
    with False have "hm_contains_key g (s, e) \<or> hm_len g < MAX_TRACKED_SENDERS" by blast
    from check_and_admit_room [OF g this, of iter c ts now] True obtain g' where
      "check_and_admit iter g s e c ts now = Ok (accepts (F (s, e)) (unat c), g')"
      "guard_models g' (F((s, e) := remember (F (s, e)) (unat c)))"
      "\<not> accepts (F (s, e)) (unat c) \<longrightarrow> g' = g" by auto
    then show ?thesis
      by (intro exI [of _ g'] exI [of _ "F((s, e) := remember (F (s, e)) (unat c))"]) (simp add: True)
  next
    case False
    with g show ?thesis by (auto simp: check_and_admit_def)
  qed
next
  case True
  let ?g1 = "evict_if_full iter g"
  obtain V where V: "guard_models ?g1 (\<lambda>k. if k \<in> V then {} else F k)" "hm_len ?g1 < MAX_TRACKED_SENDERS"
    using evict_models [OF it g] by blast
  let ?F = "\<lambda>k. if k \<in> V then {} else F k"
  have F: "F (s, e) = {}"
    using guard_modelsD(3) [OF g, of "(s, e)"] True by (simp add: hm_contains_key_def)
  then have empty: "?F (s, e) = {}" by simp
  have acc: "accepts {} (unat c)" by (simp add: accepts_def)
  with check_and_admit_room [OF V(1), of s e iter c ts now] V(2) True empty obtain g' where
    "check_and_admit iter ?g1 s e c ts now = Ok (True, g')"
    "guard_models g' (?F((s, e) := remember (?F (s, e)) (unat c)))" by (auto simp del: if_split)
  then show ?thesis
    using check_and_admit_evict [OF it g, of s e ts now c] True F acc empty
    by (intro exI [of _ g'] exI [of _ "?F((s, e) := remember (?F (s, e)) (unat c))"])
      (simp add: remember_def del: if_split)
qed

section \<open>Runs of the guard\<close>

type_synonym request = "bytes32 \<times> u32 \<times> u64 \<times> u64 \<times> u64"
  \<comment> \<open>sender, epoch, counter, timestamp, receiver's clock\<close>

fun guard_run :: "iteration \<Rightarrow> replay_guard \<Rightarrow> request list \<Rightarrow> (bool list \<times> replay_guard) res" where
  "guard_run iter g [] = Ok ([], g)"
| "guard_run iter g ((s, e, c, ts, now) # rs) =
     and_then (check_and_admit iter g s e c ts now) (\<lambda>(b, g').
     and_then (guard_run iter g' rs) (\<lambda>(bs, g''). Ok (b # bs, g'')))"

fun request_key :: "request \<Rightarrow> sender_key" where
  "request_key (s, e, c, ts, now) = (s, e)"

fun request_id :: "request \<Rightarrow> sender_key \<times> u64" where
  "request_id (s, e, c, ts, now) = ((s, e), c)"

lemma guard_room:
  assumes g: "guard_models g F" and K: "finite K" "card K \<le> MAX_TRACKED_SENDERS"
    and sub: "dom (hm_get g) \<subseteq> K" and k: "k \<in> K"
  shows "hm_contains_key g k \<or> hm_len g < MAX_TRACKED_SENDERS"
proof (cases "hm_contains_key g k")
  case False
  then have "dom (hm_get g) \<subset> K" using sub k by (auto simp: hm_contains_key_def)
  then have "card (dom (hm_get g)) < card K" using K(1) by (intro psubset_card_mono)
  then show ?thesis using K guard_modelsD(1) [OF g] by (simp add: hm.len_card)
qed simp

lemma check_and_admit_dom:
  assumes g: "guard_models g F" and room: "hm_contains_key g (s, e) \<or> hm_len g < MAX_TRACKED_SENDERS"
    and ok: "check_and_admit iter g s e c ts now = Ok (b, g')"
  shows "dom (hm_get g') \<subseteq> insert (s, e) (dom (hm_get g))"
proof -
  have "(if hm_contains_key g (s, e) then g else evict_if_full iter g) = g"
    using room by (auto simp: evict_room)
  then have "g' = g \<or> (\<exists>w. g' = hm_insert (s, e) w g)"
    using ok by (auto simp: check_and_admit_def Let_def result_elims split: if_splits prod.splits)
  then show ?thesis using hm.dom_put [of "(s, e)" _ g] by (elim disjE exE) auto
qed

text \<open>The specification of the guard: every sender and epoch with its full history.\<close>

fun history_verdicts :: "(sender_key \<Rightarrow> nat set) \<Rightarrow> request list \<Rightarrow> bool list" where
  "history_verdicts F [] = []"
| "history_verdicts F ((s, e, c, ts, now) # rs) =
     (fresh ts now \<and> accepts (F (s, e)) (unat c)) #
     history_verdicts (if fresh ts now then F((s, e) := remember (F (s, e)) (unat c)) else F) rs"

lemma length_history_verdicts [simp]: "length (history_verdicts F rs) = length rs"
  by (induction F rs rule: history_verdicts.induct) simp_all

lemma guard_run_refines:
  assumes "guard_models g F" "finite K" "card K \<le> MAX_TRACKED_SENDERS"
    "dom (hm_get g) \<subseteq> K" "request_key ` set rs \<subseteq> K"
  shows "\<exists>g'. guard_run iter g rs = Ok (history_verdicts F rs, g') \<and> dom (hm_get g') \<subseteq> K"
  using assms
proof (induction F rs arbitrary: g rule: history_verdicts.induct)
  case (2 F s e c ts now rs)
  have room: "hm_contains_key g (s, e) \<or> hm_len g < MAX_TRACKED_SENDERS"
    using "2.prems" by (intro guard_room [where K = K]) auto
  obtain g1 where g1: "check_and_admit iter g s e c ts now = Ok (fresh ts now \<and> accepts (F (s, e)) (unat c), g1)"
      "guard_models g1 (if fresh ts now then F((s, e) := remember (F (s, e)) (unat c)) else F)"
    using check_and_admit_room [OF "2.prems"(1) room, of iter c ts now] by blast
  have "dom (hm_get g1) \<subseteq> K"
    using check_and_admit_dom [OF "2.prems"(1) room g1(1)] "2.prems"(4,5) by auto
  with "2.IH" [OF g1(2) "2.prems"(2,3)] "2.prems"(5) g1(1) show ?case by auto
qed auto

text \<open>What the specification has accepted it does not accept again.\<close>

lemma history_verdicts_distinct:
  "distinct (accepted (map request_id rs) (history_verdicts F rs)) \<and>
   (\<forall>(k, c) \<in> set (accepted (map request_id rs) (history_verdicts F rs)). unat c \<notin> F k)"
proof (induction F rs rule: history_verdicts.induct)
  case (2 F s e c ts now rs)
  let ?F = "if fresh ts now then F((s, e) := remember (F (s, e)) (unat c)) else F"
  have grow: "F k \<subseteq> ?F k" for k by (auto simp: remember_def)
  have seen: "unat c \<in> ?F (s, e)" if "fresh ts now \<and> accepts (F (s, e)) (unat c)"
    using that by (simp add: remember_def)
  from "2.IH" have IH: "distinct (accepted (map request_id rs) (history_verdicts ?F rs))"
    "\<And>k d. (k, d) \<in> set (accepted (map request_id rs) (history_verdicts ?F rs)) \<Longrightarrow> unat d \<notin> ?F k" by blast+
  show ?case
  proof (cases "fresh ts now \<and> accepts (F (s, e)) (unat c)")
    case True
    then have "unat c \<notin> F (s, e)" by (simp add: accepts_def)
    then show ?thesis using True IH seen [OF True] grow by fastforce
  next
    case False
    have "accepted (map request_id ((s, e, c, ts, now) # rs)) (history_verdicts F ((s, e, c, ts, now) # rs))
        = accepted (map request_id rs) (history_verdicts ?F rs)" using False by simp
    then show ?thesis using IH grow by fastforce
  qed
qed simp

section \<open>The bitmap as one number\<close>

text \<open>The reference for the shift loop: the words, the lowest first, as one number.\<close>

fun words_value :: "u64 list \<Rightarrow> nat" where
  "words_value [] = 0"
| "words_value (x # xs) = unat x + 2 ^ 64 * words_value xs"

lemma bit_words_value:
  "bit (words_value xs) i \<longleftrightarrow> i div 64 < length xs \<and> bit (xs ! (i div 64)) (i mod 64)"
proof (induction xs arbitrary: i)
  case (Cons x xs)
  have "push_bit 64 (words_value xs) + unat x = push_bit 64 (words_value xs) OR unat x"
    by (rule disjunctive_add) (auto simp: bit_simps dest: bit_imp_le_length)
  then have v: "words_value (x # xs) = push_bit 64 (words_value xs) OR unat x"
    by (simp add: push_bit_eq_mult mult.commute)
  show ?case
  proof (cases "i < 64")
    case True
    then show ?thesis
      unfolding v by (simp add: bit_simps)
  next
    case False
    then have "i div 64 = Suc ((i - 64) div 64)" "i mod 64 = (i - 64) mod 64"
      by (simp_all add: le_div_geq le_mod_geq)
    then show ?thesis
      unfolding v using Cons.IH [of "i - 64"] False bit_imp_le_length [of x i] by (auto simp: bit_simps)
  qed
qed simp

section \<open>The window at any pointer width\<close>

text \<open>
  The window at any pointer width: it stays well formed, its highest counter is one it was handed,
  and a counter above the highest one is accepted and clears what the shift moves out.
\<close>

definition tops :: "sender_window \<Rightarrow> u64 \<Rightarrow> bool" where
  "tops w c \<longleftrightarrow> wf_window w \<and> (started w \<longrightarrow> highest w < c)"

lemma admit_above:
  assumes "tops w c"
  obtains w' where "admit pw w c = Ok (True, w')" "wf_window w'" "started w'" "highest w' = c"
    "\<And>j. started w \<Longrightarrow> REPLAY_WINDOW \<le> as_usize pw (c - highest w) \<Longrightarrow> 0 < j \<Longrightarrow> j < REPLAY_WINDOW \<Longrightarrow> \<not> window_bit w' j"
proof -
  let ?w = "if started w then (shift_left pw w (c - highest w))\<lparr>highest := c\<rparr> else w\<lparr>started := True, highest := c\<rparr>"
  have "wf_window ?w" using assms shift_left_fields(4) [of w pw] by (simp add: tops_def wf_window_def)
  moreover have "as_usize pw 0 < REPLAY_WINDOW" by (simp add: as_usize_def const_defs)
  ultimately obtain w' where w': "set_bit pw ?w 0 = Ok w'" "wf_window w'" "highest w' = highest ?w" "started w' = started ?w"
      "\<And>j. j < REPLAY_WINDOW \<Longrightarrow> window_bit w' j \<longleftrightarrow> j = as_usize pw 0 \<or> window_bit ?w j"
    by (rule set_bit_Ok) (rule that; assumption)
  have "admit pw w c = Ok (True, w')" using assms w'(1) by (cases "started w") (simp_all add: admit_def tops_def)
  moreover have "\<not> window_bit w' j"
    if "started w" "REPLAY_WINDOW \<le> as_usize pw (c - highest w)" "0 < j" "j < REPLAY_WINDOW" for j
    using w'(5) [OF that(4)] that shift_left_bit [of w j pw "c - highest w"] assms
    by (auto simp: as_usize_def tops_def window_bit_def)
  ultimately show thesis using w'(2-4) by (intro that [of w']) auto
qed

lemma admit_keeps:
  assumes "wf_window w"
  obtains b w' where "admit pw w c = Ok (b, w')" "wf_window w'" "started w'" "highest w' \<le> highest w \<or> highest w' = c"
    "started w \<or> highest w' = c"
proof (cases "tops w c")
  case True
  then show thesis by (rule admit_above [where pw = pw]) (rule that, auto)
next
  case False
  then have w: "started w" "c \<le> highest w" using assms by (auto simp: tops_def)
  show thesis
  proof (cases "REPLAY_WINDOW \<le> as_usize pw (highest w - c) \<or> window_bit w (as_usize pw (highest w - c))")
    case True
    then show ?thesis using w assms get_bit_Ok [OF assms, of pw "highest w - c"]
      by (intro that [of False w]) (auto simp: admit_def Let_def not_le)
  next
    case False
    then obtain w' where "set_bit pw w (highest w - c) = Ok w'" "wf_window w'" "highest w' = highest w" "started w' = started w"
      using set_bit_Ok [OF assms, of pw "highest w - c"] by (metis not_le)
    then show ?thesis using w False get_bit_Ok [OF assms, of pw "highest w - c"]
      by (intro that [of True w']) (auto simp: admit_def Let_def not_le)
  qed
qed

lemma run_window_append:
  "run_window step s (xs @ ys) = and_then (run_window step s xs) (\<lambda>(bs, s').
     and_then (run_window step s' ys) (\<lambda>(bs', s''). Ok (bs @ bs', s'')))"
proof (induction xs arbitrary: s)
  case Nil
  show ?case by (cases "run_window step s ys") auto
next
  case (Cons x xs)
  show ?case by (simp add: Cons.IH and_then_assoc case_prod_unfold)
qed

lemma run_below:
  assumes "wf_window w" and "started w \<Longrightarrow> highest w < c" and "\<forall>x \<in> set cs. x < c"
  obtains bs w' where "run_window (admit pw) w cs = Ok (bs, w')" "length bs = length cs" "tops w' c"
  using assms
proof (induction cs arbitrary: w thesis)
  case Nil
  then show ?case by (simp add: tops_def)
next
  case (Cons x xs)
  obtain b w1 where w1: "admit pw w x = Ok (b, w1)" "wf_window w1" "started w1" "highest w1 \<le> highest w \<or> highest w1 = x"
      "started w \<or> highest w1 = x"
    by (rule admit_keeps [OF Cons.prems(2)])
  have "highest w1 < c" using w1(4,5) Cons.prems(3,4) by auto
  then obtain bs w' where "run_window (admit pw) w1 xs = Ok (bs, w')" "length bs = length xs" "tops w' c"
    using Cons.IH [OF _ w1(2)] Cons.prems(4) by auto
  then show ?case using Cons.prems(1) [of "b # bs" w'] w1(1) by simp
qed

text \<open>Two jumps ahead of the counter \<open>c\<close>: what a later attempt at \<open>c\<close> finds.\<close>

lemma run_two_jumps:
  assumes top: "tops w c" and jump: "c < c1" "c1 < c2" and clear: "REPLAY_WINDOW \<le> as_usize pw (c2 - c1)"
  obtains w' where "run_window (admit pw) w [c, c1, c2] = Ok ([True, True, True], w')" "wf_window w'" "started w'" "highest w' = c2"
    "\<And>j. 0 < j \<Longrightarrow> j < REPLAY_WINDOW \<Longrightarrow> \<not> window_bit w' j"
proof -
  obtain w1 where w1: "admit pw w c = Ok (True, w1)" "wf_window w1" "started w1" "highest w1 = c" by (rule admit_above [OF top, where pw = pw])
  have "tops w1 c1" using w1 jump by (simp add: tops_def)
  then obtain w2 where w2: "admit pw w1 c1 = Ok (True, w2)" "wf_window w2" "started w2" "highest w2 = c1" by (rule admit_above [where pw = pw])
  have "tops w2 c2" using w2 jump by (simp add: tops_def)
  then obtain w3 where w3: "admit pw w2 c2 = Ok (True, w3)" "wf_window w3" "started w3" "highest w3 = c2"
      "\<And>j. started w2 \<Longrightarrow> REPLAY_WINDOW \<le> as_usize pw (c2 - highest w2) \<Longrightarrow> 0 < j \<Longrightarrow> j < REPLAY_WINDOW \<Longrightarrow> \<not> window_bit w3 j"
    by (rule admit_above [where pw = pw]) (rule that; assumption)
  show thesis by (rule that [of w3]) (use w1 w2 w3 clear in simp_all)
qed

lemma admit_far_below:
  assumes "wf_window w" "started w" "c \<le> highest w"
  shows "REPLAY_WINDOW \<le> as_usize pw (highest w - c) \<Longrightarrow> admit pw w c = Ok (False, w)"
  using assms leD [OF assms(3)] by (simp add: admit_def Let_def)

lemma admit_clear:
  assumes "wf_window w" "started w" "c \<le> highest w"
    and "as_usize pw (highest w - c) < REPLAY_WINDOW" "\<not> window_bit w (as_usize pw (highest w - c))"
  shows "\<exists>w'. admit pw w c = Ok (True, w')"
proof -
  obtain w' where "set_bit pw w (highest w - c) = Ok w'" by (rule set_bit_Ok [OF assms(1,4)])
  then show ?thesis using assms leD [OF assms(3)] get_bit_Ok [OF assms(1,4)] by (simp add: admit_def Let_def)
qed

section \<open>Properties\<close>

text \<open>
  C20: the word-wise shift is one wide shift. The loop of \<open>shift_left\<close>, with its word and bit
  offsets and the carry between neighbouring words, computes the same as shifting the whole
  bitmap as a single 1024-bit number, for every distance, also those that clear it.
\<close>
theorem shift_left_is_wide_shift:
  assumes "length (bits w) = WINDOW_WORDS"
  shows "words_value (bits (shift_left 64 w diff)) = (words_value (bits w) * 2 ^ unat diff) mod 2 ^ 1024"
proof -
  have wf: "wf_window w" "wf_window (shift_left 64 w diff)" using assms shift_left_fields(4) by (auto simp: wf_window_def)
  have "bit (words_value (bits (shift_left 64 w diff))) i \<longleftrightarrow>
      bit (take_bit 1024 (push_bit (unat diff) (words_value (bits w)))) i" for i
  proof (cases "i < REPLAY_WINDOW")
    case True
    then show ?thesis
      using shift_left_bit [OF wf(1) True, of 64 diff] wf_window_words [OF wf(1)] wf_window_words [OF wf(2) True]
      by (auto simp: bit_words_value bit_simps window_bit_def const_defs)
  next
    case False
    then have "\<not> i div 64 < WINDOW_WORDS" by (simp add: const_defs less_mult_imp_div_less div_less_iff_less_mult)
    then show ?thesis using False wf(2) by (simp add: bit_words_value bit_simps wf_window_def const_defs)
  qed
  then have "words_value (bits (shift_left 64 w diff)) = take_bit 1024 (push_bit (unat diff) (words_value (bits w)))"
    by (rule bit_eqI)
  then show ?thesis by (simp add: push_bit_eq_mult take_bit_eq_mod)
qed

theorem shift_left_is_wide_shift_witness:
  "words_value (bits (shift_left 64 (window_new\<lparr>bits := (replicate WINDOW_WORDS 0)[0 := 5]\<rparr>) 70)) = 5 * 2 ^ 70"
proof -
  have "words_value ((replicate n 0)[0 := 5]) = (if n = 0 then 0 else 5)" for n
  proof -
    have "words_value (replicate m 0) = 0" for m by (induction m) simp_all
    then show ?thesis by (cases n) simp_all
  qed
  then show ?thesis
    using shift_left_is_wide_shift [of "window_new\<lparr>bits := (replicate WINDOW_WORDS 0)[0 := 5]\<rparr>" 70]
    by (simp add: const_defs)
qed

text \<open>
  C8: the sliding window decides as the full history. On every sequence of counters the bitmap
  window accepts exactly the counters that the specification accepts, which remembers all
  accepted counters for ever: a counter is accepted when it is new and less than 1024 below the
  highest accepted one. So no counter is accepted twice.
\<close>
theorem window_decides_as_history:
  "\<exists>w. run_window (admit 64) window_new cs = Ok (history_run {} (map unat cs), w) \<and>
     distinct (accepted (map unat cs) (history_run {} (map unat cs)))"
  using window.run_refines [OF window.models_init, of cs] history_run_distinct by blast

text \<open>
  C21: the guard decides as the full history of every sender. In every run of admissions over at
  most as many senders and epochs as the table can hold, bitmaps, table and eviction give exactly
  the verdicts of the specification that remembers every accepted counter for ever; so the
  accepted requests are pairwise distinct in sender, epoch and counter, and nothing panics.
\<close>
theorem guard_decides_as_history:
  assumes "card (request_key ` set rs) \<le> MAX_TRACKED_SENDERS"
  shows "\<exists>g. guard_run iter guard_new rs = Ok (history_verdicts (\<lambda>_. {}) rs, g) \<and>
    distinct (accepted (map request_id rs) (history_verdicts (\<lambda>_. {}) rs))"
proof -
  have "dom (hm_get guard_new) \<subseteq> request_key ` set rs" by (simp add: guard_new_def dom_def)
  from guard_run_refines [OF guard_models_new _ assms this, of rs iter] history_verdicts_distinct
  show ?thesis by blast
qed

theorem guard_decides_as_history_witness:
  "\<exists>g. guard_run id guard_new [(array_of_byte 1, 0, 5, 1000, 1000), (array_of_byte 1, 0, 5, 1000, 1001),
     (array_of_byte 1, 1, 5, 1000, 1001)] = Ok ([True, False, True], g)"
  using guard_decides_as_history [of "[(array_of_byte 1, 0, 5, 1000, 1000), (array_of_byte 1, 0, 5, 1000, 1001),
     (array_of_byte 1, 1, 5, 1000, 1001)]" id]
  by (auto simp: const_defs accepts_def remember_def fresh_def Let_def saturating_sub_def saturating_add_def)

text \<open>
  C22: the verdict of one admission, in every state of the table. A request is admitted exactly
  when it is fresh and the history of its sender and epoch accepts its counter; an admitted
  counter is remembered, a refused request changes nothing, and the table stays within its cap.
\<close>
theorem check_and_admit_verdict:
  assumes "iteration_order iter" and "guard_models g F"
  shows "\<exists>g' F'. check_and_admit iter g s e c ts now = Ok (fresh ts now \<and> accepts (F (s, e)) (unat c), g') \<and>
    guard_models g' F' \<and> F' (s, e) = (if fresh ts now then remember (F (s, e)) (unat c) else F (s, e)) \<and>
    (\<not> (fresh ts now \<and> accepts (F (s, e)) (unat c)) \<longrightarrow> g' = g) \<and>
    tracked_senders g' \<le> MAX_TRACKED_SENDERS"
  using check_and_admit_total [OF assms, of s e c ts now] guard_modelsD(2)
  unfolding tracked_senders_def by blast

theorem check_and_admit_verdict_witness:
  "\<exists>g'. check_and_admit id guard_new (array_of_byte 1) 0 5 1000 1000 = Ok (True, g') \<and>
     tracked_senders g' \<le> MAX_TRACKED_SENDERS"
  using check_and_admit_verdict [of id guard_new "\<lambda>_. {}" "array_of_byte 1" 0 5 1000 1000]
  by (auto simp: iteration_order_def accepts_def fresh_def Let_def const_defs saturating_sub_def
      saturating_add_def)

text \<open>
  C33: eviction takes the least recently seen sender. When the table is full, the entry removed is
  one with the smallest last accepted timestamp, every other entry stays, and there is room for
  the newcomer.
\<close>
theorem eviction_least_recent:
  assumes "iteration_order iter" and "hm_wf g" and "hm_len g = MAX_TRACKED_SENDERS"
  shows "\<exists>v w. hm_get g v = Some w \<and> (\<forall>k w'. hm_get g k = Some w' \<longrightarrow> last_seen_ms w \<le> last_seen_ms w') \<and>
    hm_get (evict_if_full iter g) = (hm_get g)(v := None) \<and>
    hm_len (evict_if_full iter g) < MAX_TRACKED_SENDERS"
proof -
  obtain v w where v: "hm_get g v = Some w" "evict_if_full iter g = hm_remove v g"
    "\<And>k w'. hm_get g k = Some w' \<Longrightarrow> last_seen_ms w \<le> last_seen_ms w'"
    using evict_victim [OF assms(1,2)] assms(3) by (metis order_refl)
  have "Suc (hm_len (hm_remove v g)) = hm_len g" using hm.len_del_known [OF assms(2), of v] v(1) by simp
  then show ?thesis
    using v assms(3) by (intro exI [of _ v] exI [of _ w]) (auto simp: fun_eq_iff)
qed

theorem eviction_least_recent_witness:
  "\<exists>g v. hm_len g = MAX_TRACKED_SENDERS \<and> hm_get g v \<noteq> None \<and> hm_get (evict_if_full id g) v = None"
proof -
  define g :: replay_guard where
    "g = map (\<lambda>i. ((array_of_byte 0, word_of_nat i), window_new)) [0..<MAX_TRACKED_SENDERS]"
  have "inj_on (\<lambda>i. (array_of_byte 0 :: bytes32, word_of_nat i :: u32)) {0..<MAX_TRACKED_SENDERS}"
    by (rule inj_onI) (simp add: word_of_nat_eq_iff take_bit_nat_eq_self const_defs)
  then have "hm_wf g" by (simp add: hm_wf_def g_def distinct_map comp_def)
  moreover have len: "hm_len g = MAX_TRACKED_SENDERS" by (simp add: g_def hm_len_def)
  moreover have "iteration_order id" by (simp add: iteration_order_def)
  ultimately obtain v w where "hm_get g v = Some w" "hm_get (evict_if_full id g) = (hm_get g)(v := None)"
    using eviction_least_recent by metis
  then show ?thesis using len by (intro exI [of _ g] exI [of _ v]) simp
qed

text \<open>
  C36: on a 32-bit target the window accepts replays. Take any counter \<open>c\<close> above everything seen
  so far, after it one that is ahead by at least a window and at most \<open>2 ^ 32\<close> less a window, and then
  one that is ahead of \<open>c\<close> by a multiple of \<open>2 ^ 32\<close> and less than a window more. With \<open>usize\<close> of 32 bits the distance of \<open>c\<close> is
  truncated into the window, and \<open>c\<close> is accepted a second time; at 64 bits it is refused.
\<close>
theorem truncated_window_accepts_replay:
  assumes "\<forall>x \<in> set cs. x < c" and "REPLAY_WINDOW \<le> m" "m + REPLAY_WINDOW \<le> 2 ^ 32"
    and "0 < q" "0 < j" "j < REPLAY_WINDOW" and "unat c + (q * 2 ^ 32 + j) < 2 ^ 64"
  shows "(\<exists>vs w. length vs = length cs \<and>
      run_window (admit 32) window_new (cs @ [c, c + word_of_nat m, c + word_of_nat (q * 2 ^ 32 + j), c])
        = Ok (vs @ [True, True, True, True], w)) \<and>
    (\<exists>vs w. length vs = length cs \<and>
      run_window (admit 64) window_new (cs @ [c, c + word_of_nat m, c + word_of_nat (q * 2 ^ 32 + j), c])
        = Ok (vs @ [True, True, True, False], w))"
proof -
  obtain n where n: "n = q * 2 ^ 32 + j" by blast
  let ?c1 = "c + word_of_nat m" and ?c2 = "c + word_of_nat n"
  have lim: "unat c + n < 2 ^ 64" using assms(7) by (simp add: n)
  have "m < n" using assms(2-6) by (cases q) (auto simp: n)
  have w: "unat (word_of_nat k :: u64) = k" "unat (c + word_of_nat k) = unat c + k" if "k \<le> n" for k
  proof -
    have "k < 2 ^ 64" using that lim by simp
    then show k: "unat (word_of_nat k :: u64) = k" by (simp add: unsigned_of_nat take_bit_nat_eq_self)
    show "unat (c + word_of_nat k) = unat c + k"
      using that lim unat_add_lem [of c "word_of_nat k"] by (simp add: k)
  qed
  have u: "unat ?c1 = unat c + m" "unat ?c2 = unat c + n" "?c2 - c = word_of_nat n" using w \<open>m < n\<close> by simp_all
  have jump: "c < ?c1" "?c1 < ?c2" "c \<le> ?c2"
    using u assms(2) \<open>m < n\<close> by (simp_all add: word_less_nat_alt word_le_nat_alt REPLAY_WINDOW_def)
  have d: "unat (?c2 - ?c1) = n - m"
    using unat_sub [of ?c1 ?c2] u(1,2) jump(2) by (simp del: add_diff_cancel_left)
  have run: "\<exists>vs w. length vs = length cs \<and> run_window (admit pw) window_new (cs @ [c, ?c1, ?c2, c]) = Ok (vs @ [True, True, True, b], w)"
    if clear: "REPLAY_WINDOW \<le> (n - m) mod 2 ^ pw" and
      b: "if b then 0 < n mod 2 ^ pw \<and> n mod 2 ^ pw < REPLAY_WINDOW else REPLAY_WINDOW \<le> n mod 2 ^ pw" for pw b
  proof -
    obtain vs w where vs: "run_window (admit pw) window_new cs = Ok (vs, w)" "length vs = length cs" "tops w c"
      by (rule run_below [OF wf_window_new _ assms(1), where pw = pw]) (simp add: window_new_def)
    obtain w' where w': "run_window (admit pw) w [c, ?c1, ?c2] = Ok ([True, True, True], w')" "wf_window w'" "started w'"
        "highest w' = ?c2" "\<And>j. 0 < j \<Longrightarrow> j < REPLAY_WINDOW \<Longrightarrow> \<not> window_bit w' j"
      by (rule run_two_jumps [OF vs(3) jump(1,2), where pw = pw]) (use clear d in \<open>simp_all add: as_usize_def\<close>)
    have off: "as_usize pw (highest w' - c) = n mod 2 ^ pw" using w'(4) u(3) w(1) by (simp add: as_usize_def)
    have "\<exists>w''. admit pw w' c = Ok (b, w'')"
      using admit_far_below [OF w'(2,3), of c pw] admit_clear [OF w'(2,3), of c pw] jump(3) b w'(4,5)
      unfolding off by (cases b) auto
    then obtain w'' where w'': "admit pw w' c = Ok (b, w'')" by blast
    have "run_window (admit pw) w [c, ?c1, ?c2, c] = Ok ([True, True, True, b], w'')"
      using w'(1) w'' run_window_append [of "admit pw" w "[c, ?c1, ?c2]" "[c]"] by auto
    then show ?thesis
      using vs(1,2) run_window_append [of "admit pw" window_new cs "[c, ?c1, ?c2, c]"]
      by (intro exI [of _ vs] exI [of _ w'']) (simp del: run_window.simps)
  qed
  have "n - m < 2 ^ 64" "n < 2 ^ 64" using lim by simp_all
  moreover have "(n - m) mod 2 ^ 32 = 2 ^ 32 + j - m"
  proof -
    have "n - m = (q - 1) * 2 ^ 32 + (2 ^ 32 + j - m)" using assms(3,4) by (cases q) (auto simp: n)
    then show ?thesis using assms(2,6) by (simp add: mod_mult_self3)
  qed
  ultimately have "REPLAY_WINDOW \<le> (n - m) mod 2 ^ 64" "REPLAY_WINDOW \<le> n mod 2 ^ 64" "REPLAY_WINDOW \<le> (n - m) mod 2 ^ 32"
      "n mod 2 ^ 32 = j"
    using assms(2-6) \<open>m < n\<close> by (auto simp: REPLAY_WINDOW_def n)
  then show ?thesis using run [of 32 True] run [of 64 False] assms(5,6) unfolding n by simp
qed

theorem truncated_window_accepts_replay_witness:
  "\<exists>vs w. run_window (admit 32) window_new ([] @ [0, 2000, 2 ^ 32 + 5, 0]) = Ok (vs @ [True, True, True, True], w)"
  using truncated_window_accepts_replay [of "[]" 0 2000 1 5] by (auto simp: const_defs)

end
