(* ===== verification/Chia_Format.thy ===== *)
theory Chia_Format
  imports Msg_Envelope
begin

text \<open>
  The Streamable wire format of the Chia libraries as an instance of the interface: integers
  big-endian, byte arrays verbatim, a \<open>Vec<u8>\<close> with a four-byte length, an \<open>Option\<close> with a
  tag byte. It discharges the assumptions of \<open>chia_streamable\<close> and \<open>chia_sized\<close>, so the
  theorems that assume them are not vacuous, and it lets concrete envelopes be evaluated.
\<close>

definition word_codec :: "'w::len word codec" where
  "word_codec = \<lparr>
     cstream = (\<lambda>x. Inr (to_be_bytes x)),
     cparse = (\<lambda>bs. if length bs < LENGTH('w) div 8 then Inl ''end of buffer''
        else Inr (from_be_bytes (take (LENGTH('w) div 8) bs), drop (LENGTH('w) div 8) bs))\<rparr>"

definition array_codec :: "'n::len byte_array codec" where
  "array_codec = \<lparr>
     cstream = (\<lambda>a. Inr (as_ref a)),
     cparse = (\<lambda>bs. case try_into (take LENGTH('n) bs) of
        None \<Rightarrow> Inl ''end of buffer'' | Some a \<Rightarrow> Inr (a, drop LENGTH('n) bs))\<rparr>"

definition vec_codec :: "bytes codec" where
  "vec_codec = \<lparr>
     cstream = (\<lambda>v. if length v < 2 ^ 32 then Inr (to_be_bytes (of_nat (length v) :: u32) @ v)
        else Inl ''sequence too large''),
     cparse = (\<lambda>bs. case cparse (word_codec :: u32 codec) bs of
        Inl e \<Rightarrow> Inl e
      | Inr (n, r) \<Rightarrow> if length r < unat n then Inl ''end of buffer''
          else Inr (take (unat n) r, drop (unat n) r))\<rparr>"

definition option_codec :: "'a codec \<Rightarrow> 'a option codec" where
  "option_codec C = \<lparr>
     cstream = (\<lambda>s. case s of None \<Rightarrow> Inr [0]
      | Some x \<Rightarrow> (case cstream C x of Inl e \<Rightarrow> Inl e | Inr b \<Rightarrow> Inr (1 # b))),
     cparse = (\<lambda>bs. case bs of
        [] \<Rightarrow> Inl ''end of buffer''
      | t # r \<Rightarrow> if t = 0 then Inr (None, r)
          else if t = 1 then (case cparse C r of Inl e \<Rightarrow> Inl e | Inr (x, r') \<Rightarrow> Inr (Some x, r'))
          else Inl ''invalid optional'')\<rparr>"

definition chia_format :: chia_lib where
  "chia_format = \<lparr>chia_u8 = word_codec, chia_u32 = word_codec, chia_u64 = word_codec,
     chia_bytes32 = array_codec, chia_bytes48 = array_codec, chia_bytes96 = array_codec,
     chia_vec = vec_codec, chia_option = option_codec, chia_leftover = ''input too large''\<rparr>"

lemma valid_word_codec:
  assumes "8 dvd LENGTH('w)"
  shows "valid_codec (word_codec :: 'w::len word codec)"
proof
  fix x :: "'w word" and b r
  assume "cstream word_codec x = Inr b"
  then show "cparse word_codec (b @ r) = Inr (x, r)"
    using assms by (auto simp: word_codec_def)
next
  fix bs and x :: "'w word" and r
  assume "cparse word_codec bs = Inr (x, r)"
  then have *: "LENGTH('w) div 8 \<le> length bs" "x = from_be_bytes (take (LENGTH('w) div 8) bs)"
    "r = drop (LENGTH('w) div 8) bs"
    by (auto simp: word_codec_def split: if_splits)
  then have "to_be_bytes x = take (LENGTH('w) div 8) bs"
    using assms by (simp add: to_from_be_bytes)
  then show "\<exists>b. cstream word_codec x = Inr b \<and> bs = b @ r"
    using * by (simp add: word_codec_def)
qed

lemma valid_array_codec: "valid_codec (array_codec :: 'n::len byte_array codec)"
  by standard (auto simp: array_codec_def try_into_Some_iff split: option.splits,
      metis append_take_drop_id)

lemma valid_vec_codec: "valid_codec vec_codec"
proof
  fix v b r
  assume "cstream vec_codec v = Inr b"
  then have v: "length v < 2 ^ 32" "b = to_be_bytes (of_nat (length v) :: u32) @ v"
    by (auto simp: vec_codec_def split: if_splits)
  have "cparse (word_codec :: u32 codec) (b @ r) = Inr (of_nat (length v), v @ r)"
    using v by (simp add: word_codec_def)
  then show "cparse vec_codec (b @ r) = Inr (v, r)"
    using v by (simp add: vec_codec_def unsigned_of_nat take_bit_nat_eq_self)
next
  fix bs v r
  assume "cparse vec_codec bs = Inr (v, r)"
  then obtain n s where p: "cparse (word_codec :: u32 codec) bs = Inr (n, s)"
    and n: "unat n \<le> length s" and v: "v = take (unat n) s" "r = drop (unat n) s"
    by (auto simp: vec_codec_def split: sum.splits if_splits)
  from p obtain b where "cstream word_codec n = Inr b" "bs = b @ s"
    using streamable.stream_parse [OF valid_word_codec, of bs n s] by auto
  then have "bs = to_be_bytes n @ v @ r" using v by (simp add: word_codec_def)
  moreover have "length v = unat n" using n v by simp
  moreover have "unat n < 2 ^ 32" using unsigned_less [of n, where 'a = nat] by simp
  ultimately show "\<exists>b. cstream vec_codec v = Inr b \<and> bs = b @ r"
    by (simp add: vec_codec_def)
qed

lemma valid_option_codec:
  assumes C: "valid_codec C"
  shows "valid_codec (option_codec C)"
proof
  fix s b r
  assume "cstream (option_codec C) s = Inr b"
  then show "cparse (option_codec C) (b @ r) = Inr (s, r)"
    using streamable.parse_stream [OF C]
    by (auto simp: option_codec_def split: option.splits sum.splits)
next
  fix bs s r
  assume "cparse (option_codec C) bs = Inr (s, r)"
  then show "\<exists>b. cstream (option_codec C) s = Inr b \<and> bs = b @ r"
    using streamable.stream_parse [OF C]
    by (fastforce simp: option_codec_def split: list.splits sum.splits if_splits)
qed

lemmas chia_format_simps [simp] =
  chia_format_def [THEN arg_cong [where f = chia_u8], simplified]
  chia_format_def [THEN arg_cong [where f = chia_u32], simplified]
  chia_format_def [THEN arg_cong [where f = chia_u64], simplified]
  chia_format_def [THEN arg_cong [where f = chia_bytes32], simplified]
  chia_format_def [THEN arg_cong [where f = chia_bytes48], simplified]
  chia_format_def [THEN arg_cong [where f = chia_bytes96], simplified]
  chia_format_def [THEN arg_cong [where f = chia_vec], simplified]
  chia_format_def [THEN arg_cong [where f = chia_option], simplified]

interpretation chia: chia_sized chia_format
proof (rule chia_sized.intro)
  show "chia_streamable chia_format"
    by (rule chia_streamable.intro)
      (simp_all add: valid_word_codec valid_array_codec valid_vec_codec valid_option_codec)
  show "chia_sized_axioms chia_format"
    by (rule chia_sized_axioms.intro)
      (auto simp: word_codec_def array_codec_def vec_codec_def option_codec_def)
qed

section \<open>Properties\<close>

definition sample_envelope :: dig_message_envelope where
  "sample_envelope = \<lparr>env_version = 1, env_message_type = 0x200, env_flags = 4,
     env_correlation_id = array_of_byte 9, env_sender = array_of_byte 1, env_recipient = array_of_byte 2,
     env_sender_epoch = 0, env_stream = None,
     env_sealed = \<lparr>kem_enc = array_of_byte 7, ciphertext = [1, 2, 3]\<rparr>\<rparr>"

lemma sample_envelope_size [simp]: "envelope_size sample_envelope = 162"
  by (simp add: sample_envelope_def envelope_size_def header_size_def)

lemma sample_encodes: "\<exists>b. encode_envelope chia_format sample_envelope = Ok b \<and> length b = 162"
  using chia.encode_envelope_size [of sample_envelope]
  by (simp add: const_defs) (simp add: sample_envelope_def)

text \<open>
  C25: the codec is a bijection between the encodable envelopes of a supported version and the
  accepted frames: what is encoded decodes to itself, and what decodes is the encoding of its
  value, so no two byte strings decode to the same envelope. Every proper prefix of an encoding
  is refused as truncated.
\<close>
theorem envelope_round_trip:
  assumes "chia_streamable L"
  shows "((encode_envelope L e = Ok b \<and> env_version e \<le> ENVELOPE_VERSION) \<longleftrightarrow> decode_envelope L b = Ok e) \<and>
    (encode_envelope L e = Ok b \<and> n < length b \<longrightarrow> (\<exists>x. decode_envelope L (take n b) = Err (Truncated x)))"
proof (intro conjI iffI impI)
  show "decode_envelope L b = Ok e" if "encode_envelope L e = Ok b \<and> env_version e \<le> ENVELOPE_VERSION"
    using chia_streamable.decode_encode [OF assms] that by blast
  assume d: "decode_envelope L b = Ok e"
  then show "env_version e \<le> ENVELOPE_VERSION"
    by (auto simp: decode_envelope_def result_elims not_less split: if_splits)
  show "encode_envelope L e = Ok b" using chia_streamable.encode_decode [OF assms d] .
next
  show "\<exists>x. decode_envelope L (take n b) = Err (Truncated x)" if "encode_envelope L e = Ok b \<and> n < length b"
    using chia_streamable.truncated_refused [OF assms] that by blast
qed

theorem envelope_round_trip_witness:
  "\<exists>b x. encode_envelope chia_format sample_envelope = Ok b \<and> decode_envelope chia_format b = Ok sample_envelope \<and>
     decode_envelope chia_format (take 100 b) = Err (Truncated x)"
proof -
  obtain b where b: "encode_envelope chia_format sample_envelope = Ok b" "length b = 162"
    using sample_encodes by blast
  moreover have "env_version sample_envelope \<le> ENVELOPE_VERSION" by (simp add: sample_envelope_def const_defs)
  ultimately show ?thesis
    using envelope_round_trip [OF chia.chia_streamable_axioms, of sample_envelope b 100] by auto
qed

text \<open>
  C32: the size bound of the wire. An envelope encodes exactly when its size, 107 bytes of header
  (120 with a stream header), 52 bytes of framing of the sealed region and the ciphertext, is
  within 16 MiB, and a received frame over the bound is refused before it is parsed.
\<close>
theorem envelope_size_bound:
  assumes "chia_sized L" and "length (ciphertext (env_sealed e)) < 2 ^ 32"
  shows "(if envelope_size e \<le> MAX_ENVELOPE_BYTES
      then \<exists>b. encode_envelope L e = Ok b \<and> length b = envelope_size e
      else encode_envelope L e = Err (EnvelopeTooLarge (envelope_size e) MAX_ENVELOPE_BYTES)) \<and>
    (MAX_ENVELOPE_BYTES < length w \<longrightarrow>
      decode_envelope L w = Err (EnvelopeTooLarge (length w) MAX_ENVELOPE_BYTES))"
  using chia_sized.encode_envelope_size [OF assms] by (auto simp: decode_envelope_def not_le)

theorem envelope_size_bound_witness:
  "\<exists>b. encode_envelope chia_format sample_envelope = Ok b \<and> length b = 162"
  using envelope_size_bound [OF chia.chia_sized_axioms, of sample_envelope "[]"]
  by (simp add: const_defs) (simp add: sample_envelope_def)

text \<open>
  C24: the associated data binds the header. Two envelopes with the same header bytes agree in
  version, type, flags, correlation id, sender, recipient, epoch and stream header, so altering
  any of them alters the associated data of the seal.
\<close>
theorem header_bytes_binding:
  assumes "chia_streamable L" and "header_bytes L e = Ok h"
  shows "header_bytes L f = Ok h \<longleftrightarrow> same_header e f"
proof
  show "same_header e f" if "header_bytes L f = Ok h"
    using chia_streamable.header_bytes_inject [OF assms that] .
  show "header_bytes L f = Ok h" if "same_header e f"
    unfolding assms(2) [symmetric] using that by (simp add: header_bytes_def same_header_def)
qed

theorem header_bytes_binding_witness:
  "\<exists>h. header_bytes chia_format sample_envelope = Ok h \<and>
     header_bytes chia_format (sample_envelope\<lparr>env_sender_epoch := 1\<rparr>) \<noteq> Ok h"
proof -
  obtain h where h: "header_bytes chia_format sample_envelope = Ok h" using chia.header_bytes_Ok by blast
  have "\<not> same_header sample_envelope (sample_envelope\<lparr>env_sender_epoch := 1\<rparr>)"
    by (simp add: same_header_def sample_envelope_def)
  then show ?thesis using header_bytes_binding [OF chia.chia_streamable_axioms h] h by blast
qed

end
