(* ===== verification/Msg_Seal.thy ===== *)
theory Msg_Seal
  imports Msg_Transcript Msg_Compression Replay_Guard Chia_Format
begin

text \<open>
  The end-to-end seal (\<open>src/seal.rs\<close>): the send pipeline (compress, sign, encapsulate, AEAD
  seal) and the receive pipeline (resolve, subgroup check, decapsulate, AEAD open, verify,
  header match, expiry, anti-replay, decompress). The system's entropy source and the
  sender-key resolver are arguments, as in the source or in its place.
\<close>

section \<open>The libraries, together\<close>

record 'sk deps =
  chia :: chia_lib
  zstd :: zstd_lib
  crypto :: "'sk crypto_lib"
  hash_iter :: iteration \<comment> \<open>iteration order of the anti-replay table\<close>

section \<open>Parameters and results\<close>

definition KDF_INFO_LABEL :: bytes where
  "KDF_INFO_LABEL = ascii ''dig-message/dhkem-g1/v1''"

definition VERSION :: u8 where
  [const_defs]: "VERSION = ENVELOPE_VERSION"

record 'sk seal_params =
  sp_sender_sk :: 'sk
  sp_sender :: bytes32
  sp_sender_epoch :: u32
  sp_recipient :: bytes32
  sp_recipient_pub :: bytes48
  sp_message_type :: u32
  sp_shape :: interaction_shape
  sp_correlation_id :: bytes32
  sp_stream :: "stream_header option"
  sp_counter :: u64
  sp_timestamp_ms :: u64
  sp_expires_at :: u64
  sp_payload :: bytes

record opened_message =
  om_message_type :: u32
  om_correlation_id :: bytes32
  om_shape :: interaction_shape
  om_sender :: bytes32
  om_sender_epoch :: u32
  om_counter :: u64
  om_timestamp_ms :: u64
  om_expires_at :: u64
  om_payload :: bytes

section \<open>Key agreement, key schedule and AEAD\<close>

definition concat_dh :: "bytes48 \<Rightarrow> bytes48 \<Rightarrow> bytes96" where
  "concat_dh a b = array_of (as_ref a @ as_ref b)"

definition auth_encap_secret :: "'sk crypto_lib \<Rightarrow> 'sk \<Rightarrow> 'sk \<Rightarrow> bytes48 \<Rightarrow> bytes96 res" where
  "auth_encap_secret C esk sender_sk recipient_pub =
     and_then (ok_or (g1_dh C esk recipient_pub) InvalidPoint) (\<lambda>ephemeral.
     and_then (ok_or (g1_dh C sender_sk recipient_pub) InvalidPoint) (\<lambda>static_term.
     Ok (concat_dh ephemeral static_term)))"

definition auth_decap_secret :: "'sk crypto_lib \<Rightarrow> 'sk \<Rightarrow> bytes48 \<Rightarrow> bytes48 \<Rightarrow> bytes96 res" where
  "auth_decap_secret C recipient_sk sender_pub kem =
     and_then (ok_or (g1_dh C recipient_sk kem) InvalidPoint) (\<lambda>ephemeral.
     and_then (ok_or (g1_dh C recipient_sk sender_pub) InvalidPoint) (\<lambda>static_term.
     Ok (concat_dh ephemeral static_term)))"

definition kdf :: "'sk crypto_lib \<Rightarrow> bytes96 \<Rightarrow> bytes48 \<Rightarrow> bytes48 \<Rightarrow> bytes48 \<Rightarrow> okm res" where
  "kdf C z kem sender_pub recipient_pub =
     (let info = KDF_INFO_LABEL @ as_ref kem @ as_ref sender_pub @ as_ref recipient_pub
      in expect (hkdf_sha256 C None (as_ref z) info)
           ''OKM_LEN is well within the HKDF-SHA256 output limit'')"

definition aead_seal :: "'sk crypto_lib \<Rightarrow> okm \<Rightarrow> bytes \<Rightarrow> bytes \<Rightarrow> bytes res" where
  "aead_seal C okm aad plaintext =
     and_then (ok_or (try_into (take 32 (as_ref okm))) (SealFailed ''invalid AEAD key length'')) (\<lambda>key.
     and_then (expect (try_into (drop 32 (as_ref okm))) ''OKM tail is exactly 12 bytes'') (\<lambda>nonce.
     ok_or (chacha_encrypt C key nonce aad plaintext) (SealFailed ''AEAD encrypt failed'')))"

definition aead_open :: "'sk crypto_lib \<Rightarrow> okm \<Rightarrow> bytes \<Rightarrow> bytes \<Rightarrow> bytes res" where
  "aead_open C okm aad ct =
     and_then (ok_or (try_into (take 32 (as_ref okm))) OpenFailed) (\<lambda>key.
     and_then (expect (try_into (drop 32 (as_ref okm))) ''OKM tail is exactly 12 bytes'') (\<lambda>nonce.
     ok_or (chacha_decrypt C key nonce aad ct) OpenFailed))"

text \<open>\<open>getrandom\<close> is a system call: its outcome is the argument \<open>entropy\<close>.\<close>

definition random_ephemeral :: "'sk crypto_lib \<Rightarrow> string + bytes32 \<Rightarrow> 'sk res" where
  "random_ephemeral C entropy =
     and_then (map_err (\<lambda>e. SealFailed (''ephemeral key entropy: '' @ e)) entropy) (\<lambda>ikm.
     Ok (sk_from_seed C ikm))"

section \<open>Sealing\<close>

definition seal_with_ephemeral :: "'sk deps \<Rightarrow> 'sk seal_params \<Rightarrow> 'sk \<Rightarrow> dig_message_envelope res" where
  "seal_with_ephemeral D p esk =
     and_then (compress_payload (zstd D) (sp_payload p)) (\<lambda>compressed.
     let sender_pub = public_key_bytes (crypto D) (sp_sender_sk p);
         kem = public_key_bytes (crypto D) esk
     in and_then (auth_encap_secret (crypto D) esk (sp_sender_sk p) (sp_recipient_pub p)) (\<lambda>z.
     and_then (kdf (crypto D) z kem sender_pub (sp_recipient_pub p)) (\<lambda>okm.
     let transcript = \<lparr>
           tf_version = VERSION,
           tf_message_type = sp_message_type p,
           tf_flags = as_bits (sp_shape p) OR FLAG_SEALED,
           tf_correlation_id = sp_correlation_id p,
           tf_sender = sp_sender p,
           tf_recipient = sp_recipient p,
           tf_sender_epoch = sp_sender_epoch p,
           tf_counter = sp_counter p,
           tf_timestamp_ms = sp_timestamp_ms p,
           tf_expires_at = sp_expires_at p,
           tf_stream = sp_stream p,
           tf_kem_enc = kem,
           tf_compression = cp_compression compressed,
           tf_uncompressed_len = cp_uncompressed_len compressed,
           tf_compressed_payload = cp_bytes compressed\<rparr>;
         sender_sig = transcript_sign (crypto D) transcript (sp_sender_sk p);
         inner = \<lparr>
           im_message_type = sp_message_type p,
           im_correlation_id = sp_correlation_id p,
           im_compression = cp_compression compressed,
           im_uncompressed_len = cp_uncompressed_len compressed,
           im_counter = sp_counter p,
           im_timestamp_ms = sp_timestamp_ms p,
           im_expires_at = sp_expires_at p,
           im_payload = cp_bytes compressed,
           im_sender_sig = sender_sig\<rparr>
     in and_then (map_err SealFailed (to_bytes (inner_message_codec (chia D)) inner)) (\<lambda>inner_bytes.
     let envelope = \<lparr>
           env_version = VERSION,
           env_message_type = sp_message_type p,
           env_flags = as_bits (sp_shape p) OR FLAG_SEALED,
           env_correlation_id = sp_correlation_id p,
           env_sender = sp_sender p,
           env_recipient = sp_recipient p,
           env_sender_epoch = sp_sender_epoch p,
           env_stream = sp_stream p,
           env_sealed = \<lparr>kem_enc = kem, ciphertext = []\<rparr>\<rparr>
     in and_then (header_bytes (chia D) envelope) (\<lambda>aad.
     and_then (aead_seal (crypto D) okm aad inner_bytes) (\<lambda>ct.
     Ok (envelope\<lparr>env_sealed := (env_sealed envelope)\<lparr>ciphertext := ct\<rparr>\<rparr>)))))))"

definition seal_message :: "'sk deps \<Rightarrow> string + bytes32 \<Rightarrow> 'sk seal_params \<Rightarrow> dig_message_envelope res" where
  "seal_message D entropy p =
     and_then (random_ephemeral (crypto D) entropy) (\<lambda>esk. seal_with_ephemeral D p esk)"

section \<open>Opening\<close>

definition check_expiry :: "u64 \<Rightarrow> u64 \<Rightarrow> u64 \<Rightarrow> unit res" where
  "check_expiry timestamp_ms expires_at now_ms =
     (if expires_at = 0 then Ok ()
      else if expires_at > saturating_add timestamp_ms MAX_MESSAGE_TTL_MS then Err TtlTooLong
      else if now_ms > expires_at then Err Expired
      else Ok ())"

type_synonym resolver = "bytes32 \<Rightarrow> u32 \<Rightarrow> bytes48 option"

text \<open>The transcript the receiver rebuilds from the envelope and the opened inner message.\<close>

definition opened_transcript :: "dig_message_envelope \<Rightarrow> inner_message \<Rightarrow> transcript_fields" where
  "opened_transcript e inner = \<lparr>
     tf_version = env_version e,
     tf_message_type = env_message_type e,
     tf_flags = env_flags e,
     tf_correlation_id = env_correlation_id e,
     tf_sender = env_sender e,
     tf_recipient = env_recipient e,
     tf_sender_epoch = env_sender_epoch e,
     tf_counter = im_counter inner,
     tf_timestamp_ms = im_timestamp_ms inner,
     tf_expires_at = im_expires_at inner,
     tf_stream = env_stream e,
     tf_kem_enc = kem_enc (env_sealed e),
     tf_compression = im_compression inner,
     tf_uncompressed_len = im_uncompressed_len inner,
     tf_compressed_payload = im_payload inner\<rparr>"

text \<open>Every check of \<open>open_message\<close> before it touches the anti-replay guard.\<close>

definition open_inner ::
    "'sk deps \<Rightarrow> 'sk \<Rightarrow> dig_message_envelope \<Rightarrow> resolver \<Rightarrow> u64 \<Rightarrow> (interaction_shape \<times> inner_message) res" where
  "open_inner D recipient_sk e resolve now_ms =
     and_then (ok_or (from_flags (env_flags e)) HeaderMismatch) (\<lambda>shape.
     and_then (ok_or (resolve (env_sender e) (env_sender_epoch e)) UnresolvableSender) (\<lambda>sender_pub.
     let kem = kem_enc (env_sealed e)
     in if \<not> g1_subgroup_check (crypto D) kem \<or> \<not> g1_subgroup_check (crypto D) sender_pub
        then Err InvalidPoint
        else
     and_then (auth_decap_secret (crypto D) recipient_sk sender_pub kem) (\<lambda>z.
     let recipient_pub = public_key_bytes (crypto D) recipient_sk
     in and_then (kdf (crypto D) z kem sender_pub recipient_pub) (\<lambda>okm.
     and_then (header_bytes (chia D) e) (\<lambda>aad.
     and_then (aead_open (crypto D) okm aad (ciphertext (env_sealed e))) (\<lambda>inner_bytes.
     and_then (map_err Codec (from_bytes (chia_leftover (chia D)) (inner_message_codec (chia D)) inner_bytes)) (\<lambda>inner.
     if \<not> transcript_verify (crypto D) (opened_transcript e inner) sender_pub (im_sender_sig inner)
     then Err BadSignature
     else if im_message_type inner \<noteq> env_message_type e \<or> im_correlation_id inner \<noteq> env_correlation_id e
     then Err HeaderMismatch
     else
     and_then (check_expiry (im_timestamp_ms inner) (im_expires_at inner) now_ms) (\<lambda>_.
     Ok (shape, inner)))))))))"

definition open_message ::
    "'sk deps \<Rightarrow> 'sk \<Rightarrow> dig_message_envelope \<Rightarrow> resolver \<Rightarrow> replay_guard \<Rightarrow> u64
      \<Rightarrow> opened_message res \<times> replay_guard" where
  "open_message D recipient_sk e resolve guard now_ms =
     (case open_inner D recipient_sk e resolve now_ms of
        Err x \<Rightarrow> (Err x, guard)
      | Panic m \<Rightarrow> (Panic m, guard)
      | Ok (shape, inner) \<Rightarrow>
          (case check_and_admit (hash_iter D) guard (env_sender e) (env_sender_epoch e)
                  (im_counter inner) (im_timestamp_ms inner) now_ms of
             Err x \<Rightarrow> (Err x, guard)
           | Panic m \<Rightarrow> (Panic m, guard)
           | Ok (admitted, guard') \<Rightarrow>
               if \<not> admitted then (Err Replay, guard')
               else if unat (im_uncompressed_len inner) > MAX_DECOMPRESSED_BYTES
               then (Err (DecompressionBomb (unat (im_uncompressed_len inner)) MAX_DECOMPRESSED_BYTES), guard')
               else (and_then (decompress_payload (zstd D) (im_compression inner) (im_payload inner)
                        (im_uncompressed_len inner)) (\<lambda>payload.
                      Ok \<lparr>om_message_type = im_message_type inner,
                          om_correlation_id = im_correlation_id inner,
                          om_shape = shape,
                          om_sender = env_sender e,
                          om_sender_epoch = env_sender_epoch e,
                          om_counter = im_counter inner,
                          om_timestamp_ms = im_timestamp_ms inner,
                          om_expires_at = im_expires_at inner,
                          om_payload = payload\<rparr>), guard')))"

section \<open>The pieces\<close>

lemma as_ref_concat_dh [simp]: "as_ref (concat_dh a b) = as_ref a @ as_ref b"
  by (simp add: concat_dh_def as_ref_array_of)

lemma check_expiry_Ok_iff:
  "check_expiry ts ex now = Ok () \<longleftrightarrow>
     ex = 0 \<or> (ex \<le> saturating_add ts MAX_MESSAGE_TTL_MS \<and> now \<le> ex)"
  by (auto simp: check_expiry_def)

lemma check_expiry_no_panic [simp]: "\<not> is_panic (check_expiry ts ex now)"
  by (simp add: check_expiry_def)

lemma auth_decap_no_panic [simp]: "\<not> is_panic (auth_decap_secret C a b c)"
  by (simp add: auth_decap_secret_def result_elims)

lemma auth_encap_no_panic [simp]: "\<not> is_panic (auth_encap_secret C a b c)"
  by (simp add: auth_encap_secret_def result_elims)

lemma okm_key: "\<exists>k :: bytes32. try_into (take 32 (as_ref (o' :: okm))) = Some k"
  by (simp add: try_into_def)

lemma okm_nonce: "\<exists>n :: 12 byte_array. try_into (drop 32 (as_ref (o' :: okm))) = Some n"
  by (simp add: try_into_def)

lemma aead_open_no_panic [simp]: "\<not> is_panic (aead_open C o' aad ct)"
proof -
  obtain k :: bytes32 and n :: "12 byte_array" where
    "try_into (take 32 (as_ref o')) = Some k" "try_into (drop 32 (as_ref o')) = Some n"
    using okm_key okm_nonce by blast
  then show ?thesis by (simp add: aead_open_def)
qed

lemma aead_seal_no_panic [simp]: "\<not> is_panic (aead_seal C o' aad ct)"
proof -
  obtain k :: bytes32 and n :: "12 byte_array" where
    "try_into (take 32 (as_ref o')) = Some k" "try_into (drop 32 (as_ref o')) = Some n"
    using okm_key okm_nonce by blast
  then show ?thesis by (simp add: aead_seal_def)
qed

context crypto_primitives
begin

lemma kdf_Ok: "\<exists>okm. kdf C z k s r = Ok okm"
  using hkdf_defined [of None "as_ref z"] by (metis expect.simps(1) kdf_def)

lemma encap_decap:
  "auth_encap_secret C esk ssk (public_key_bytes C rsk)
     = auth_decap_secret C rsk (public_key_bytes C ssk) (public_key_bytes C esk)"
  by (simp add: auth_encap_secret_def auth_decap_secret_def dh_agree)

lemma encap_Ok: "\<exists>z. auth_encap_secret C esk ssk (public_key_bytes C rsk) = Ok z"
  using dh_defined [of esk rsk] dh_defined [of ssk rsk] by (auto simp: auth_encap_secret_def)

lemma aead_open_seal: "aead_seal C o' aad m = Ok ct \<Longrightarrow> aead_open C o' aad ct = Ok m"
  by (auto simp: aead_seal_def aead_open_def result_elims try_into_def decrypt_encrypt split: if_splits)

lemma aead_seal_Ok: "length m < 2 ^ 38 - 64 \<Longrightarrow> \<exists>ct. aead_seal C o' aad m = Ok ct"
  using okm_key [of o'] okm_nonce [of o'] encrypt_defined [of m] by (auto simp: aead_seal_def)

end

section \<open>The pipeline over conforming libraries\<close>

locale sealing =
  chia: chia_sized "chia D" + zstd: zstd_codec "zstd D" + crypto: crypto_primitives "crypto D"
  for D :: "'sk deps" +
  assumes iteration: "iteration_order (hash_iter D)"

text \<open>The envelope a seal returns, field by field.\<close>

definition sealed_for :: "'sk deps \<Rightarrow> 'sk seal_params \<Rightarrow> 'sk \<Rightarrow> dig_message_envelope \<Rightarrow> bool" where
  "sealed_for D p esk e \<longleftrightarrow>
     env_version e = ENVELOPE_VERSION \<and> env_message_type e = sp_message_type p \<and>
     env_flags e = as_bits (sp_shape p) OR FLAG_SEALED \<and> env_correlation_id e = sp_correlation_id p \<and>
     env_sender e = sp_sender p \<and> env_recipient e = sp_recipient p \<and>
     env_sender_epoch e = sp_sender_epoch p \<and> env_stream e = sp_stream p \<and>
     kem_enc (env_sealed e) = public_key_bytes (crypto D) esk"

lemma header_bytes_sealed: "header_bytes L (e\<lparr>env_sealed := s\<rparr>) = header_bytes L e"
  by (simp add: header_bytes_def)

lemma seal_with_ephemeral_fields:
  "seal_with_ephemeral D p esk = Ok e \<Longrightarrow> sealed_for D p esk e"
  by (auto simp: seal_with_ephemeral_def result_elims Let_def sealed_for_def VERSION_def)

text \<open>The inner message a seal encrypts.\<close>

definition inner_of :: "'sk seal_params \<Rightarrow> compressed_payload \<Rightarrow> bytes96 \<Rightarrow> inner_message" where
  "inner_of p c sig = \<lparr>im_message_type = sp_message_type p, im_correlation_id = sp_correlation_id p,
     im_compression = cp_compression c, im_uncompressed_len = cp_uncompressed_len c,
     im_counter = sp_counter p, im_timestamp_ms = sp_timestamp_ms p,
     im_expires_at = sp_expires_at p, im_payload = cp_bytes c, im_sender_sig = sig\<rparr>"

lemma inner_of_simps [simp]:
  "im_message_type (inner_of p c sig) = sp_message_type p"
  "im_correlation_id (inner_of p c sig) = sp_correlation_id p"
  "im_compression (inner_of p c sig) = cp_compression c"
  "im_uncompressed_len (inner_of p c sig) = cp_uncompressed_len c"
  "im_counter (inner_of p c sig) = sp_counter p"
  "im_timestamp_ms (inner_of p c sig) = sp_timestamp_ms p"
  "im_expires_at (inner_of p c sig) = sp_expires_at p"
  "im_payload (inner_of p c sig) = cp_bytes c"
  "im_sender_sig (inner_of p c sig) = sig"
  by (simp_all add: inner_of_def)

lemma opened_transcript_inner_of:
  "opened_transcript e (inner_of p c sig) = opened_transcript e (inner_of p c sig')"
  by (simp add: opened_transcript_def)

lemma seal_with_ephemeral_inner:
  assumes "seal_with_ephemeral D p esk = Ok e"
  obtains c z okm sig aad b where
    "compress_payload (zstd D) (sp_payload p) = Ok c"
    "auth_encap_secret (crypto D) esk (sp_sender_sk p) (sp_recipient_pub p) = Ok z"
    "kdf (crypto D) z (kem_enc (env_sealed e)) (public_key_bytes (crypto D) (sp_sender_sk p)) (sp_recipient_pub p) = Ok okm"
    "sig = transcript_sign (crypto D) (opened_transcript e (inner_of p c sig)) (sp_sender_sk p)"
    "to_bytes (inner_message_codec (chia D)) (inner_of p c sig) = Inr b"
    "header_bytes (chia D) e = Ok aad"
    "aead_seal (crypto D) okm aad b = Ok (ciphertext (env_sealed e))"
proof -
  have f: "sealed_for D p esk e" by (rule seal_with_ephemeral_fields [OF assms])
  from assms obtain c z okm b aad ct where *:
    "compress_payload (zstd D) (sp_payload p) = Ok c"
    "auth_encap_secret (crypto D) esk (sp_sender_sk p) (sp_recipient_pub p) = Ok z"
    "kdf (crypto D) z (public_key_bytes (crypto D) esk) (public_key_bytes (crypto D) (sp_sender_sk p)) (sp_recipient_pub p) = Ok okm"
    "aead_seal (crypto D) okm aad b = Ok ct"
    and e: "header_bytes (chia D) (e\<lparr>env_sealed := \<lparr>kem_enc = public_key_bytes (crypto D) esk, ciphertext = []\<rparr>\<rparr>) = Ok aad"
      "ciphertext (env_sealed e) = ct"
    and b: "to_bytes (inner_message_codec (chia D))
      (inner_of p c (transcript_sign (crypto D) (opened_transcript e (inner_of p c undefined)) (sp_sender_sk p))) = Inr b"
    unfolding inner_of_def
    by (auto simp: seal_with_ephemeral_def result_elims Let_def opened_transcript_def)
  let ?sig = "transcript_sign (crypto D) (opened_transcript e (inner_of p c undefined)) (sp_sender_sk p)"
  have "?sig = transcript_sign (crypto D) (opened_transcript e (inner_of p c ?sig)) (sp_sender_sk p)"
    by (subst opened_transcript_inner_of) (rule refl)
  with f * e b show thesis
    by (intro that [of c z okm ?sig b aad]) (simp_all add: header_bytes_sealed sealed_for_def)
qed


section \<open>Opening what was sealed\<close>

definition opened_of :: "'sk seal_params \<Rightarrow> opened_message" where
  "opened_of p = \<lparr>om_message_type = sp_message_type p, om_correlation_id = sp_correlation_id p,
     om_shape = sp_shape p, om_sender = sp_sender p, om_sender_epoch = sp_sender_epoch p,
     om_counter = sp_counter p, om_timestamp_ms = sp_timestamp_ms p,
     om_expires_at = sp_expires_at p, om_payload = sp_payload p\<rparr>"

text \<open>
  A seal addressed to a receiver: the recipient key is the receiver's and the receiver's
  resolver knows the sender's key for that epoch.
\<close>

definition addressed :: "'sk deps \<Rightarrow> 'sk \<Rightarrow> resolver \<Rightarrow> 'sk seal_params \<Rightarrow> bool" where
  "addressed D rsk resolve p \<longleftrightarrow> sp_recipient_pub p = public_key_bytes (crypto D) rsk \<and>
     resolve (sp_sender p) (sp_sender_epoch p) = Some (public_key_bytes (crypto D) (sp_sender_sk p))"

lemma and_then_OkI:
  "\<exists>x. r = Ok x \<and> P x \<Longrightarrow> (\<And>x. P x \<Longrightarrow> \<exists>y. f x = Ok y) \<Longrightarrow> \<exists>y. and_then r f = Ok y"
  by auto

context sealing
begin

lemma open_inner_sealed:
  assumes seal: "seal_with_ephemeral D p esk = Ok e" and to: "addressed D rsk resolve p"
  shows "\<exists>c sig. compress_payload (zstd D) (sp_payload p) = Ok c \<and>
    open_inner D rsk e resolve now = and_then (check_expiry (sp_timestamp_ms p) (sp_expires_at p) now)
      (\<lambda>_. Ok (sp_shape p, inner_of p c sig))"
  using seal
proof (rule seal_with_ephemeral_inner)
  fix c z okm sig aad b
  assume c: "compress_payload (zstd D) (sp_payload p) = Ok c"
    and z: "auth_encap_secret (crypto D) esk (sp_sender_sk p) (sp_recipient_pub p) = Ok z"
    and okm: "kdf (crypto D) z (kem_enc (env_sealed e)) (public_key_bytes (crypto D) (sp_sender_sk p))
        (sp_recipient_pub p) = Ok okm"
    and sig: "sig = transcript_sign (crypto D) (opened_transcript e (inner_of p c sig)) (sp_sender_sk p)"
    and b: "to_bytes (inner_message_codec (chia D)) (inner_of p c sig) = Inr b"
    and aad: "header_bytes (chia D) e = Ok aad"
    and ct: "aead_seal (crypto D) okm aad b = Ok (ciphertext (env_sealed e))"
  have e: "sealed_for D p esk e" by (rule seal_with_ephemeral_fields [OF seal])
  have z': "auth_decap_secret (crypto D) rsk (public_key_bytes (crypto D) (sp_sender_sk p))
      (kem_enc (env_sealed e)) = Ok z"
    using z to e crypto.encap_decap [of esk "sp_sender_sk p" rsk] by (simp add: addressed_def sealed_for_def)
  have v: "transcript_verify (crypto D) (opened_transcript e (inner_of p c sig))
      (public_key_bytes (crypto D) (sp_sender_sk p)) sig"
    by (subst sig) (simp add: transcript_verify_def transcript_sign_def crypto.verify_sign)
  show ?thesis
    using c e to z' okm aad v crypto.aead_open_seal [OF ct] chia.inner_round_trip [OF b]
    by (intro exI [of _ c] exI [of _ sig])
      (simp add: open_inner_def Let_def addressed_def sealed_for_def crypto.public_key_in_subgroup)
qed

text \<open>The verdict on a sealed envelope is decided by its times, its counter and its size.\<close>

lemma open_sealed:
  assumes seal: "seal_with_ephemeral D p esk = Ok e" and to: "addressed D rsk resolve p"
    and g: "guard_models g F" and size: "length (sp_payload p) \<le> MAX_DECOMPRESSED_BYTES"
    and expiry: "check_expiry (sp_timestamp_ms p) (sp_expires_at p) now = Ok ()"
  shows "\<exists>g' F'. open_message D rsk e resolve g now =
      (if fresh (sp_timestamp_ms p) now \<and> accepts (F (sp_sender p, sp_sender_epoch p)) (unat (sp_counter p))
       then Ok (opened_of p) else Err Replay, g')
    \<and> guard_models g' F'
    \<and> (fresh (sp_timestamp_ms p) now \<longrightarrow> F' (sp_sender p, sp_sender_epoch p)
         = remember (F (sp_sender p, sp_sender_epoch p)) (unat (sp_counter p)))"
proof -
  have e: "sealed_for D p esk e" by (rule seal_with_ephemeral_fields [OF seal])
  obtain c sig where c: "compress_payload (zstd D) (sp_payload p) = Ok c"
    and oi: "open_inner D rsk e resolve now = Ok (sp_shape p, inner_of p c sig)"
    using open_inner_sealed [OF seal to, of now] expiry by auto
  have dec: "decompress_payload (zstd D) (cp_compression c) (cp_bytes c) (cp_uncompressed_len c)
      = Ok (sp_payload p)"
    by (rule zstd.compress_round_trip [OF c size])
  have len: "unat (cp_uncompressed_len c) \<le> MAX_DECOMPRESSED_BYTES"
    using compress_declared [OF c] size by simp
  obtain g' F' where
    "check_and_admit (hash_iter D) g (sp_sender p) (sp_sender_epoch p) (sp_counter p) (sp_timestamp_ms p) now
      = Ok (fresh (sp_timestamp_ms p) now \<and>
          accepts (F (sp_sender p, sp_sender_epoch p)) (unat (sp_counter p)), g')"
    "guard_models g' F'"
    "F' (sp_sender p, sp_sender_epoch p) = (if fresh (sp_timestamp_ms p) now
      then remember (F (sp_sender p, sp_sender_epoch p)) (unat (sp_counter p))
      else F (sp_sender p, sp_sender_epoch p))"
    using check_and_admit_total [OF iteration g] by meson
  then show ?thesis
    using oi e dec len
    by (intro exI [of _ g'] exI [of _ F'])
      (simp add: open_message_def sealed_for_def opened_of_def not_less)
qed

text \<open>Sealing succeeds exactly when the payload can be compressed.\<close>

lemma seal_total:
  assumes c: "compress_payload (zstd D) (sp_payload p) = Ok c"
    and r: "sp_recipient_pub p = public_key_bytes (crypto D) rsk"
  shows "\<exists>e. seal_with_ephemeral D p esk = Ok e"
proof -
  have len: "length (cp_bytes c) < 2 ^ 32"
    using compress_length [OF c] c
    by (auto simp: compress_payload_def u32_try_from_def result_elims split: if_splits)
  obtain z where z: "auth_encap_secret (crypto D) esk (sp_sender_sk p) (sp_recipient_pub p) = Ok z"
    using crypto.encap_Ok r by metis
  obtain okm where okm: "kdf (crypto D) z (public_key_bytes (crypto D) esk)
      (public_key_bytes (crypto D) (sp_sender_sk p)) (sp_recipient_pub p) = Ok okm"
    using crypto.kdf_Ok by blast
  have inner: "\<exists>b. to_bytes (inner_message_codec (chia D)) m = Inr b \<and> length b < 2 ^ 38 - 64"
    if "im_payload m = cp_bytes c" for m
    using chia.len_inner [of m] len that by (auto simp: inner_size_def)
  have hd: "\<exists>h. header_bytes (chia D) e = Ok h" for e
    using chia.header_bytes_Ok by blast
  show ?thesis
    unfolding seal_with_ephemeral_def Let_def c and_then.simps z okm
    using inner hd crypto.aead_seal_Ok
    by (intro and_then_OkI [where P = "\<lambda>b. length b < 2 ^ 38 - 64"]
        and_then_OkI [where P = "\<lambda>_. True"]) simp_all
qed

end


section \<open>What an accepted message has passed\<close>

lemma open_inner_OkE:
  assumes "open_inner D rsk e resolve now = Ok (shape, inner)"
  obtains pub z okm aad b where
    "from_flags (env_flags e) = Some shape"
    "resolve (env_sender e) (env_sender_epoch e) = Some pub"
    "g1_subgroup_check (crypto D) (kem_enc (env_sealed e))" "g1_subgroup_check (crypto D) pub"
    "auth_decap_secret (crypto D) rsk pub (kem_enc (env_sealed e)) = Ok z"
    "kdf (crypto D) z (kem_enc (env_sealed e)) pub (public_key_bytes (crypto D) rsk) = Ok okm"
    "header_bytes (chia D) e = Ok aad"
    "aead_open (crypto D) okm aad (ciphertext (env_sealed e)) = Ok b"
    "from_bytes (chia_leftover (chia D)) (inner_message_codec (chia D)) b = Inr inner"
    "transcript_verify (crypto D) (opened_transcript e inner) pub (im_sender_sig inner)"
    "im_message_type inner = env_message_type e" "im_correlation_id inner = env_correlation_id e"
    "check_expiry (im_timestamp_ms inner) (im_expires_at inner) now = Ok ()"
  using assms
  by (auto simp: open_inner_def Let_def result_elims split: if_splits)

lemma open_message_OkE:
  assumes "open_message D rsk e resolve g now = (Ok m, g')"
  obtains shape inner where
    "open_inner D rsk e resolve now = Ok (shape, inner)"
    "check_and_admit (hash_iter D) g (env_sender e) (env_sender_epoch e) (im_counter inner)
       (im_timestamp_ms inner) now = Ok (True, g')"
    "decompress_payload (zstd D) (im_compression inner) (im_payload inner) (im_uncompressed_len inner)
       = Ok (om_payload m)"
    "m = \<lparr>om_message_type = im_message_type inner, om_correlation_id = im_correlation_id inner,
          om_shape = shape, om_sender = env_sender e, om_sender_epoch = env_sender_epoch e,
          om_counter = im_counter inner, om_timestamp_ms = im_timestamp_ms inner,
          om_expires_at = im_expires_at inner, om_payload = om_payload m\<rparr>"
  using assms
  by (auto simp: open_message_def result_elims split: result.splits if_splits prod.splits)

text \<open>
  What an envelope carries for a receiver who takes \<open>pub\<close> for the sender's key: the bytes the seal
  decrypts to, and the inner message they encode. No check of the contents is part of it.
\<close>

definition plaintext_of :: "'sk deps \<Rightarrow> 'sk \<Rightarrow> bytes48 \<Rightarrow> dig_message_envelope \<Rightarrow> bytes res" where
  "plaintext_of D rsk pub e =
     and_then (auth_decap_secret (crypto D) rsk pub (kem_enc (env_sealed e))) (\<lambda>z.
     and_then (kdf (crypto D) z (kem_enc (env_sealed e)) pub (public_key_bytes (crypto D) rsk)) (\<lambda>okm.
     and_then (header_bytes (chia D) e) (\<lambda>aad. aead_open (crypto D) okm aad (ciphertext (env_sealed e)))))"

definition presented :: "'sk deps \<Rightarrow> 'sk \<Rightarrow> bytes48 \<Rightarrow> dig_message_envelope \<Rightarrow> inner_message \<Rightarrow> bool" where
  "presented D rsk pub e inner \<longleftrightarrow> (\<exists>b. plaintext_of D rsk pub e = Ok b \<and>
     from_bytes (chia_leftover (chia D)) (inner_message_codec (chia D)) b = Inr inner)"

lemma presented_unique: "presented D rsk pub e i \<Longrightarrow> presented D rsk pub e j \<Longrightarrow> i = j"
  by (auto simp: presented_def)

lemma open_inner_gates:
  assumes "from_flags (env_flags e) = Some shape" and "resolve (env_sender e) (env_sender_epoch e) = Some pub"
  shows "open_inner D rsk e resolve now =
    (if \<not> g1_subgroup_check (crypto D) (kem_enc (env_sealed e)) \<or> \<not> g1_subgroup_check (crypto D) pub
     then Err InvalidPoint
     else and_then (plaintext_of D rsk pub e) (\<lambda>b.
     and_then (map_err Codec (from_bytes (chia_leftover (chia D)) (inner_message_codec (chia D)) b)) (\<lambda>inner.
     if \<not> transcript_verify (crypto D) (opened_transcript e inner) pub (im_sender_sig inner) then Err BadSignature
     else if im_message_type inner \<noteq> env_message_type e \<or> im_correlation_id inner \<noteq> env_correlation_id e
     then Err HeaderMismatch
     else and_then (check_expiry (im_timestamp_ms inner) (im_expires_at inner) now) (\<lambda>_. Ok (shape, inner)))))"
  using assms by (simp add: open_inner_def plaintext_of_def Let_def and_then_assoc)

lemma open_inner_presented:
  assumes "open_inner D rsk e resolve now = Ok (shape, inner)"
  obtains pub where "resolve (env_sender e) (env_sender_epoch e) = Some pub" "presented D rsk pub e inner"
    "verify_signature (crypto D) pub (signing_bytes (crypto D) (opened_transcript e inner)) (im_sender_sig inner)"
  using assms by (rule open_inner_OkE) (auto simp: presented_def plaintext_of_def transcript_verify_def)

text \<open>The guard is touched by authenticated messages only.\<close>

lemma open_message_guard:
  "snd (open_message D rsk e resolve g now) = g \<or>
   (\<exists>shape inner b. open_inner D rsk e resolve now = Ok (shape, inner) \<and>
      check_and_admit (hash_iter D) g (env_sender e) (env_sender_epoch e) (im_counter inner)
        (im_timestamp_ms inner) now = Ok (b, snd (open_message D rsk e resolve g now)))"
  by (simp add: open_message_def split: result.split prod.split)

lemma check_and_admit_fresh: "check_and_admit it g s e c ts now = Ok (True, g') \<Longrightarrow> fresh ts now"
  by (auto simp: check_and_admit_def split: if_splits)

lemma fresh_iff:
  "fresh ts now \<longleftrightarrow> unat now \<le> unat ts + 300000 \<and> unat ts \<le> unat now + 300000"
  using unsigned_less [of ts, where 'a = nat]
  by (auto simp: fresh_def Let_def word_less_nat_alt unat_saturating_add unat_saturating_sub const_defs)

lemma check_expiry_bounds:
  "check_expiry ts ex now = Ok () \<longleftrightarrow>
     ex = 0 \<or> (unat ex \<le> unat ts + 2592000000 \<and> unat now \<le> unat ex)"
  using unsigned_less [of ex, where 'a = nat]
  by (auto simp: check_expiry_Ok_iff word_le_nat_alt unat_saturating_add const_defs)

context sealing
begin

lemma kdf_no_panic: "\<not> is_panic (kdf (crypto D) z k s r)"
  using crypto.kdf_Ok [of z k s r] by auto

lemma open_inner_no_panic: "\<not> is_panic (open_inner D rsk e resolve now)"
  by (auto simp: open_inner_def Let_def result_elims kdf_no_panic)

lemma open_message_invariant:
  assumes g: "guard_models g F"
  shows "\<exists>F'. guard_models (snd (open_message D rsk e resolve g now)) F'"
    and "\<not> is_panic (fst (open_message D rsk e resolve g now))"
proof -
  have inv: "\<exists>b g' F'. check_and_admit (hash_iter D) g s ep c ts now = Ok (b, g') \<and> guard_models g' F'"
    for s ep c ts
    using check_and_admit_total [OF iteration g, of s ep c ts now] by blast
  show "\<exists>F'. guard_models (snd (open_message D rsk e resolve g now)) F'"
    using open_message_guard [of D rsk e resolve g now]
  proof (elim disjE exE conjE)
    fix shape inner b
    assume "check_and_admit (hash_iter D) g (env_sender e) (env_sender_epoch e) (im_counter inner)
        (im_timestamp_ms inner) now = Ok (b, snd (open_message D rsk e resolve g now))"
    then show ?thesis
      using inv [of "env_sender e" "env_sender_epoch e" "im_counter inner" "im_timestamp_ms inner"] by auto
  qed (use g in auto)
  show "\<not> is_panic (fst (open_message D rsk e resolve g now))"
  proof (cases "open_inner D rsk e resolve now")
    case (Ok r)
    obtain shape inner where r: "r = (shape, inner)" by (cases r)
    obtain b g' where "check_and_admit (hash_iter D) g (env_sender e) (env_sender_epoch e) (im_counter inner)
        (im_timestamp_ms inner) now = Ok (b, g')"
      using inv by blast
    then show ?thesis using Ok r by (simp add: open_message_def result_elims)
  next
    case (Panic msg)
    then show ?thesis using open_inner_no_panic [of rsk e resolve now] by simp
  qed (simp add: open_message_def)
qed

text \<open>An envelope whose counter the guard remembers is refused, so the second opening of any is.\<close>

lemma open_message_recorded:
  assumes oi: "open_inner D rsk e resolve now = Ok (shape, inner)"
    and g: "guard_models g F" "unat (im_counter inner) \<in> F (env_sender e, env_sender_epoch e)"
  shows "fst (open_message D rsk e resolve g now') \<in> {Err Replay, Err TtlTooLong, Err Expired}"
proof -
  have "\<not> accepts (F (env_sender e, env_sender_epoch e)) (unat (im_counter inner))" using g(2) by (simp add: accepts_def)
  then obtain g'' where "check_and_admit (hash_iter D) g (env_sender e) (env_sender_epoch e) (im_counter inner)
       (im_timestamp_ms inner) now' = Ok (False, g'')"
    using check_and_admit_total [OF iteration g(1), of "env_sender e" "env_sender_epoch e" "im_counter inner"
        "im_timestamp_ms inner" now'] by auto
  moreover have "open_inner D rsk e resolve now'
      = and_then (check_expiry (im_timestamp_ms inner) (im_expires_at inner) now') (\<lambda>_. Ok (shape, inner))"
    using oi by (rule open_inner_OkE) (simp add: open_inner_def Let_def)
  ultimately show ?thesis
    by (simp add: open_message_def check_expiry_def)
qed

lemma open_message_twice:
  assumes g: "guard_models g F" and ok: "open_message D rsk e resolve g now = (Ok m, g')"
  shows "fst (open_message D rsk e resolve g' now') \<in> {Err Replay, Err TtlTooLong, Err Expired}"
proof -
  obtain shape inner where oi: "open_inner D rsk e resolve now = Ok (shape, inner)"
    and adm: "check_and_admit (hash_iter D) g (env_sender e) (env_sender_epoch e) (im_counter inner)
       (im_timestamp_ms inner) now = Ok (True, g')"
    using ok by (rule open_message_OkE)
  obtain F' where g': "guard_models g' F'"
    "F' (env_sender e, env_sender_epoch e) = insert (unat (im_counter inner)) (F (env_sender e, env_sender_epoch e))"
    using check_and_admit_total [OF iteration g, of "env_sender e" "env_sender_epoch e" "im_counter inner"
        "im_timestamp_ms inner" now] adm
    by (auto simp: remember_def)
  show ?thesis by (rule open_message_recorded [OF oi g'(1)]) (simp add: g'(2))
qed

end

section \<open>An instance of the whole pipeline\<close>

definition sum_deps :: "u8 deps" where
  "sum_deps = \<lparr>chia = chia_format, zstd = rle_zstd, crypto = sum_crypto, hash_iter = id\<rparr>"

interpretation sum: sealing sum_deps
proof (rule sealing.intro)
  show "chia_sized (chia sum_deps)" by (simp add: sum_deps_def chia.chia_sized_axioms)
  show "zstd_codec (zstd sum_deps)" by (simp add: sum_deps_def rle.zstd_codec_axioms)
  show "crypto_primitives (crypto sum_deps)" by (simp add: sum_deps_def sum.crypto_primitives_axioms)
  show "sealing_axioms sum_deps" by (simp add: sealing_axioms_def sum_deps_def iteration_order_def)
qed


text \<open>A message from key 3 to key 5, for evaluation.\<close>

definition sample_params :: "u8 seal_params" where
  "sample_params = \<lparr>sp_sender_sk = 3, sp_sender = array_of_byte 1, sp_sender_epoch = 0,
     sp_recipient = array_of_byte 2, sp_recipient_pub = array_of_byte 5, sp_message_type = 0x100,
     sp_shape = Request, sp_correlation_id = array_of_byte 9, sp_stream = None, sp_counter = 7,
     sp_timestamp_ms = 1000, sp_expires_at = 5000, sp_payload = [10, 20, 30]\<rparr>"

lemma sample_params_simps [simp]:
  "sp_sender_sk sample_params = 3" "sp_sender sample_params = array_of_byte 1"
  "sp_sender_epoch sample_params = 0" "sp_recipient_pub sample_params = array_of_byte 5"
  "sp_counter sample_params = 7" "sp_payload sample_params = [10, 20, 30]"
  "sp_timestamp_ms sample_params = 1000" "sp_expires_at sample_params = 5000"
  by (simp_all add: sample_params_def)

definition sample_resolver :: resolver where
  "sample_resolver s ep = (if s = array_of_byte 1 \<and> ep = 0 then Some (array_of_byte 3) else None)"

lemma sample_addressed [simp]: "addressed sum_deps 5 sample_resolver sample_params"
  by (simp add: addressed_def sample_resolver_def sum_deps_def sum_crypto_def)

lemma sample_seal: "\<exists>e. seal_with_ephemeral sum_deps sample_params 11 = Ok e"
  by (rule sum.seal_total [where rsk = 5 and c = "raw [10, 20, 30] 3"])
    (simp_all add: sum_deps_def sum_crypto_def compress_payload_def
      u32_try_from_def const_defs)

lemma seal_message_ephemeral:
  "seal_message D (Inr ikm) p = seal_with_ephemeral D p (sk_from_seed (crypto D) ikm)"
  by (simp add: seal_message_def random_ephemeral_def)

lemma seal_message_OkE:
  assumes "seal_message D entropy p = Ok e"
  obtains esk where "seal_with_ephemeral D p esk = Ok e"
  using assms by (cases entropy) (auto simp: seal_message_def random_ephemeral_def)

lemma sample_seal_message: "\<exists>e. seal_message sum_deps (Inr (array_of_byte 11)) sample_params = Ok e"
  using sample_seal by (simp add: seal_message_ephemeral sum_deps_def sum_crypto_def)

lemma sample_times [simp]: "check_expiry 1000 5000 2000 = Ok ()" "fresh 1000 2000"
  by (simp_all add: check_expiry_bounds fresh_iff)

lemma sum_aead_length: "aead_seal sum_crypto o' aad b = Ok ct \<Longrightarrow> length ct = Suc (length b)"
  by (auto simp: aead_seal_def result_elims sum_crypto_def split: option.splits)

lemma sum_sealed_size:
  assumes "seal_with_ephemeral sum_deps p esk = Ok e" and "length (sp_payload p) < 2 ^ 23"
  shows "\<exists>wire. encode_envelope chia_format e = Ok wire"
  using assms(1)
proof (rule seal_with_ephemeral_inner)
  fix c okm aad b sig
  assume c: "compress_payload (zstd sum_deps) (sp_payload p) = Ok c"
    and b: "to_bytes (inner_message_codec (chia sum_deps)) (inner_of p c sig) = Inr b"
    and ct: "aead_seal (crypto sum_deps) okm aad b = Ok (ciphertext (env_sealed e))"
  have "length (cp_bytes c) < 2 ^ 23" using compress_length [OF c] assms(2) by simp
  moreover from this have "length b = 165 + length (cp_bytes c)"
    using chia.len_inner [of "inner_of p c sig"] b by (auto simp: sum_deps_def inner_size_def)
  moreover have "length (ciphertext (env_sealed e)) = Suc (length b)"
    using ct by (intro sum_aead_length) (simp add: sum_deps_def)
  moreover have "header_size e \<le> 120" by (simp add: header_size_def split: option.split)
  ultimately show ?thesis
    using chia.encode_envelope_size [of e] by (auto simp: envelope_size_def const_defs split: if_splits)
qed

lemma sample_open:
  obtains e g' where "seal_with_ephemeral sum_deps sample_params 11 = Ok e"
    "open_message sum_deps 5 e sample_resolver guard_new 2000 = (Ok (opened_of sample_params), g')"
    "g' \<noteq> guard_new"
proof -
  obtain e where e: "seal_with_ephemeral sum_deps sample_params 11 = Ok e" using sample_seal by blast
  obtain g' F' where ok: "open_message sum_deps 5 e sample_resolver guard_new 2000 = (Ok (opened_of sample_params), g')"
      "guard_models g' F'" "F' (array_of_byte 1, 0) = {7}"
    using sum.open_sealed [OF e sample_addressed guard_models_new, of 2000]
    by (auto simp: const_defs accepts_def remember_def)
  have "g' \<noteq> guard_new"
    using guard_modelsD(3) [OF ok(2), of "(array_of_byte 1, 0)"] ok(3) by (auto simp: guard_new_def)
  with e ok(1) show thesis by (rule that)
qed

section \<open>Properties\<close>

text \<open>
  C1: end to end over the wire. An envelope that \<open>seal_message\<close> produced for a receiver, encoded
  and sent, decodes to itself, and \<open>open_message\<close> returns exactly the sender's message, provided
  it is in time, its counter is acceptable for that sender and epoch, and the payload is within
  the receiver's cap; the guard then remembers the counter.
\<close>
theorem seal_open_round_trip:
  assumes "sealing D" and "seal_message D entropy p = Ok e" and "encode_envelope (chia D) e = Ok wire"
    and "addressed D rsk resolve p" and "guard_models g F"
    and "length (sp_payload p) \<le> MAX_DECOMPRESSED_BYTES"
    and "check_expiry (sp_timestamp_ms p) (sp_expires_at p) now = Ok ()"
    and "fresh (sp_timestamp_ms p) now"
    and "accepts (F (sp_sender p, sp_sender_epoch p)) (unat (sp_counter p))"
  shows "decode_envelope (chia D) wire = Ok e \<and>
    (\<exists>g' F'. open_message D rsk e resolve g now = (Ok (opened_of p), g') \<and> guard_models g' F' \<and>
      F' (sp_sender p, sp_sender_epoch p)
        = insert (unat (sp_counter p)) (F (sp_sender p, sp_sender_epoch p)))"
proof -
  obtain esk where seal: "seal_with_ephemeral D p esk = Ok e"
    using assms(2) by (rule seal_message_OkE)
  have chia: "chia_streamable (chia D)"
    using assms(1) by (simp add: sealing_def chia_sized_def)
  have "env_version e \<le> ENVELOPE_VERSION"
    using seal_with_ephemeral_fields [OF seal] by (simp add: sealed_for_def)
  then have "decode_envelope (chia D) wire = Ok e"
    by (rule chia_streamable.decode_encode [OF chia assms(3)])
  then show ?thesis
    using sealing.open_sealed [OF assms(1) seal assms(4,5,6,7)] assms(8,9) by (auto simp: remember_def)
qed

theorem seal_open_round_trip_witness:
  "\<exists>e wire g' F'. seal_message sum_deps (Inr (array_of_byte 11)) sample_params = Ok e \<and>
     decode_envelope chia_format wire = Ok e \<and>
     open_message sum_deps 5 e sample_resolver guard_new 2000 = (Ok (opened_of sample_params), g') \<and>
     guard_models g' F' \<and> F' (array_of_byte 1, 0) = {7}"
proof -
  obtain e where e: "seal_message sum_deps (Inr (array_of_byte 11)) sample_params = Ok e"
    using sample_seal_message by blast
  then obtain wire where w: "encode_envelope chia_format e = Ok wire"
    using sum_sealed_size [of sample_params] by (auto simp: seal_message_ephemeral)
  have "sealing sum_deps" by (rule sum.sealing_axioms)
  from seal_open_round_trip [OF this e _ sample_addressed guard_models_new, of wire 2000] w
  have "decode_envelope chia_format wire = Ok e \<and>
    (\<exists>g' F'. open_message sum_deps 5 e sample_resolver guard_new 2000 = (Ok (opened_of sample_params), g') \<and>
      guard_models g' F' \<and> F' (array_of_byte 1, 0) = {7})"
    by (simp add: sum_deps_def const_defs accepts_def)
  then show ?thesis using e by blast
qed


text \<open>
  C2: what a message that \<open>open_message\<close> returns has passed. The sender's key was resolved for
  the claimed sender and epoch, both received points passed the subgroup check, the ciphertext
  was opened under the header as associated data, the signature over the rebuilt transcript
  verifies under that key, the inner header equals the outer one, the timestamp is within five
  minutes of the receiver's clock, the expiry is not past and at most thirty days after the
  timestamp, and the payload has the declared length, at most 64 MiB.
\<close>
theorem open_message_authentic:
  assumes "open_message D rsk e resolve g now = (Ok m, g')"
  shows "\<exists>pub okm aad b inner.
    resolve (om_sender m) (om_sender_epoch m) = Some pub \<and>
    g1_subgroup_check (crypto D) pub \<and> g1_subgroup_check (crypto D) (kem_enc (env_sealed e)) \<and>
    header_bytes (chia D) e = Ok aad \<and>
    aead_open (crypto D) okm aad (ciphertext (env_sealed e)) = Ok b \<and>
    from_bytes (chia_leftover (chia D)) (inner_message_codec (chia D)) b = Inr inner \<and>
    transcript_verify (crypto D) (opened_transcript e inner) pub (im_sender_sig inner) \<and>
    om_message_type m = env_message_type e \<and> im_message_type inner = env_message_type e \<and>
    om_correlation_id m = env_correlation_id e \<and> im_correlation_id inner = env_correlation_id e \<and>
    om_sender m = env_sender e \<and> om_sender_epoch m = env_sender_epoch e \<and>
    from_flags (env_flags e) = Some (om_shape m) \<and> om_counter m = im_counter inner \<and>
    unat now \<le> unat (om_timestamp_ms m) + 300000 \<and> unat (om_timestamp_ms m) \<le> unat now + 300000 \<and>
    (om_expires_at m = 0 \<or> unat (om_expires_at m) \<le> unat (om_timestamp_ms m) + 2592000000 \<and>
       unat now \<le> unat (om_expires_at m)) \<and>
    length (om_payload m) = unat (im_uncompressed_len inner) \<and>
    length (om_payload m) \<le> MAX_DECOMPRESSED_BYTES"
  using assms
proof (rule open_message_OkE)
  fix shape inner
  assume oi: "open_inner D rsk e resolve now = Ok (shape, inner)"
    and adm: "check_and_admit (hash_iter D) g (env_sender e) (env_sender_epoch e) (im_counter inner)
       (im_timestamp_ms inner) now = Ok (True, g')"
    and dec: "decompress_payload (zstd D) (im_compression inner) (im_payload inner) (im_uncompressed_len inner)
       = Ok (om_payload m)"
    and m: "m = \<lparr>om_message_type = im_message_type inner, om_correlation_id = im_correlation_id inner,
          om_shape = shape, om_sender = env_sender e, om_sender_epoch = env_sender_epoch e,
          om_counter = im_counter inner, om_timestamp_ms = im_timestamp_ms inner,
          om_expires_at = im_expires_at inner, om_payload = om_payload m\<rparr>"
  have fields:
    "om_message_type m = im_message_type inner" "om_correlation_id m = im_correlation_id inner"
    "om_shape m = shape" "om_sender m = env_sender e" "om_sender_epoch m = env_sender_epoch e"
    "om_counter m = im_counter inner" "om_timestamp_ms m = im_timestamp_ms inner"
    "om_expires_at m = im_expires_at inner"
    by (subst m, simp)+
  show ?thesis
    unfolding fields
    by (rule open_inner_OkE [OF oi])
      (use check_and_admit_fresh [OF adm] decompress_bounds [OF dec]
       in \<open>auto simp: fresh_iff check_expiry_bounds\<close>)
qed

theorem open_message_authentic_witness:
  "\<exists>e m g'. open_message sum_deps 5 e sample_resolver guard_new 2000 = (Ok m, g') \<and>
     om_sender m = env_sender e \<and> length (om_payload m) \<le> MAX_DECOMPRESSED_BYTES"
proof (rule sample_open)
  fix e g'
  assume ok: "open_message sum_deps 5 e sample_resolver guard_new 2000 = (Ok (opened_of sample_params), g')"
  from open_message_authentic [OF ok] ok show ?thesis by blast
qed

text \<open>
  C10: no replay. After an envelope has been opened once, every later attempt to open it with
  the guard that the opening returned is refused as a replay or for its times, at any clock.
\<close>
theorem open_message_never_twice:
  assumes "sealing D" and "guard_models g F" and "open_message D rsk e resolve g now = (Ok m, g')"
  shows "fst (open_message D rsk e resolve g' now') \<in> {Err Replay, Err TtlTooLong, Err Expired}"
  by (rule sealing.open_message_twice [OF assms])

theorem open_message_never_twice_witness:
  "\<exists>e m g'. open_message sum_deps 5 e sample_resolver guard_new 2000 = (Ok m, g') \<and>
     fst (open_message sum_deps 5 e sample_resolver g' 2001) \<in> {Err Replay, Err TtlTooLong, Err Expired}"
  by (rule sample_open) (use open_message_never_twice [OF sum.sealing_axioms guard_models_new] in blast)

text \<open>
  C26: on any envelope, however malformed, \<open>open_message\<close> does not panic and leaves a
  well-formed guard that tracks at most the capped number of senders.
\<close>
theorem open_message_safe:
  assumes "sealing D" and "guard_models g F"
  shows "\<not> is_panic (fst (open_message D rsk e resolve g now)) \<and>
    (\<exists>F'. guard_models (snd (open_message D rsk e resolve g now)) F') \<and>
    tracked_senders (snd (open_message D rsk e resolve g now)) \<le> MAX_TRACKED_SENDERS"
  using sealing.open_message_invariant [OF assms, of rsk e resolve now] guard_modelsD(2)
  by (auto simp: tracked_senders_def)

theorem open_message_safe_witness:
  "\<forall>e resolve now. \<not> is_panic (fst (open_message sum_deps 5 e resolve guard_new now))"
  using open_message_safe [OF sum.sealing_axioms guard_models_new] by blast

text \<open>
  C27: only a message that passed every cryptographic check can change the anti-replay state: if
  an opening changes the guard, the sender was resolved, the signature verified and the message
  was in time, and its counter was new to the sender's history.
\<close>
theorem open_message_guard_changes:
  assumes "iteration_order (hash_iter D)" and "guard_models g F"
    and "snd (open_message D rsk e resolve g now) \<noteq> g"
  shows "\<exists>pub shape inner. open_inner D rsk e resolve now = Ok (shape, inner) \<and>
    resolve (env_sender e) (env_sender_epoch e) = Some pub \<and>
    transcript_verify (crypto D) (opened_transcript e inner) pub (im_sender_sig inner) \<and>
    fresh (im_timestamp_ms inner) now \<and>
    unat (im_counter inner) \<notin> F (env_sender e, env_sender_epoch e)"
proof -
  obtain shape inner b where oi: "open_inner D rsk e resolve now = Ok (shape, inner)"
    and adm: "check_and_admit (hash_iter D) g (env_sender e) (env_sender_epoch e) (im_counter inner)
        (im_timestamp_ms inner) now = Ok (b, snd (open_message D rsk e resolve g now))"
    using open_message_guard [of D rsk e resolve g now] assms(3) by blast
  have "fresh (im_timestamp_ms inner) now \<and> accepts (F (env_sender e, env_sender_epoch e)) (unat (im_counter inner))"
    using check_and_admit_total [OF assms(1,2), of "env_sender e" "env_sender_epoch e" "im_counter inner"
        "im_timestamp_ms inner" now] adm assms(3) by auto
  then have "fresh (im_timestamp_ms inner) now" "unat (im_counter inner) \<notin> F (env_sender e, env_sender_epoch e)"
    by (simp_all add: accepts_def)
  with oi show ?thesis by (blast elim: open_inner_OkE)
qed

theorem open_message_guard_changes_witness:
  "\<exists>e pub inner. snd (open_message sum_deps 5 e sample_resolver guard_new 2000) \<noteq> guard_new \<and>
     transcript_verify sum_crypto (opened_transcript e inner) pub (im_sender_sig inner)"
proof (rule sample_open)
  fix e g'
  assume e: "open_message sum_deps 5 e sample_resolver guard_new 2000 = (Ok (opened_of sample_params), g')"
    and g': "g' \<noteq> guard_new"
  then have ch: "snd (open_message sum_deps 5 e sample_resolver guard_new 2000) \<noteq> guard_new" by simp
  have "crypto sum_deps = sum_crypto" by (simp add: sum_deps_def)
  with open_message_guard_changes [OF sum.iteration guard_models_new ch] ch show ?thesis by metis
qed

text \<open>
  C29: \<open>seal_message\<close> fails with \<open>SealFailed\<close> when the entropy source does, and for a
  recipient key that is a public key succeeds exactly when the payload can be compressed.
\<close>
theorem seal_message_total:
  assumes "sealing D" and "sp_recipient_pub p = public_key_bytes (crypto D) rsk"
  shows "seal_message D (Inl x) p = Err (SealFailed (''ephemeral key entropy: '' @ x)) \<and>
    ((\<exists>e. seal_message D (Inr ikm) p = Ok e) \<longleftrightarrow> (\<exists>c. compress_payload (zstd D) (sp_payload p) = Ok c)) \<and>
    (\<forall>err. compress_payload (zstd D) (sp_payload p) = Err err \<longrightarrow> seal_message D (Inr ikm) p = Err err)"
  using sealing.seal_total [OF assms(1) _ assms(2)]
  by (auto simp: seal_message_def random_ephemeral_def elim: seal_with_ephemeral_inner)
    (simp add: seal_with_ephemeral_def)

theorem seal_message_total_witness:
  "\<exists>e. seal_message sum_deps (Inr (array_of_byte 11)) sample_params = Ok e"
  using seal_message_total [OF sum.sealing_axioms, of sample_params 5]
  by (simp add: sum_deps_def sum_crypto_def compress_payload_def u32_try_from_def const_defs)

end
