(* ===== verification/Seal_Gates.thy ===== *)
theory Seal_Gates
  imports Msg_Seal
begin

text \<open>
  Why an opening fails: \<open>open_message\<close> of \<open>src/seal.rs\<close> against a table of causes that is told from
  the answers of the libraries, the clock and the full history behind the anti-replay guard; and
  the payloads that are sealed but that no receiver opens.
\<close>

text \<open>The inner message of a sender the receiver knows, sealed at proper points; its signature verified.\<close>

definition keyed :: "'sk deps \<Rightarrow> 'sk \<Rightarrow> resolver \<Rightarrow> dig_message_envelope \<Rightarrow> bytes48 \<Rightarrow> bool" where
  "keyed D rsk resolve e pub \<longleftrightarrow> resolve (env_sender e) (env_sender_epoch e) = Some pub \<and>
     g1_subgroup_check (crypto D) (kem_enc (env_sealed e)) \<and> g1_subgroup_check (crypto D) pub"

definition authentic :: "'sk deps \<Rightarrow> 'sk \<Rightarrow> resolver \<Rightarrow> dig_message_envelope \<Rightarrow> inner_message \<Rightarrow> bool" where
  "authentic D rsk resolve e inner \<longleftrightarrow> (\<exists>pub. keyed D rsk resolve e pub \<and> presented D rsk pub e inner \<and>
     verify_signature (crypto D) pub (signing_bytes (crypto D) (opened_transcript e inner)) (im_sender_sig inner))"

definition matches_header :: "dig_message_envelope \<Rightarrow> inner_message \<Rightarrow> bool" where
  "matches_header e inner \<longleftrightarrow>
     im_message_type inner = env_message_type e \<and> im_correlation_id inner = env_correlation_id e"

text \<open>The times of the message: valid for more than thirty days, past its expiry, new and fresh.\<close>

definition too_long :: "inner_message \<Rightarrow> bool" where
  "too_long inner \<longleftrightarrow> im_expires_at inner \<noteq> 0 \<and> unat (im_timestamp_ms inner) + 2592000000 < unat (im_expires_at inner)"

definition past_expiry :: "inner_message \<Rightarrow> u64 \<Rightarrow> bool" where
  "past_expiry inner now \<longleftrightarrow> im_expires_at inner \<noteq> 0 \<and> unat (im_expires_at inner) < unat now"

definition new_in_time :: "(sender_key \<Rightarrow> nat set) \<Rightarrow> dig_message_envelope \<Rightarrow> inner_message \<Rightarrow> u64 \<Rightarrow> bool" where
  "new_in_time F e inner now \<longleftrightarrow>
     unat now \<le> unat (im_timestamp_ms inner) + 300000 \<and> unat (im_timestamp_ms inner) \<le> unat now + 300000 \<and>
     accepts (F (env_sender e, env_sender_epoch e)) (unat (im_counter inner))"

definition unpacked :: "'sk deps \<Rightarrow> inner_message \<Rightarrow> bytes res" where
  "unpacked D inner = decompress_payload (zstd D) (im_compression inner) (im_payload inner) (im_uncompressed_len inner)"

lemma new_in_time_fresh:
  "new_in_time F e inner now \<longleftrightarrow> fresh (im_timestamp_ms inner) now \<and>
     accepts (F (env_sender e, env_sender_epoch e)) (unat (im_counter inner))"
  by (auto simp: new_in_time_def fresh_iff)

lemma check_expiry_told:
  "check_expiry (im_timestamp_ms inner) (im_expires_at inner) now =
     (if too_long inner then Err TtlTooLong else if past_expiry inner now then Err Expired else Ok ())"
  using unsigned_less [of "im_expires_at inner", where 'a = nat]
  by (auto simp: check_expiry_def too_long_def past_expiry_def word_less_nat_alt unat_saturating_add MAX_MESSAGE_TTL_MS_def)

lemma decompress_Err:
  "decompress_payload Z c d n = Err x \<Longrightarrow> x \<notin> {UnresolvableSender, InvalidPoint, OpenFailed, BadSignature,
     HeaderMismatch, TtlTooLong, Expired, Replay}"
  by (auto simp: decompress_payload_def Let_def result_elims map_err.simps split: if_splits sum.splits)

lemma unpacked_Err:
  "unpacked D inner = Err x \<Longrightarrow> x \<notin> {UnresolvableSender, InvalidPoint, OpenFailed, BadSignature, HeaderMismatch,
     TtlTooLong, Expired, Replay}"
  by (auto simp: unpacked_def dest: decompress_Err)

lemma aead_open_Err: "aead_open C o' aad ct = Err x \<Longrightarrow> x = OpenFailed"
  using okm_nonce [of o'] by (auto simp: aead_open_def result_elims split: option.splits)

lemma decap_Err_iff:
  "auth_decap_secret C rsk pub kem = Err x \<longleftrightarrow> x = InvalidPoint \<and> (g1_dh C rsk kem = None \<or> g1_dh C rsk pub = None)"
  by (cases "g1_dh C rsk kem"; cases "g1_dh C rsk pub") (auto simp: auth_decap_secret_def)

context sealing
begin

lemma plaintext_cases:
  obtains b where "plaintext_of D rsk pub e = Ok b"
      "g1_dh (crypto D) rsk (kem_enc (env_sealed e)) \<noteq> None" "g1_dh (crypto D) rsk pub \<noteq> None"
  | "plaintext_of D rsk pub e = Err InvalidPoint"
      "g1_dh (crypto D) rsk (kem_enc (env_sealed e)) = None \<or> g1_dh (crypto D) rsk pub = None"
  | "plaintext_of D rsk pub e = Err OpenFailed"
      "g1_dh (crypto D) rsk (kem_enc (env_sealed e)) \<noteq> None" "g1_dh (crypto D) rsk pub \<noteq> None"
proof (cases "auth_decap_secret (crypto D) rsk pub (kem_enc (env_sealed e))")
  case (Ok z)
  then have dh: "g1_dh (crypto D) rsk (kem_enc (env_sealed e)) \<noteq> None" "g1_dh (crypto D) rsk pub \<noteq> None"
    by (auto simp: auth_decap_secret_def result_elims)
  obtain okm where okm: "kdf (crypto D) z (kem_enc (env_sealed e)) pub (public_key_bytes (crypto D) rsk) = Ok okm"
    using crypto.kdf_Ok by blast
  obtain aad where aad: "header_bytes (chia D) e = Ok aad" using chia.header_bytes_Ok by blast
  have p: "plaintext_of D rsk pub e = aead_open (crypto D) okm aad (ciphertext (env_sealed e))"
    using Ok okm aad by (simp add: plaintext_of_def)
  show thesis
  proof (cases "aead_open (crypto D) okm aad (ciphertext (env_sealed e))")
    case (Err x)
    then show thesis using aead_open_Err [OF Err] p dh that(3) by simp
  next
    case (Panic x)
    then show thesis using aead_open_no_panic [of "crypto D" okm aad "ciphertext (env_sealed e)"] by simp
  qed (use p dh that(1) in simp)
next
  case (Err x)
  then have "plaintext_of D rsk pub e = Err x" by (simp add: plaintext_of_def)
  then show thesis using Err that(2) unfolding decap_Err_iff by blast
next
  case (Panic x)
  then show thesis using auth_decap_no_panic [of "crypto D" rsk pub "kem_enc (env_sealed e)"] by simp
qed

text \<open>Past the checks of \<open>open_inner\<close>, the guard decides, and then the payload's size and codec.\<close>

lemma open_message_admission:
  assumes g: "guard_models g F" and oi: "open_inner D rsk e resolve now = Ok (shape, inner)"
  obtains "\<not> new_in_time F e inner now" "open_message D rsk e resolve g now = (Err Replay, g)"
  | m g' F' where "new_in_time F e inner now" "guard_models g' F'"
    "F' (env_sender e, env_sender_epoch e) = insert (unat (im_counter inner)) (F (env_sender e, env_sender_epoch e))"
    "open_message D rsk e resolve g now = (and_then (decompress_payload (zstd D) (im_compression inner)
       (im_payload inner) (im_uncompressed_len inner)) (\<lambda>payload. Ok (m payload)), g')"
proof -
  obtain g' F' where adm: "check_and_admit (hash_iter D) g (env_sender e) (env_sender_epoch e) (im_counter inner)
       (im_timestamp_ms inner) now = Ok (new_in_time F e inner now, g')" "guard_models g' F'"
    "F' (env_sender e, env_sender_epoch e) = (if fresh (im_timestamp_ms inner) now
       then remember (F (env_sender e, env_sender_epoch e)) (unat (im_counter inner))
       else F (env_sender e, env_sender_epoch e))"
    "\<not> new_in_time F e inner now \<Longrightarrow> g' = g"
    using check_and_admit_total [OF iteration g] unfolding new_in_time_fresh by meson
  show thesis
  proof (cases "new_in_time F e inner now")
    case True
    show thesis
      by (rule that(2) [OF True adm(2)])
        (use True adm oi in \<open>auto simp: new_in_time_fresh remember_def open_message_def decompress_payload_def Let_def\<close>)
  qed (use that(1) adm oi in \<open>simp add: open_message_def\<close>)
qed

end

definition admissible ::
    "'sk deps \<Rightarrow> 'sk \<Rightarrow> resolver \<Rightarrow> (sender_key \<Rightarrow> nat set) \<Rightarrow> dig_message_envelope \<Rightarrow> inner_message \<Rightarrow> u64 \<Rightarrow> bool" where
  "admissible D rsk resolve F e inner now \<longleftrightarrow> authentic D rsk resolve e inner \<and> matches_header e inner \<and>
     \<not> too_long inner \<and> \<not> past_expiry inner now \<and> new_in_time F e inner now"

text \<open>Why an opening fails with \<open>x\<close>, told from the libraries' answers and the history \<open>F\<close> of the guard.\<close>

definition at_fault ::
    "'sk deps \<Rightarrow> 'sk \<Rightarrow> resolver \<Rightarrow> (sender_key \<Rightarrow> nat set) \<Rightarrow> dig_message_envelope \<Rightarrow> u64 \<Rightarrow> message_error \<Rightarrow> bool" where
  "at_fault D rsk resolve F e now x \<longleftrightarrow>
     (case x of
        UnresolvableSender \<Rightarrow> resolve (env_sender e) (env_sender_epoch e) = None
      | InvalidPoint \<Rightarrow> (\<exists>pub. resolve (env_sender e) (env_sender_epoch e) = Some pub \<and>
          (\<not> keyed D rsk resolve e pub \<or> g1_dh (crypto D) rsk (kem_enc (env_sealed e)) = None \<or> g1_dh (crypto D) rsk pub = None))
      | OpenFailed \<Rightarrow> (\<exists>pub. keyed D rsk resolve e pub \<and> plaintext_of D rsk pub e = Err OpenFailed)
      | BadSignature \<Rightarrow> (\<exists>pub inner. keyed D rsk resolve e pub \<and> presented D rsk pub e inner \<and>
          \<not> verify_signature (crypto D) pub (signing_bytes (crypto D) (opened_transcript e inner)) (im_sender_sig inner))
      | HeaderMismatch \<Rightarrow> (\<exists>inner. authentic D rsk resolve e inner \<and> \<not> matches_header e inner)
      | TtlTooLong \<Rightarrow> (\<exists>inner. authentic D rsk resolve e inner \<and> matches_header e inner \<and> too_long inner)
      | Expired \<Rightarrow> (\<exists>inner. authentic D rsk resolve e inner \<and> matches_header e inner \<and>
          \<not> too_long inner \<and> past_expiry inner now)
      | Replay \<Rightarrow> (\<exists>inner. authentic D rsk resolve e inner \<and> matches_header e inner \<and>
          \<not> too_long inner \<and> \<not> past_expiry inner now \<and> \<not> new_in_time F e inner now)
      | _ \<Rightarrow>
          (\<exists>pub b s. keyed D rsk resolve e pub \<and> plaintext_of D rsk pub e = Ok b \<and>
             from_bytes (chia_leftover (chia D)) (inner_message_codec (chia D)) b = Inl s \<and> x = Codec s) \<or>
          (\<exists>inner. admissible D rsk resolve F e inner now \<and> unpacked D inner = Err x))"

text \<open>A failed opening leaves the guard alone, unless the message was admitted before it failed.\<close>

definition explained ::
    "'sk deps \<Rightarrow> 'sk \<Rightarrow> resolver \<Rightarrow> (sender_key \<Rightarrow> nat set) \<Rightarrow> dig_message_envelope \<Rightarrow> u64
      \<Rightarrow> replay_guard \<Rightarrow> opened_message res \<Rightarrow> replay_guard \<Rightarrow> bool" where
  "explained D rsk resolve F e now g r g' \<longleftrightarrow> (\<forall>x. r = Err x \<longleftrightarrow> at_fault D rsk resolve F e now x) \<and>
     (\<forall>x. r = Err x \<longrightarrow>
       (if \<exists>inner. admissible D rsk resolve F e inner now
        then \<exists>inner F'. admissible D rsk resolve F e inner now \<and> unpacked D inner = Err x \<and> guard_models g' F' \<and>
          F' (env_sender e, env_sender_epoch e) = insert (unat (im_counter inner)) (F (env_sender e, env_sender_epoch e))
        else g' = g))"

lemmas told = explained_def at_fault_def admissible_def authentic_def presented_def

context sealing
begin

lemma fault_of:
  assumes c: "\<And>p. keyed D rsk resolve e p \<longleftrightarrow> p = pub" and s: "resolve (env_sender e) (env_sender_epoch e) = Some pub"
    and i: "\<And>j. presented D rsk pub e j \<longleftrightarrow> j = inner" and a: "\<And>j. authentic D rsk resolve e j \<longleftrightarrow> j = inner \<and> V"
    and V: "V \<longleftrightarrow> verify_signature (crypto D) pub (signing_bytes (crypto D) (opened_transcript e inner)) (im_sender_sig inner)"
    and b: "plaintext_of D rsk pub e = Ok b" "from_bytes (chia_leftover (chia D)) (inner_message_codec (chia D)) b = Inr inner"
    and dh: "g1_dh (crypto D) rsk (kem_enc (env_sealed e)) \<noteq> None" "g1_dh (crypto D) rsk pub \<noteq> None"
  shows "at_fault D rsk resolve F e now x \<longleftrightarrow>
    (if \<not> V then x = BadSignature else if \<not> matches_header e inner then x = HeaderMismatch
     else if too_long inner then x = TtlTooLong else if past_expiry inner now then x = Expired
     else if \<not> new_in_time F e inner now then x = Replay else unpacked D inner = Err x)"
  by (cases x; simp add: at_fault_def c s i a V [symmetric] b dh admissible_def del: not_None_eq)
    (auto dest: unpacked_Err)

lemma gates_content:
  assumes g: "guard_models g F" and fl: "from_flags (env_flags e) = Some shape" and pub: "keyed D rsk resolve e pub"
    and p: "presented D rsk pub e inner"
    and ok: "open_message D rsk e resolve g now = (r, g')"
  shows "explained D rsk resolve F e now g r g'"
proof -
  define V where "V \<longleftrightarrow> transcript_verify (crypto D) (opened_transcript e inner) pub (im_sender_sig inner)"
  have c: "keyed D rsk resolve e p \<longleftrightarrow> p = pub" for p using pub by (auto simp: keyed_def)
  have s: "resolve (env_sender e) (env_sender_epoch e) = Some pub" using pub by (simp add: keyed_def)
  have i: "presented D rsk pub e j \<longleftrightarrow> j = inner" for j
    using p by (blast intro: presented_unique)
  have a: "authentic D rsk resolve e j \<longleftrightarrow> j = inner \<and> V" for j
    by (auto simp: authentic_def c i transcript_verify_def V_def)
  obtain b where b: "plaintext_of D rsk pub e = Ok b"
      "from_bytes (chia_leftover (chia D)) (inner_message_codec (chia D)) b = Inr inner"
    using p by (auto simp: presented_def)
  have dh: "g1_dh (crypto D) rsk (kem_enc (env_sealed e)) \<noteq> None" "g1_dh (crypto D) rsk pub \<noteq> None"
    using b(1) by (auto simp: plaintext_of_def auth_decap_secret_def result_elims)
  have oi: "open_inner D rsk e resolve now = (if \<not> V then Err BadSignature
      else if \<not> matches_header e inner then Err HeaderMismatch else if too_long inner then Err TtlTooLong
      else if past_expiry inner now then Err Expired else Ok (shape, inner))"
    using pub b by (simp add: open_inner_gates [where resolve = resolve and rsk = rsk and now = now, OF fl s]
        keyed_def matches_header_def V_def check_expiry_told)
  note tell = explained_def admissible_def a fault_of [OF c s i a V_def [unfolded transcript_verify_def] b dh]
  show ?thesis
  proof (cases "V \<and> matches_header e inner \<and> \<not> too_long inner \<and> \<not> past_expiry inner now")
    case False
    then have "open_inner D rsk e resolve now \<noteq> Ok si" for si using oi by (auto simp: result_elims)
    then have "g' = g" "r = Err y \<longleftrightarrow> open_inner D rsk e resolve now = Err y" for y
      using ok by (auto simp: open_message_def split: result.splits)
    then show ?thesis using False oi by (auto simp: tell)
  next
    case True
    then have "open_inner D rsk e resolve now = Ok (shape, inner)" using oi by simp
    then show ?thesis
    proof (rule open_message_admission [OF g])
      assume "\<not> new_in_time F e inner now" "open_message D rsk e resolve g now = (Err Replay, g)"
      then show ?thesis using True ok by (auto simp: tell)
    next
      fix m g1 F'
      assume n: "new_in_time F e inner now" "guard_models g1 F'"
        "F' (env_sender e, env_sender_epoch e) = insert (unat (im_counter inner)) (F (env_sender e, env_sender_epoch e))"
        "open_message D rsk e resolve g now = (and_then (decompress_payload (zstd D) (im_compression inner)
           (im_payload inner) (im_uncompressed_len inner)) (\<lambda>payload. Ok (m payload)), g1)"
      then have "r = Err x \<longleftrightarrow> unpacked D inner = Err x" "g' = g1" for x
        using ok by (auto simp: result_elims unpacked_def)
      then show ?thesis using True n by (auto simp: tell)
    qed
  qed
qed

lemma gates_points:
  assumes g: "guard_models g F" and fl: "from_flags (env_flags e) = Some shape" and pub: "keyed D rsk resolve e pub"
    and ok: "open_message D rsk e resolve g now = (r, g')"
  shows "explained D rsk resolve F e now g r g'"
proof -
  have c: "keyed D rsk resolve e p \<longleftrightarrow> p = pub" for p using pub by (auto simp: keyed_def)
  have s: "resolve (env_sender e) (env_sender_epoch e) = Some pub" using pub by (simp add: keyed_def)
  note oi = open_inner_gates [where resolve = resolve and rsk = rsk and now = now, OF fl s]
  show ?thesis
  proof (rule plaintext_cases [of rsk pub e])
    assume p: "plaintext_of D rsk pub e = Err InvalidPoint"
      "g1_dh (crypto D) rsk (kem_enc (env_sealed e)) = None \<or> g1_dh (crypto D) rsk pub = None"
    then have "r = Err InvalidPoint" "g' = g" using ok pub by (simp_all add: open_message_def oi keyed_def)
    then show ?thesis using s c p by (auto simp: told split: message_error.split)
  next
    assume p: "plaintext_of D rsk pub e = Err OpenFailed"
      "g1_dh (crypto D) rsk (kem_enc (env_sealed e)) \<noteq> None" "g1_dh (crypto D) rsk pub \<noteq> None"
    then have "r = Err OpenFailed" "g' = g" using ok pub by (simp_all add: open_message_def oi keyed_def)
    then show ?thesis using s c p by (auto simp: told split: message_error.split)
  next
    fix b
    assume p: "plaintext_of D rsk pub e = Ok b"
      "g1_dh (crypto D) rsk (kem_enc (env_sealed e)) \<noteq> None" "g1_dh (crypto D) rsk pub \<noteq> None"
    show ?thesis
    proof (cases "from_bytes (chia_leftover (chia D)) (inner_message_codec (chia D)) b")
      case (Inl x)
      then have "r = Err (Codec x)" "g' = g" using ok pub p by (simp_all add: open_message_def oi keyed_def)
      then show ?thesis using s c p Inl by (auto simp: told split: message_error.split)
    next
      case (Inr inner)
      then have "presented D rsk pub e inner" using p by (simp add: presented_def)
      then show ?thesis by (rule gates_content [OF g fl pub _ ok])
    qed
  qed
qed

lemma gates:
  assumes g: "guard_models g F" and ok: "open_message D rsk e resolve g now = (r, g')"
  shows "explained D rsk resolve F e now g r g'"
proof -
  obtain shape where fl: "from_flags (env_flags e) = Some shape" using from_flags_total by blast
  show ?thesis
  proof (cases "resolve (env_sender e) (env_sender_epoch e)")
    case None
    then have "r = Err UnresolvableSender" "g' = g" using fl ok by (simp_all add: open_message_def open_inner_def)
    then show ?thesis using None by (auto simp: told keyed_def split: message_error.split)
  next
    case s: (Some pub)
    show ?thesis
    proof (cases "keyed D rsk resolve e pub")
      case False
      then have "r = Err InvalidPoint" "g' = g" using ok s
        by (simp_all add: open_message_def keyed_def open_inner_gates [where resolve = resolve and rsk = rsk and now = now, OF fl s])
      then show ?thesis using s False by (auto simp: told keyed_def split: message_error.split)
    qed (rule gates_points [OF g fl _ ok])
  qed
qed

text \<open>A payload over the receiver's cap is sealed all the same; admitted, it is refused for its size.\<close>

lemma oversized_open:
  assumes seal: "seal_with_ephemeral D p esk = Ok e" and to: "addressed D rsk resolve p"
    and size: "MAX_DECOMPRESSED_BYTES < length (sp_payload p)"
  shows "fst (open_message D rsk e resolve g now) \<noteq> Ok m"
    "guard_models g F \<Longrightarrow> check_expiry (sp_timestamp_ms p) (sp_expires_at p) now = Ok () \<Longrightarrow> fresh (sp_timestamp_ms p) now \<Longrightarrow>
     accepts (F (sp_sender p, sp_sender_epoch p)) (unat (sp_counter p)) \<Longrightarrow>
     \<exists>g' F'. open_message D rsk e resolve g now = (Err (DecompressionBomb (length (sp_payload p)) MAX_DECOMPRESSED_BYTES), g') \<and>
       guard_models g' F' \<and> F' (sp_sender p, sp_sender_epoch p)
         = insert (unat (sp_counter p)) (F (sp_sender p, sp_sender_epoch p))"
proof -
  have e: "env_sender e = sp_sender p" "env_sender_epoch e = sp_sender_epoch p"
    using seal_with_ephemeral_fields [OF seal] by (simp_all add: sealed_for_def)
  from open_inner_sealed [OF seal to, of now] obtain c sig where c: "compress_payload (zstd D) (sp_payload p) = Ok c"
    and oi: "open_inner D rsk e resolve now = and_then (check_expiry (sp_timestamp_ms p) (sp_expires_at p) now)
      (\<lambda>_. Ok (sp_shape p, inner_of p c sig))" by blast
  note bomb = compress_over_cap [OF c size]
  show "fst (open_message D rsk e resolve g now) \<noteq> Ok m"
  proof
    assume "fst (open_message D rsk e resolve g now) = Ok m"
    then obtain g' where "open_message D rsk e resolve g now = (Ok m, g')" by (metis prod.collapse)
    then show False by (rule open_message_OkE) (use oi bomb in \<open>auto simp: result_elims\<close>)
  qed
  assume g: "guard_models g F" and t: "check_expiry (sp_timestamp_ms p) (sp_expires_at p) now = Ok ()"
    "fresh (sp_timestamp_ms p) now" "accepts (F (sp_sender p, sp_sender_epoch p)) (unat (sp_counter p))"
  have "open_inner D rsk e resolve now = Ok (sp_shape p, inner_of p c sig)" using oi t(1) by simp
  then show "\<exists>g' F'. open_message D rsk e resolve g now = (Err (DecompressionBomb (length (sp_payload p)) MAX_DECOMPRESSED_BYTES), g') \<and>
       guard_models g' F' \<and> F' (sp_sender p, sp_sender_epoch p)
         = insert (unat (sp_counter p)) (F (sp_sender p, sp_sender_epoch p))"
    by (rule open_message_admission [OF g]) (use t(2,3) e bomb in \<open>auto simp: new_in_time_fresh\<close>)
qed

end

section \<open>Samples\<close>

definition oversized_params :: "u8 seal_params" where
  "oversized_params = sample_params\<lparr>sp_payload := replicate (MAX_DECOMPRESSED_BYTES + 1) 7\<rparr>"

section \<open>Properties\<close>

text \<open>
  C28: every refusal names what failed. An opening returns an error exactly when the error is at
  fault, with every earlier gate passed: the sender does not resolve; a point is outside the
  subgroup or has no Diffie-Hellman value; the seal does not decrypt; the inner message does not
  decode; the signature does not verify; the headers differ; the expiry check fails; the message
  is stale or its counter not acceptable; the payload does not unpack. It succeeds exactly when
  none is. A refusal leaves the guard untouched, except when only the payload failed: then the
  counter of the message is used up.
\<close>
theorem open_message_gates:
  assumes "sealing D" and "guard_models g F" and "open_message D rsk e resolve g now = (r, g')"
  shows "(\<forall>x. r = Err x \<longleftrightarrow> at_fault D rsk resolve F e now x) \<and>
    ((\<exists>m. r = Ok m) \<longleftrightarrow> (\<forall>x. \<not> at_fault D rsk resolve F e now x)) \<and>
    (\<forall>x. r = Err x \<longrightarrow>
      (if \<exists>inner. admissible D rsk resolve F e inner now
       then \<exists>inner F'. admissible D rsk resolve F e inner now \<and> unpacked D inner = Err x \<and> guard_models g' F' \<and>
         F' (env_sender e, env_sender_epoch e) = insert (unat (im_counter inner)) (F (env_sender e, env_sender_epoch e))
       else g' = g))"
proof -
  have ex: "explained D rsk resolve F e now g r g'" by (rule sealing.gates [OF assms])
  have "\<not> is_panic r" using sealing.open_message_invariant(2) [OF assms(1,2), of rsk e resolve now] assms(3) by simp
  then have "(\<exists>m. r = Ok m) \<longleftrightarrow> (\<forall>x. r \<noteq> Err x)" by (cases r) simp_all
  then show ?thesis using ex unfolding explained_def by blast
qed

theorem open_message_gates_witness:
  "\<exists>e. (\<forall>x. \<not> at_fault sum_deps 5 sample_resolver (\<lambda>_. {}) e 2000 x) \<and>
     at_fault sum_deps 5 (\<lambda>_ _. None) (\<lambda>_. {}) e 2000 UnresolvableSender \<and>
     fst (open_message sum_deps 5 e (\<lambda>_ _. None) guard_new 2000) = Err UnresolvableSender"
proof (rule sample_open)
  fix e g'
  assume "open_message sum_deps 5 e sample_resolver guard_new 2000 = (Ok (opened_of sample_params), g')"
  from open_message_gates [OF sum.sealing_axioms guard_models_new this]
  have ok: "\<forall>x. \<not> at_fault sum_deps 5 sample_resolver (\<lambda>_. {}) e 2000 x" by auto
  have no: "at_fault sum_deps 5 (\<lambda>_ _. None) (\<lambda>_. {}) e 2000 UnresolvableSender" by (simp add: at_fault_def)
  with open_message_gates [OF sum.sealing_axioms guard_models_new prod.collapse [symmetric], of 5 e "\<lambda>_ _. None" 2000]
  show ?thesis using ok by blast
qed

text \<open>
  C39: a payload over 64 MiB is sealed all the same. Below 4 GiB, and if the compressor does not
  fail, \<open>seal_message\<close> succeeds, so the sender gets no error; the receiver it is addressed to never
  opens the envelope, at any time and with any guard, and when it arrives in time with an
  acceptable counter it is refused as a decompression bomb and its counter is used up.
\<close>
theorem oversized_payload_unreadable:
  assumes "sealing D" and "addressed D rsk resolve p"
    and "MAX_DECOMPRESSED_BYTES < length (sp_payload p)" and "length (sp_payload p) < 2 ^ 32"
    and "zstd_compress (zstd D) (sp_payload p) ZSTD_LEVEL = Inr b"
    and "guard_models g F" and "check_expiry (sp_timestamp_ms p) (sp_expires_at p) now = Ok ()"
    and "fresh (sp_timestamp_ms p) now" and "accepts (F (sp_sender p, sp_sender_epoch p)) (unat (sp_counter p))"
  shows "\<exists>e. seal_message D (Inr ikm) p = Ok e \<and>
    (\<forall>g now m. fst (open_message D rsk e resolve g now) \<noteq> Ok m) \<and>
    (\<exists>g' F'. open_message D rsk e resolve g now = (Err (DecompressionBomb (length (sp_payload p)) MAX_DECOMPRESSED_BYTES), g') \<and>
      guard_models g' F' \<and>
      F' (sp_sender p, sp_sender_epoch p) = insert (unat (sp_counter p)) (F (sp_sender p, sp_sender_epoch p)))"
proof -
  have "\<exists>c. compress_payload (zstd D) (sp_payload p) = Ok c"
    using assms(4,5) by (simp add: compress_payload_def u32_try_from_def)
  moreover have "sp_recipient_pub p = public_key_bytes (crypto D) rsk" using assms(2) by (simp add: addressed_def)
  ultimately obtain e where e: "seal_with_ephemeral D p (sk_from_seed (crypto D) ikm) = Ok e"
    using sealing.seal_total [OF assms(1)] by blast
  then show ?thesis
    using sealing.oversized_open [OF assms(1) e assms(2,3)] assms(6-9) by (simp add: seal_message_ephemeral)
qed

theorem oversized_payload_unreadable_witness:
  "\<exists>e g'. seal_message sum_deps (Inr (array_of_byte 11)) oversized_params = Ok e \<and>
     open_message sum_deps 5 e sample_resolver guard_new 2000
       = (Err (DecompressionBomb (MAX_DECOMPRESSED_BYTES + 1) MAX_DECOMPRESSED_BYTES), g')"
proof -
  have to: "addressed sum_deps 5 sample_resolver oversized_params"
    using sample_addressed by (simp add: addressed_def oversized_params_def)
  have len: "length (sp_payload oversized_params) = MAX_DECOMPRESSED_BYTES + 1"
    by (simp add: oversized_params_def del: replicate.simps)
  have "\<exists>b. zstd_compress (zstd sum_deps) (sp_payload oversized_params) ZSTD_LEVEL = Inr b"
    by (simp add: sum_deps_def rle_zstd_def rle_compress_def)
  then obtain b where b: "zstd_compress (zstd sum_deps) (sp_payload oversized_params) ZSTD_LEVEL = Inr b" by blast
  have "sp_timestamp_ms oversized_params = 1000" "sp_expires_at oversized_params = 5000"
    by (simp_all add: oversized_params_def)
  with oversized_payload_unreadable [OF sum.sealing_axioms to _ _ b guard_models_new, of 2000 "array_of_byte 11"] len
  show ?thesis by (auto simp: accepts_def MAX_DECOMPRESSED_BYTES_def)
qed

end
