(* ===== verification/Msg_Registry.thy ===== *)
theory Msg_Registry
  imports Msg_Envelope Hash_Map
begin

text \<open>
  The message-type registry (\<open>src/registry.rs\<close>): the id bands, the table from type ids to
  decode-and-handle closures, and the dispatch with its rule for unknown types. A handler's
  effects are those on a state \<open>'w\<close> of the application, which the table threads through.
\<close>

section \<open>Bands\<close>

definition BAND_CORE :: u32 where [const_defs]: "BAND_CORE = 0x00000000"

definition BAND_PEER_RPC :: u32 where [const_defs]: "BAND_PEER_RPC = 0x00000100"

definition BAND_DIG_CHAT :: u32 where [const_defs]: "BAND_DIG_CHAT = 0x00000200"

definition BAND_DIG_EMAIL :: u32 where [const_defs]: "BAND_DIG_EMAIL = 0x00000300"

definition BAND_DIG_VIDEO :: u32 where [const_defs]: "BAND_DIG_VIDEO = 0x00000400"

definition BAND_PRESENCE :: u32 where [const_defs]: "BAND_PRESENCE = 0x00000500"

definition BAND_IPC :: u32 where [const_defs]: "BAND_IPC = 0x00000600"

definition BAND_SOCIAL_GRAPH :: u32 where [const_defs]: "BAND_SOCIAL_GRAPH = 0x00000700"

definition BAND_RELAY_CONTROL :: u32 where [const_defs]: "BAND_RELAY_CONTROL = 0x00000800"

definition BAND_RELAY_MESH :: u32 where [const_defs]: "BAND_RELAY_MESH = 0x00000900"

definition BAND_EXPERIMENTAL :: u32 where [const_defs]: "BAND_EXPERIMENTAL = 0x10000000"

datatype message_band =
    Core | PeerRpc | DigChat | DigEmail | DigVideo | Presence | Ipc | SocialGraph | RelayControl
  | RelayMesh | Experimental | Reserved

definition CORE_HANDSHAKE :: message_type where [const_defs]: "CORE_HANDSHAKE = BAND_CORE"

definition CORE_ACK :: message_type where [const_defs]: "CORE_ACK = BAND_CORE + 1"

definition CORE_ERROR :: message_type where [const_defs]: "CORE_ERROR = BAND_CORE + 2"

definition CORE_KEEPALIVE :: message_type where [const_defs]: "CORE_KEEPALIVE = BAND_CORE + 3"

definition band :: "message_type \<Rightarrow> message_band" where
  "band t =
     (if 0x00000000 \<le> t \<and> t \<le> 0x000000FF then Core
      else if 0x00000100 \<le> t \<and> t \<le> 0x000001FF then PeerRpc
      else if 0x00000200 \<le> t \<and> t \<le> 0x000002FF then DigChat
      else if 0x00000300 \<le> t \<and> t \<le> 0x000003FF then DigEmail
      else if 0x00000400 \<le> t \<and> t \<le> 0x000004FF then DigVideo
      else if 0x00000500 \<le> t \<and> t \<le> 0x000005FF then Presence
      else if 0x00000600 \<le> t \<and> t \<le> 0x000006FF then Ipc
      else if 0x00000700 \<le> t \<and> t \<le> 0x000007FF then SocialGraph
      else if 0x00000800 \<le> t \<and> t \<le> 0x000008FF then RelayControl
      else if 0x00000900 \<le> t \<and> t \<le> 0x000009FF then RelayMesh
      else if 0x10000000 \<le> t \<and> t \<le> 0xFFFFFFFF then Experimental
      else Reserved)"

section \<open>The table\<close>

record 'p message_kind =
  TYPE_ID :: message_type
  payload_codec :: "'p codec" \<comment> \<open>\<open>type Payload: Streamable\<close>\<close>

datatype dispatch_outcome = Handled | DroppedUnknown

type_synonym 'w handler = "bytes \<Rightarrow> 'w \<Rightarrow> unit res \<times> 'w"

type_synonym 'w message_registry = "(message_type, 'w handler) hash_map"

definition registry_new :: "'w message_registry" where
  "registry_new = hm_new"

text \<open>The closure that \<open>register\<close> stores: decode, then handle.\<close>

definition decode_and_handle ::
    "string \<Rightarrow> 'p message_kind \<Rightarrow> ('p \<Rightarrow> 'w \<Rightarrow> unit res \<times> 'w) \<Rightarrow> 'w handler" where
  "decode_and_handle leftover K h bs w =
     (case map_err Codec (from_bytes leftover (payload_codec K) bs) of
        Ok payload \<Rightarrow> h payload w
      | Err e \<Rightarrow> (Err e, w)
      | Panic m \<Rightarrow> (Panic m, w))"

definition register ::
    "string \<Rightarrow> 'p message_kind \<Rightarrow> ('p \<Rightarrow> 'w \<Rightarrow> unit res \<times> 'w) \<Rightarrow> 'w message_registry
      \<Rightarrow> unit res \<times> 'w message_registry" where
  "register leftover K h r =
     (let type_id = TYPE_ID K
      in if hm_contains_key r type_id then (Err (DuplicateType type_id), r)
         else (Ok (), hm_insert type_id (decode_and_handle leftover K h) r))"

definition contains :: "message_type \<Rightarrow> 'w message_registry \<Rightarrow> bool" where
  "contains t r = hm_contains_key r t"

definition registry_len :: "'w message_registry \<Rightarrow> nat" where
  "registry_len r = hm_len r"

definition is_empty :: "'w message_registry \<Rightarrow> bool" where
  "is_empty r = (hm_len r = 0)"

definition dispatch ::
    "message_type \<Rightarrow> interaction_shape \<Rightarrow> bytes \<Rightarrow> 'w message_registry \<Rightarrow> 'w \<Rightarrow> dispatch_outcome res \<times> 'w" where
  "dispatch t shape payload r w =
     (case hm_get r t of
        Some handler \<Rightarrow>
          (case handler payload w of
             (Ok _, w') \<Rightarrow> (Ok Handled, w')
           | (Err e, w') \<Rightarrow> (Err e, w')
           | (Panic m, w') \<Rightarrow> (Panic m, w'))
      | None \<Rightarrow>
          (case shape of
             Request \<Rightarrow> (Err (UnsupportedType t), w)
           | StreamFrame \<Rightarrow> (Err (UnsupportedType t), w)
           | OneShot \<Rightarrow> (Ok DroppedUnknown, w)
           | Response \<Rightarrow> (Ok DroppedUnknown, w)))"

section \<open>Additive tables\<close>

text \<open>
  A table to which entries can only be added: adding under a new key binds it, adding under a
  bound key is refused and changes nothing. After any sequence of additions the first binding of
  each key stands.
\<close>

locale additive_table =
  fixes add :: "'a \<Rightarrow> 'm \<Rightarrow> bool \<times> 'm"
    and look :: "'m \<Rightarrow> 'k \<Rightarrow> 'v option"
    and key :: "'a \<Rightarrow> 'k"
    and val :: "'a \<Rightarrow> 'v"
  assumes add_new: "look m (key a) = None \<Longrightarrow>
      fst (add a m) \<and> look (snd (add a m)) = (look m)(key a \<mapsto> val a)"
    and add_bound: "look m (key a) \<noteq> None \<Longrightarrow> add a m = (False, m)"
begin

lemma first_binding_stands:
  "look (fold (\<lambda>a m. snd (add a m)) xs m) k =
     (case look m k of Some v \<Rightarrow> Some v | None \<Rightarrow> map_option val (find (\<lambda>a. key a = k) xs))"
proof (induction xs arbitrary: m)
  case Nil
  then show ?case by (simp split: option.split)
next
  case (Cons a xs)
  then show ?case
    using add_new [of m a] add_bound [of m a] by (cases "look m (key a)") (auto split: option.split)
qed

lemma bound_stays: "look m k = Some v \<Longrightarrow> look (snd (add a m)) k = Some v"
  using add_new [of m a] add_bound [of m a] by (cases "look m (key a)") auto

end

text \<open>The registry is such a table, for every payload type.\<close>

definition register_entry ::
    "string \<Rightarrow> 'p message_kind \<times> ('p \<Rightarrow> 'w \<Rightarrow> unit res \<times> 'w) \<Rightarrow> 'w message_registry \<Rightarrow> bool \<times> 'w message_registry" where
  "register_entry l a r = apfst (\<lambda>x. x = Ok ()) (register l (fst a) (snd a) r)"

interpretation registry: additive_table "register_entry l" hm_get "\<lambda>a. TYPE_ID (fst a)"
    "\<lambda>a. decode_and_handle l (fst a) (snd a)" for l
  by unfold_locales
    (auto simp: register_entry_def register_def hm_contains_key_def fun_eq_iff)

text \<open>A sequence of registrations.\<close>

definition register_all ::
    "string \<Rightarrow> ('p message_kind \<times> ('p \<Rightarrow> 'w \<Rightarrow> unit res \<times> 'w)) list \<Rightarrow> 'w message_registry \<Rightarrow> 'w message_registry" where
  "register_all l xs r = fold (\<lambda>(K, h) r. snd (register l K h r)) xs r"

lemma register_all_fold: "register_all l xs r = fold (\<lambda>a r. snd (register_entry l a r)) xs r"
  by (simp add: register_all_def register_entry_def case_prod_unfold)

lemma register_all_get:
  "hm_get (register_all l xs registry_new) t =
     map_option (\<lambda>a. decode_and_handle l (fst a) (snd a)) (find (\<lambda>a. TYPE_ID (fst a) = t) xs)"
  using registry.first_binding_stands [of l xs registry_new t] by (simp add: register_all_fold registry_new_def)

lemma register_wf: "hm_wf r \<Longrightarrow> hm_wf (snd (register l K h r))"
  by (simp add: register_def Let_def)

lemma register_all_wf: "hm_wf r \<Longrightarrow> hm_wf (register_all l xs r)"
  by (induction xs arbitrary: r) (auto simp: register_all_def register_wf)

lemma register_all_dom: "dom (hm_get (register_all l xs registry_new)) = (TYPE_ID \<circ> fst) ` set xs"
proof -
  have "t \<in> dom (hm_get (register_all l xs registry_new)) \<longleftrightarrow> (\<exists>a \<in> set xs. TYPE_ID (fst a) = t)" for t
    by (simp add: domIff register_all_get find_None_iff del: split_paired_All split_paired_Ex) force
  then show ?thesis by (intro set_eqI) (simp only: image_iff comp_apply, metis)
qed

section \<open>The bands as numbers\<close>

lemma band_unat:
  "band t =
     (if unat t < 256 then Core else if unat t < 512 then PeerRpc else if unat t < 768 then DigChat
      else if unat t < 1024 then DigEmail else if unat t < 1280 then DigVideo
      else if unat t < 1536 then Presence else if unat t < 1792 then Ipc
      else if unat t < 2048 then SocialGraph else if unat t < 2304 then RelayControl
      else if unat t < 2560 then RelayMesh else if 2 ^ 28 \<le> unat t then Experimental else Reserved)"
proof -
  have "unat t \<le> 0xFFFFFFFF" using unsigned_less [of t, where 'a = nat] by simp
  then show ?thesis by (simp add: band_def word_le_nat_alt)
qed

lemma div_256: "(n :: nat) div 256 = k \<longleftrightarrow> 256 * k \<le> n \<and> n < 256 * k + 256"
  by arith

text \<open>The dispatch of a registry that a sequence of registrations built.\<close>

lemma dispatch_register_all:
  "dispatch t shape b (register_all l xs registry_new) w =
     (case find (\<lambda>(K, h). TYPE_ID K = t) xs of
        Some (K, h) \<Rightarrow>
          (case from_bytes l (payload_codec K) b of
             Inl x \<Rightarrow> (Err (Codec x), w)
           | Inr p \<Rightarrow> (case h p w of (r, w') \<Rightarrow> (and_then r (\<lambda>_. Ok Handled), w')))
      | None \<Rightarrow>
          if shape = Request \<or> shape = StreamFrame then (Err (UnsupportedType t), w)
          else (Ok DroppedUnknown, w))"
proof (cases "find (\<lambda>a. TYPE_ID (fst a) = t) xs")
  case None
  then show ?thesis
    using register_all_get [of l xs t] by (cases shape) (simp_all add: dispatch_def case_prod_unfold)
next
  case (Some a)
  obtain K h where a: "a = (K, h)" by (cases a)
  have "hm_get (register_all l xs registry_new) t = Some (decode_and_handle l K h)"
    using register_all_get [of l xs t] Some a by simp
  then show ?thesis
    using Some a
    by (cases "from_bytes l (payload_codec K) b")
      (auto simp: dispatch_def decode_and_handle_def case_prod_unfold split: prod.split result.split)
qed

section \<open>Properties\<close>

text \<open>
  Every id has its band. The ten allocated bands are the ten blocks of 256 ids from 0, in the
  order of the specification; ids from \<open>0x10000000\<close> on are experimental and the rest is reserved.
\<close>
theorem band_classification:
  "(unat t < 2560 \<longrightarrow> band t = [Core, PeerRpc, DigChat, DigEmail, DigVideo, Presence, Ipc, SocialGraph,
      RelayControl, RelayMesh] ! (unat t div 256)) \<and>
   (2560 \<le> unat t \<and> unat t < 2 ^ 28 \<longrightarrow> band t = Reserved) \<and>
   (2 ^ 28 \<le> unat t \<longrightarrow> band t = Experimental)"
proof (intro conjI impI)
  define k where "k = unat t div 256"
  assume "unat t < 2560"
  then have "k < 10" by (simp add: k_def less_mult_imp_div_less)
  then have "k \<in> {0, 1, 2, 3, 4, 5, 6, 7, 8, 9}" by (simp only: insert_iff empty_iff) arith
  moreover have "256 * k \<le> unat t" "unat t < 256 * k + 256" using div_256 [of "unat t" k] k_def by simp_all
  ultimately have "band t = [Core, PeerRpc, DigChat, DigEmail, DigVideo, Presence, Ipc, SocialGraph,
      RelayControl, RelayMesh] ! k"
    by (elim insertE emptyE) (simp_all add: band_unat)
  then show "band t = [Core, PeerRpc, DigChat, DigEmail, DigVideo, Presence, Ipc, SocialGraph,
      RelayControl, RelayMesh] ! (unat t div 256)" by (simp only: k_def)
next
  assume "2560 \<le> unat t \<and> unat t < 2 ^ 28"
  then show "band t = Reserved" by (simp add: band_unat)
next
  assume "2 ^ 28 \<le> unat t"
  then show "band t = Experimental" by (simp add: band_unat)
qed

theorem band_classification_witness:
  "band CORE_KEEPALIVE = Core \<and> band BAND_RELAY_MESH = RelayMesh \<and> band 0xA00 = Reserved \<and>
   band BAND_EXPERIMENTAL = Experimental"
  using band_classification [of CORE_KEEPALIVE] band_classification [of BAND_RELAY_MESH]
    band_classification [of "0xA00"] band_classification [of BAND_EXPERIMENTAL]
  by (simp add: const_defs)

text \<open>
  C34: registration is additive. After any sequence of registrations, an id is served by the first
  kind registered under it, refused registrations change nothing, and the number of entries is
  the number of distinct ids.
\<close>
theorem registration_additive:
  "hm_get (register_all l xs registry_new) t =
     map_option (\<lambda>(K, h). decode_and_handle l K h) (find (\<lambda>(K, h). TYPE_ID K = t) xs) \<and>
   registry_len (register_all l xs registry_new) = card ((TYPE_ID \<circ> fst) ` set xs) \<and>
   register l K h (register_all l xs registry_new) =
     (if TYPE_ID K \<in> (TYPE_ID \<circ> fst) ` set xs
      then (Err (DuplicateType (TYPE_ID K)), register_all l xs registry_new)
      else (Ok (), hm_insert (TYPE_ID K) (decode_and_handle l K h) (register_all l xs registry_new)))"
proof (intro conjI)
  have wf: "hm_wf (register_all l xs registry_new)" by (rule register_all_wf) (simp add: registry_new_def)
  show "hm_get (register_all l xs registry_new) t =
     map_option (\<lambda>(K, h). decode_and_handle l K h) (find (\<lambda>(K, h). TYPE_ID K = t) xs)"
    using register_all_get [of l xs t] by (simp add: case_prod_unfold)
  show "registry_len (register_all l xs registry_new) = card ((TYPE_ID \<circ> fst) ` set xs)"
    using hm.len_card [OF wf] register_all_dom [of l xs] by (simp add: registry_len_def)
  have "hm_contains_key (register_all l xs registry_new) (TYPE_ID K) \<longleftrightarrow> TYPE_ID K \<in> (TYPE_ID \<circ> fst) ` set xs"
    unfolding hm_contains_key_def using register_all_dom [of l xs] by (metis domIff)
  then show "register l K h (register_all l xs registry_new) =
     (if TYPE_ID K \<in> (TYPE_ID \<circ> fst) ` set xs
      then (Err (DuplicateType (TYPE_ID K)), register_all l xs registry_new)
      else (Ok (), hm_insert (TYPE_ID K) (decode_and_handle l K h) (register_all l xs registry_new)))"
    by (simp add: register_def)
qed

text \<open>
  C35: dispatch, on every branch. A registered type runs its handler on the decoded payload, or
  reports the decoding error without running it; an unregistered type is refused for a request
  or a stream frame, dropped otherwise, and the application state is untouched.
\<close>
theorem dispatch_behaviour:
  "dispatch t shape b (register_all l xs registry_new) w =
     (case find (\<lambda>(K, h). TYPE_ID K = t) xs of
        Some (K, h) \<Rightarrow>
          (case from_bytes l (payload_codec K) b of
             Inl x \<Rightarrow> (Err (Codec x), w)
           | Inr p \<Rightarrow> (case h p w of (r, w') \<Rightarrow> (and_then r (\<lambda>_. Ok Handled), w')))
      | None \<Rightarrow>
          if shape = Request \<or> shape = StreamFrame then (Err (UnsupportedType t), w)
          else (Ok DroppedUnknown, w))"
  by (rule dispatch_register_all)

end
