(* ===== verification/Machines.thy ===== *)
theory Machines
  imports Msg_Prelude
begin

text \<open>
  Deterministic machines: an operation takes a state to an output and a state. The session and
  the endpoint of \<open>src/stream.rs\<close> are such machines; the interfaces here carry their
  invariants, their progress measures and their flow control from single operations to runs.
\<close>

fun run_ops :: "('op \<Rightarrow> 's \<Rightarrow> 'o \<times> 's) \<Rightarrow> 'op list \<Rightarrow> 's \<Rightarrow> 'o list \<times> 's" where
  "run_ops step [] s = ([], s)"
| "run_ops step (x # xs) s =
     (case step x s of (o1, s1) \<Rightarrow> case run_ops step xs s1 of (os, s2) \<Rightarrow> (o1 # os, s2))"

lemma run_ops_Cons:
  "fst (run_ops step (x # xs) s) = fst (step x s) # fst (run_ops step xs (snd (step x s)))"
  "snd (run_ops step (x # xs) s) = snd (run_ops step xs (snd (step x s)))"
  by (simp_all add: case_prod_unfold)

lemma length_run_ops [simp]: "length (fst (run_ops step ops s)) = length ops"
  by (induction ops arbitrary: s) (simp_all add: run_ops_Cons del: run_ops.simps(2))

lemma run_ops_append:
  "run_ops step (xs @ ys) s =
     (case run_ops step xs s of (os1, s1) \<Rightarrow> case run_ops step ys s1 of (os2, s2) \<Rightarrow> (os1 @ os2, s2))"
  by (induction xs arbitrary: s) (auto split: prod.split)

text \<open>An invariant of every operation is an invariant of every run.\<close>

locale machine_invariant =
  fixes step :: "'op \<Rightarrow> 's \<Rightarrow> 'o \<times> 's"
    and inv :: "'s \<Rightarrow> bool"
  assumes preserved: "inv s \<Longrightarrow> inv (snd (step x s))"
begin

lemma run_invariant: "inv s \<Longrightarrow> inv (snd (run_ops step xs s))"
proof (induction xs arbitrary: s)
  case (Cons x xs)
  show ?case unfolding run_ops_Cons by (intro Cons.IH preserved Cons.prems)
qed simp

end

text \<open>A measure that no operation lowers is monotone over runs.\<close>

locale machine_monotone =
  fixes step :: "'op \<Rightarrow> 's \<Rightarrow> 'o \<times> 's"
    and rank :: "'s \<Rightarrow> 'r::preorder"
  assumes step_mono: "rank s \<le> rank (snd (step x s))"

sublocale machine_monotone \<subseteq> above: machine_invariant step "\<lambda>s. r \<le> rank s" for r
  by unfold_locales (rule order_trans [OF _ step_mono])

context machine_monotone
begin

lemma run_mono: "rank s \<le> rank (snd (run_ops step xs s))"
  by (rule above.run_invariant) simp

end

section \<open>Numbered and credited outputs\<close>

text \<open>The \<open>n\<close> sequence numbers that follow \<open>a\<close>, wrapping as \<open>u64\<close> does.\<close>

definition seqs_from :: "u64 \<Rightarrow> nat \<Rightarrow> u64 list" where
  "seqs_from a n = map (\<lambda>i. a + of_nat i) [0..<n]"

lemma seqs_from_0 [simp]: "seqs_from a 0 = []"
  by (simp add: seqs_from_def)

lemma seqs_from_Suc: "seqs_from a (Suc n) = a # seqs_from (a + 1) n"
  by (simp add: seqs_from_def upt_conv_Cons map_Suc_upt [symmetric] add.assoc del: upt_Suc)

lemma seqs_from_snoc: "seqs_from a (Suc n) = seqs_from a n @ [a + of_nat n]"
  by (simp add: seqs_from_def)

text \<open>The trace of a run pairs every operation with its output.\<close>

definition trace :: "('op \<Rightarrow> 's \<Rightarrow> 'o \<times> 's) \<Rightarrow> 'op list \<Rightarrow> 's \<Rightarrow> ('op \<times> 'o) list" where
  "trace step xs s = zip xs (fst (run_ops step xs s))"

lemma trace_Nil [simp]: "trace step [] s = []"
  by (simp add: trace_def)

lemma trace_Cons [simp]:
  "trace step (x # xs) s = (x, fst (step x s)) # trace step xs (snd (step x s))"
  by (simp add: trace_def run_ops_Cons del: run_ops.simps(2))

text \<open>
  A machine that emits numbered items, one at a time, each with the next number and against one
  unit of credit: over a run the numbers are consecutive and there are no more of them than
  credits.
\<close>

locale credited_sequence =
  fixes step :: "'op \<Rightarrow> 's \<Rightarrow> 'o \<times> 's"
    and seq :: "'s \<Rightarrow> u64"
    and credit :: "'s \<Rightarrow> u64"
    and emits :: "'op \<times> 'o \<Rightarrow> u64 list"
    and grants :: "'op \<times> 'o \<Rightarrow> nat"
  assumes step_emits: "step x s = (y, s') \<Longrightarrow>
      (emits (x, y) = [] \<and> seq s' = seq s \<and> unat (credit s') \<le> unat (credit s) + grants (x, y)) \<or>
      (emits (x, y) = [seq s] \<and> seq s' = seq s + 1 \<and> Suc (unat (credit s')) = unat (credit s))"
begin

lemma run_emits:
  "\<exists>n. concat (map emits (trace step xs s)) = seqs_from (seq s) n \<and>
     n + unat (credit (snd (run_ops step xs s)))
       \<le> unat (credit s) + sum_list (map grants (trace step xs s))"
proof (induction xs arbitrary: s)
  case Nil
  show ?case by (rule exI [of _ 0]) simp
next
  case (Cons x xs)
  obtain y s' where step: "step x s = (y, s')" by fastforce
  from Cons.IH [of s'] obtain n where n:
    "concat (map emits (trace step xs s')) = seqs_from (seq s') n"
    "n + unat (credit (snd (run_ops step xs s')))
       \<le> unat (credit s') + sum_list (map grants (trace step xs s'))" by blast
  from step_emits [OF step] show ?case
  proof (elim disjE conjE)
    assume "emits (x, y) = []" "seq s' = seq s" "unat (credit s') \<le> unat (credit s) + grants (x, y)"
    then show ?thesis
      using n step by (intro exI [of _ n]) (simp add: run_ops_Cons del: run_ops.simps(2))
  next
    assume "emits (x, y) = [seq s]" "seq s' = seq s + 1" "Suc (unat (credit s')) = unat (credit s)"
    then show ?thesis
      using n step by (intro exI [of _ "Suc n"]) (simp add: run_ops_Cons seqs_from_Suc del: run_ops.simps(2))
  qed
qed

end

end
