(* ===== verification/Stream_Session.thy ===== *)
theory Stream_Session
  imports Msg_Envelope Machines
begin

text \<open>
  The per-stream state machine (\<open>StreamSession\<close> of \<open>src/stream.rs\<close>): handshake, per-direction
  sequence numbers, credit, half-close and reset. An operation takes the session and returns
  its result with the session after it; the sequence numbers wrap as the release build's \<open>u64\<close>
  arithmetic does.
\<close>

section \<open>States\<close>

datatype role = Initiator | Responder

datatype handshake = HsOpening | HsEstablished

datatype stream_state = StOpening | StOpen | StHalfClosedLocal | StHalfClosedRemote | StClosed

datatype accepted_frame = AccEstablished | AccData | AccCredit u64 | AccRemoteClosed | AccCloseAcked | AccReset

record stream_session =
  ss_role :: role
  ss_handshake :: handshake
  ss_send_seq :: u64
  ss_recv_seq :: u64
  ss_send_credit :: u64
  ss_recv_window_remaining :: u64
  ss_local_closed :: bool
  ss_remote_closed :: bool
  ss_reset :: bool

definition initiator :: "u32 \<Rightarrow> stream_session" where
  "initiator recv_window = \<lparr>
     ss_role = Initiator,
     ss_handshake = HsOpening,
     ss_send_seq = 0,
     ss_recv_seq = 0,
     ss_send_credit = 0,
     ss_recv_window_remaining = u64_from recv_window,
     ss_local_closed = False,
     ss_remote_closed = False,
     ss_reset = False\<rparr>"

definition responder :: "u32 \<Rightarrow> stream_session" where
  "responder granted_credit = \<lparr>
     ss_role = Responder,
     ss_handshake = HsOpening,
     ss_send_seq = 0,
     ss_recv_seq = 0,
     ss_send_credit = u64_from granted_credit,
     ss_recv_window_remaining = 0,
     ss_local_closed = False,
     ss_remote_closed = False,
     ss_reset = False\<rparr>"

definition session_state :: "stream_session \<Rightarrow> stream_state" where
  "session_state s =
     (if ss_reset s \<or> (ss_local_closed s \<and> ss_remote_closed s) then StClosed
      else if ss_handshake s = HsOpening then StOpening
      else case (ss_local_closed s, ss_remote_closed s) of
             (True, False) \<Rightarrow> StHalfClosedLocal
           | (False, True) \<Rightarrow> StHalfClosedRemote
           | _ \<Rightarrow> StOpen)"

definition is_closed :: "stream_session \<Rightarrow> bool" where
  "is_closed s = (session_state s = StClosed)"

definition send_credit :: "stream_session \<Rightarrow> u64" where
  "send_credit s = ss_send_credit s"

section \<open>Outbound frames\<close>

definition header :: "stream_frame \<Rightarrow> u64 \<Rightarrow> u32 \<Rightarrow> stream_header" where
  "header frame seq window = \<lparr>hdr_frame = frame_as_u8 frame, hdr_seq = seq, hdr_window = window\<rparr>"

definition build_open_ack :: "u32 \<Rightarrow> stream_session \<Rightarrow> stream_header res \<times> stream_session" where
  "build_open_ack recv_window s =
     (if ss_role s \<noteq> Responder \<or> ss_handshake s \<noteq> HsOpening
      then (Err (StreamProtocol ''OPEN_ACK only from a responder mid-handshake''), s)
      else (Ok (header OpenAck 0 recv_window),
            s\<lparr>ss_handshake := HsEstablished, ss_recv_window_remaining := u64_from recv_window\<rparr>))"

definition build_data :: "stream_session \<Rightarrow> stream_header res \<times> stream_session" where
  "build_data s =
     (if ss_handshake s \<noteq> HsEstablished
      then (Err (StreamProtocol ''DATA before the stream is established''), s)
      else if ss_local_closed s then (Err (StreamProtocol ''DATA after our own CLOSE''), s)
      else if ss_send_credit s = 0
      then (Err (StreamProtocol ''DATA exceeds the granted credit window''), s)
      else
        let s1 = s\<lparr>ss_send_credit := ss_send_credit s - 1\<rparr>;
            seq = ss_send_seq s1
        in (Ok (header Data seq 0), s1\<lparr>ss_send_seq := ss_send_seq s1 + 1\<rparr>))"

definition build_credit :: "u32 \<Rightarrow> stream_session \<Rightarrow> stream_header res \<times> stream_session" where
  "build_credit n s =
     (if ss_handshake s \<noteq> HsEstablished
      then (Err (StreamProtocol ''CREDIT before the stream is established''), s)
      else (Ok (header Credit 0 n),
            s\<lparr>ss_recv_window_remaining := saturating_add (ss_recv_window_remaining s) (u64_from n)\<rparr>))"

definition build_close :: "stream_session \<Rightarrow> stream_header res \<times> stream_session" where
  "build_close s =
     (if ss_local_closed s then (Err (StreamProtocol ''CLOSE after our own CLOSE''), s)
      else (Ok (header Close 0 0), s\<lparr>ss_local_closed := True\<rparr>))"

definition build_reset :: "stream_session \<Rightarrow> stream_header \<times> stream_session" where
  "build_reset s = (header Reset 0 0, s\<lparr>ss_reset := True\<rparr>)"

section \<open>Inbound frames\<close>

definition on_recv ::
    "stream_frame \<Rightarrow> stream_header \<Rightarrow> stream_session \<Rightarrow> accepted_frame res \<times> stream_session" where
  "on_recv frame hdr s =
     (if ss_reset s then (Err (StreamProtocol ''frame after RESET''), s)
      else case frame of
        Open \<Rightarrow> (Err (StreamProtocol ''duplicate OPEN for a live stream''), s)
      | OpenAck \<Rightarrow>
          if ss_role s \<noteq> Initiator \<or> ss_handshake s \<noteq> HsOpening
          then (Err (StreamProtocol ''unexpected OPEN_ACK''), s)
          else (Ok AccEstablished,
                s\<lparr>ss_handshake := HsEstablished, ss_send_credit := u64_from (hdr_window hdr)\<rparr>)
      | Data \<Rightarrow>
          if ss_handshake s \<noteq> HsEstablished
          then (Err (StreamProtocol ''DATA before the stream is established''), s)
          else if ss_remote_closed s
          then (Err (StreamProtocol ''DATA after the peer's CLOSE''), s)
          else if hdr_seq hdr \<noteq> ss_recv_seq s
          then (Err (StreamProtocol ''out-of-order / gap / replayed DATA seq''), s)
          else if ss_recv_window_remaining s = 0
          then (Err (StreamProtocol ''DATA exceeds the credit window we granted''), s)
          else (Ok AccData,
                s\<lparr>ss_recv_window_remaining := ss_recv_window_remaining s - 1,
                  ss_recv_seq := ss_recv_seq s + 1\<rparr>)
      | Credit \<Rightarrow>
          if ss_handshake s \<noteq> HsEstablished
          then (Err (StreamProtocol ''CREDIT before the stream is established''), s)
          else (Ok (AccCredit (u64_from (hdr_window hdr))),
                s\<lparr>ss_send_credit := saturating_add (ss_send_credit s) (u64_from (hdr_window hdr))\<rparr>)
      | Close \<Rightarrow>
          if ss_handshake s \<noteq> HsEstablished
          then (Err (StreamProtocol ''CLOSE before the stream is established''), s)
          else if ss_remote_closed s
          then (Err (StreamProtocol ''duplicate CLOSE from the peer''), s)
          else (Ok AccRemoteClosed, s\<lparr>ss_remote_closed := True\<rparr>)
      | CloseAck \<Rightarrow>
          if \<not> ss_local_closed s
          then (Err (StreamProtocol ''CLOSE_ACK without our CLOSE''), s)
          else (Ok AccCloseAcked, s)
      | Reset \<Rightarrow> (Ok AccReset, s\<lparr>ss_reset := True\<rparr>))"

lemmas session_ops = build_open_ack_def build_data_def build_credit_def build_close_def
  build_reset_def on_recv_def

lemmas session_fresh = initiator_def responder_def

section \<open>The session as a machine\<close>

datatype session_op =
    SendOpenAck u32 | SendData | SendCredit u32 | SendClose | SendReset
  | Recv stream_frame stream_header

datatype session_out = Sent stream_header | Got accepted_frame | Refused message_error | Crashed string

fun sent :: "stream_header res \<Rightarrow> session_out" where
  "sent (Ok h) = Sent h"
| "sent (Err e) = Refused e"
| "sent (Panic m) = Crashed m"

fun got :: "accepted_frame res \<Rightarrow> session_out" where
  "got (Ok a) = Got a"
| "got (Err e) = Refused e"
| "got (Panic m) = Crashed m"

fun session_step :: "session_op \<Rightarrow> stream_session \<Rightarrow> session_out \<times> stream_session" where
  "session_step (SendOpenAck w) s = apfst sent (build_open_ack w s)"
| "session_step SendData s = apfst sent (build_data s)"
| "session_step (SendCredit n) s = apfst sent (build_credit n s)"
| "session_step SendClose s = apfst sent (build_close s)"
| "session_step SendReset s = apfst Sent (build_reset s)"
| "session_step (Recv f h) s = apfst got (on_recv f h s)"

text \<open>A refused operation leaves the session as it was.\<close>

lemma refused_unchanged: "session_step x s = (Refused e, s') \<Longrightarrow> s' = s"
  by (cases x) (auto simp: session_ops Let_def split: if_splits stream_frame.splits)

lemma session_never_crashes: "session_step x s \<noteq> (Crashed m, s')"
  by (cases x) (auto simp: session_ops Let_def split: if_splits stream_frame.splits)

section \<open>Lifecycle\<close>

text \<open>Handshake, half-closes and reset only move forward.\<close>

fun state_rank :: "stream_state \<Rightarrow> nat" where
  "state_rank StOpening = 0"
| "state_rank StOpen = 1"
| "state_rank StHalfClosedLocal = 2"
| "state_rank StHalfClosedRemote = 2"
| "state_rank StClosed = 3"

interpretation lifecycle: machine_monotone session_step "\<lambda>s. state_rank (session_state s)"
proof
  fix s x
  show "state_rank (session_state s) \<le> state_rank (session_state (snd (session_step x s)))"
    by (cases x) (auto simp: session_ops session_state_def Let_def split: stream_frame.split bool.split)
qed

interpretation reset_latch: machine_invariant session_step ss_reset
proof
  fix s :: stream_session and x
  assume "ss_reset s"
  then show "ss_reset (snd (session_step x s))" by (cases x) (auto simp: session_ops Let_def)
qed

section \<open>Sequence numbers and credit over a run\<close>

fun credit_granted :: "session_op \<times> session_out \<Rightarrow> nat" where
  "credit_granted (SendOpenAck w, Sent h) = unat w"
| "credit_granted (SendCredit n, Sent h) = unat n"
| "credit_granted _ = 0"

fun credit_received :: "session_op \<times> session_out \<Rightarrow> nat" where
  "credit_received (Recv f h, Got AccEstablished) = unat (hdr_window h)"
| "credit_received (Recv f h, Got (AccCredit n)) = unat n"
| "credit_received _ = 0"

fun data_sent :: "session_op \<times> session_out \<Rightarrow> u64 list" where
  "data_sent (SendData, Sent h) = [hdr_seq h]"
| "data_sent _ = []"

fun data_delivered :: "session_op \<times> session_out \<Rightarrow> u64 list" where
  "data_delivered (Recv f h, Got AccData) = [hdr_seq h]"
| "data_delivered _ = []"

text \<open>One operation sends at most the next sequence number, against one credit.\<close>

lemma step_send:
  assumes "session_step x s = (y, s')"
  shows "(data_sent (x, y) = [] \<and> ss_send_seq s' = ss_send_seq s \<and>
       unat (ss_send_credit s') \<le> unat (ss_send_credit s) + credit_received (x, y)) \<or>
    (data_sent (x, y) = [ss_send_seq s] \<and> ss_send_seq s' = ss_send_seq s + 1 \<and>
       Suc (unat (ss_send_credit s')) = unat (ss_send_credit s))"
proof (cases x)
  case (Recv f h)
  then show ?thesis
    using assms by (cases f) (auto simp: on_recv_def unat_saturating_add split: if_splits)
qed (use assms in \<open>auto simp: session_ops Let_def header_def unat_minus_one unat_gt_0 split: if_splits\<close>)

lemma step_deliver:
  assumes "session_step x s = (y, s')"
  shows "(data_delivered (x, y) = [] \<and> ss_recv_seq s' = ss_recv_seq s \<and>
       unat (ss_recv_window_remaining s') \<le> unat (ss_recv_window_remaining s) + credit_granted (x, y)) \<or>
    (data_delivered (x, y) = [ss_recv_seq s] \<and> ss_recv_seq s' = ss_recv_seq s + 1 \<and>
       Suc (unat (ss_recv_window_remaining s')) = unat (ss_recv_window_remaining s))"
proof (cases x)
  case (Recv f h)
  then show ?thesis
    using assms by (cases f) (auto simp: on_recv_def unat_minus_one unat_gt_0 split: if_splits)
qed (use assms in \<open>auto simp: session_ops Let_def header_def unat_saturating_add split: if_splits\<close>)

interpretation sending: credited_sequence session_step ss_send_seq ss_send_credit data_sent credit_received
  by unfold_locales (rule step_send)

interpretation receiving: credited_sequence session_step ss_recv_seq ss_recv_window_remaining
    data_delivered credit_granted
  by unfold_locales (rule step_deliver)

section \<open>Routing a frame to a stream\<close>

text \<open>
  What the registry does with an authenticated frame for one correlation id (steps 3 to 5 of
  \<open>StreamEndpoint::accept\<close>, below the concurrency cap): a RESET ends the stream, an OPEN
  creates it, another frame drives it, and a violation ends it.
\<close>

datatype routed = Opened | Happened accepted_frame | Ignored | Violation message_error

definition retain :: "stream_session \<Rightarrow> stream_session option" where
  "retain s = (if is_closed s then None else Some s)"

definition route_frame ::
    "stream_header \<Rightarrow> stream_session option \<Rightarrow> routed \<times> stream_session option" where
  "route_frame h S =
     (case frame_from_u8 (hdr_frame h) of
        None \<Rightarrow> (Ignored, S)
      | Some frame \<Rightarrow>
          if frame = Reset then (if S = None then Ignored else Happened AccReset, None)
          else if frame = Open
          then (case S of None \<Rightarrow> (Opened, Some (responder (hdr_window h)))
                | Some s \<Rightarrow> (Violation (StreamProtocol ''duplicate OPEN for a live stream''), None))
          else (case S of None \<Rightarrow> (Ignored, None)
                | Some s \<Rightarrow>
                    (case on_recv frame h s of
                       (Ok a, s') \<Rightarrow> (Happened a, retain s')
                     | (Err e, s') \<Rightarrow> (Violation e, None)
                     | (Panic m, s') \<Rightarrow> (Violation (StreamProtocol m), None))))"

lemma frame_of_header [simp]: "frame_from_u8 (hdr_frame (header f s w)) = Some f"
  by (simp add: header_def)

lemma header_simps [simp]: "hdr_seq (header f s w) = s" "hdr_window (header f s w) = w"
  by (simp_all add: header_def)

lemma retain_SomeD: "retain s = Some t \<Longrightarrow> t = s \<and> \<not> is_closed s"
  by (simp add: retain_def split: if_splits)

lemma is_closed_iff: "is_closed s \<longleftrightarrow> ss_reset s \<or> (ss_local_closed s \<and> ss_remote_closed s)"
  by (auto simp: is_closed_def session_state_def split: bool.split)

section \<open>Properties\<close>

text \<open>
  C16: ordered, credited streams. In every run of a session, whatever frames arrive and whatever
  operations are tried, the DATA frames it sends carry the numbers 0, 1, 2, ... and there are no
  more of them than credits received from the peer; the DATA frames it delivers carry the
  numbers 0, 1, 2, ... and there are no more of them than credits it granted.
\<close>
theorem session_sequences:
  "(\<exists>n m. concat (map data_sent (trace session_step xs (initiator w))) = seqs_from 0 n \<and>
     n \<le> sum_list (map credit_received (trace session_step xs (initiator w))) \<and>
     concat (map data_delivered (trace session_step xs (initiator w))) = seqs_from 0 m \<and>
     m \<le> unat w + sum_list (map credit_granted (trace session_step xs (initiator w)))) \<and>
   (\<exists>n m. concat (map data_sent (trace session_step xs (responder w))) = seqs_from 0 n \<and>
     n \<le> unat w + sum_list (map credit_received (trace session_step xs (responder w))) \<and>
     concat (map data_delivered (trace session_step xs (responder w))) = seqs_from 0 m \<and>
     m \<le> sum_list (map credit_granted (trace session_step xs (responder w))))"
proof
  show "\<exists>n m. concat (map data_sent (trace session_step xs (initiator w))) = seqs_from 0 n \<and>
     n \<le> sum_list (map credit_received (trace session_step xs (initiator w))) \<and>
     concat (map data_delivered (trace session_step xs (initiator w))) = seqs_from 0 m \<and>
     m \<le> unat w + sum_list (map credit_granted (trace session_step xs (initiator w)))"
    using sending.run_emits [of xs "initiator w"] receiving.run_emits [of xs "initiator w"]
    by (fastforce simp: session_fresh)
  show "\<exists>n m. concat (map data_sent (trace session_step xs (responder w))) = seqs_from 0 n \<and>
     n \<le> unat w + sum_list (map credit_received (trace session_step xs (responder w))) \<and>
     concat (map data_delivered (trace session_step xs (responder w))) = seqs_from 0 m \<and>
     m \<le> sum_list (map credit_granted (trace session_step xs (responder w)))"
    using sending.run_emits [of xs "responder w"] receiving.run_emits [of xs "responder w"]
    by (fastforce simp: session_fresh)
qed

text \<open>
  The lifecycle only moves forward. Over every run the observable state goes from opening to
  open to half-closed to closed and never back, and an operation that is refused leaves the
  session exactly as it was.
\<close>
theorem session_lifecycle:
  "state_rank (session_state s) \<le> state_rank (session_state (snd (run_ops session_step xs s))) \<and>
   (session_step x s = (Refused e, s') \<longrightarrow> s' = s)"
  using lifecycle.run_mono refused_unchanged by blast

theorem session_lifecycle_witness:
  "state_rank (session_state (initiator 4))
     \<le> state_rank (session_state (snd (run_ops session_step [SendClose, SendReset] (initiator 4)))) \<and>
   session_step SendData (initiator 4)
     = (Refused (StreamProtocol ''DATA before the stream is established''), initiator 4)"
  using session_lifecycle [of "initiator 4" "[SendClose, SendReset]" SendData _ "initiator 4"]
  by (simp add: build_data_def initiator_def)

text \<open>
  The two directions close independently. The peer's CLOSE does not change what our sending
  operations answer, and our own CLOSE does not change what becomes of an inbound frame, a
  CLOSE_ACK apart (which needs our CLOSE); both CLOSEs together close the stream.
\<close>
theorem half_close_independent:
  "fst (build_data (snd (on_recv Close h s))) = fst (build_data s) \<and>
   fst (build_credit n (snd (on_recv Close h s))) = fst (build_credit n s) \<and>
   (f \<noteq> CloseAck \<longrightarrow> fst (on_recv f h (snd (build_close s))) = fst (on_recv f h s)) \<and>
   (on_recv Close h s = (Ok a, s1) \<longrightarrow> build_close s1 = (Ok h', s2) \<longrightarrow> is_closed s2 \<and> \<not> ss_reset s2)"
proof (intro conjI impI)
  show "fst (build_data (snd (on_recv Close h s))) = fst (build_data s)"
    by (simp add: session_ops Let_def)
  show "fst (build_credit n (snd (on_recv Close h s))) = fst (build_credit n s)"
    by (simp add: session_ops)
  show "fst (on_recv f h (snd (build_close s))) = fst (on_recv f h s)" if "f \<noteq> CloseAck"
    using that by (cases f) (simp_all add: session_ops)
  assume "on_recv Close h s = (Ok a, s1)" and "build_close s1 = (Ok h', s2)"
  then show "is_closed s2" "\<not> ss_reset s2"
    by (auto simp: session_ops is_closed_iff split: if_splits)
qed

theorem half_close_independent_witness:
  "\<exists>s1 s2. on_recv Close (header Close 0 0) ((initiator 4)\<lparr>ss_handshake := HsEstablished\<rparr>)
      = (Ok AccRemoteClosed, s1) \<and> build_close s1 = (Ok (header Close 0 0), s2) \<and> is_closed s2"
proof -
  let ?s = "(initiator 4)\<lparr>ss_handshake := HsEstablished\<rparr>"
  have 1: "on_recv Close (header Close 0 0) ?s = (Ok AccRemoteClosed, ?s\<lparr>ss_remote_closed := True\<rparr>)"
    by (simp add: on_recv_def initiator_def)
  have 2: "build_close (?s\<lparr>ss_remote_closed := True\<rparr>)
      = (Ok (header Close 0 0), ?s\<lparr>ss_remote_closed := True, ss_local_closed := True\<rparr>)"
    by (simp add: build_close_def initiator_def)
  show ?thesis using 1 2 half_close_independent by blast
qed

text \<open>A reset is final: every later inbound frame is refused, whatever is tried in between.\<close>

lemma reset_is_final:
  "on_recv f h (snd (run_ops session_step xs (snd (build_reset s))))
     = (Err (StreamProtocol ''frame after RESET''), snd (run_ops session_step xs (snd (build_reset s))))"
proof -
  have "ss_reset (snd (run_ops session_step xs (snd (build_reset s))))"
    by (rule reset_latch.run_invariant) (simp add: build_reset_def)
  then show ?thesis by (simp add: on_recv_def)
qed

end
