(* ===== verification/Stream_Endpoint.thy ===== *)
theory Stream_Endpoint
  imports Stream_Session Msg_Seal
begin

text \<open>
  The per-peer stream registry (\<open>StreamEndpoint\<close> of \<open>src/stream.rs\<close>): it seals every outbound
  frame, opens and verifies every inbound one, drives the session it names, bounds the number of
  live streams and answers violations of the authenticated peer with a sealed RESET. An
  operation takes the endpoint and returns its result with the endpoint after it, also when it
  fails: the source mutates the session before it seals. The entropy of the fresh ephemeral is
  an argument of every operation that seals.
\<close>

section \<open>The registry\<close>

datatype stream_event =
    EvOpened | EvEstablished | EvData bytes | EvCreditGranted u64 | EvRemoteClosed | EvCloseAcked | EvPeerReset

datatype stream_accept =
    Event stream_event
  | Dropped message_error \<comment> \<open>\<open>cause\<close>\<close>
  | ResetWith dig_message_envelope message_error \<comment> \<open>\<open>frame\<close>, \<open>cause\<close>\<close>

record 'sk stream_endpoint =
  identity_sk :: 'sk
  local_did :: bytes32
  local_epoch :: u32
  peer_did :: bytes32
  peer_pub :: bytes48
  ep_message_type :: u32
  send_counter :: u64
  sessions :: "(bytes32, stream_session) hash_map"
  max_concurrent :: nat
  guard :: replay_guard

type_synonym entropy = "string + bytes32" \<comment> \<open>outcome of \<open>getrandom\<close>\<close>

definition endpoint_new ::
    "'sk \<Rightarrow> bytes32 \<Rightarrow> u32 \<Rightarrow> bytes32 \<Rightarrow> bytes48 \<Rightarrow> u32 \<Rightarrow> 'sk stream_endpoint" where
  "endpoint_new sk did epoch peer pub mt = \<lparr>
     identity_sk = sk,
     local_did = did,
     local_epoch = epoch,
     peer_did = peer,
     peer_pub = pub,
     ep_message_type = mt,
     send_counter = 0,
     sessions = hm_new,
     max_concurrent = MAX_CONCURRENT_STREAMS,
     guard = guard_new\<rparr>"

definition with_max_concurrent :: "nat \<Rightarrow> 'sk stream_endpoint \<Rightarrow> 'sk stream_endpoint" where
  "with_max_concurrent cap ep = ep\<lparr>max_concurrent := cap\<rparr>"

definition stream_count :: "'sk stream_endpoint \<Rightarrow> nat" where
  "stream_count ep = hm_len (sessions ep)"

definition session :: "bytes32 \<Rightarrow> 'sk stream_endpoint \<Rightarrow> stream_session option" where
  "session cid ep = hm_get (sessions ep) cid"

section \<open>Sending\<close>

text \<open>Sequencing on the endpoint: continue with the value, or return the error and the state.\<close>

fun and_then_st :: "'a res \<times> 's \<Rightarrow> ('a \<Rightarrow> 's \<Rightarrow> 'b res \<times> 's) \<Rightarrow> 'b res \<times> 's" where
  "and_then_st (Ok x, s) f = f x s"
| "and_then_st (Err e, s) f = (Err e, s)"
| "and_then_st (Panic m, s) f = (Panic m, s)"

definition seal_frame ::
    "'sk deps \<Rightarrow> entropy \<Rightarrow> bytes32 \<Rightarrow> stream_header \<Rightarrow> bytes \<Rightarrow> u64 \<Rightarrow> u64 \<Rightarrow> 'sk stream_endpoint
      \<Rightarrow> dig_message_envelope res \<times> 'sk stream_endpoint" where
  "seal_frame D en cid hdr payload now_ms expires_at ep =
     (let counter = send_counter ep;
          ep1 = ep\<lparr>send_counter := send_counter ep + 1\<rparr>;
          params = \<lparr>
            sp_sender_sk = identity_sk ep,
            sp_sender = local_did ep,
            sp_sender_epoch = local_epoch ep,
            sp_recipient = peer_did ep,
            sp_recipient_pub = peer_pub ep,
            sp_message_type = ep_message_type ep,
            sp_shape = StreamFrame,
            sp_correlation_id = cid,
            sp_stream = Some hdr,
            sp_counter = counter,
            sp_timestamp_ms = now_ms,
            sp_expires_at = expires_at,
            sp_payload = payload\<rparr>
      in (seal_message D en params, ep1))"

definition session_mut :: "bytes32 \<Rightarrow> 'sk stream_endpoint \<Rightarrow> stream_session res" where
  "session_mut cid ep = ok_or (hm_get (sessions ep) cid) (StreamProtocol ''unknown stream'')"

text \<open>Run a session operation in place, through \<open>session_mut\<close>.\<close>

definition on_session ::
    "bytes32 \<Rightarrow> (stream_session \<Rightarrow> 'a res \<times> stream_session) \<Rightarrow> 'sk stream_endpoint
      \<Rightarrow> 'a res \<times> 'sk stream_endpoint" where
  "on_session cid f ep =
     and_then_st (session_mut cid ep, ep) (\<lambda>s ep.
       case f s of (r, s') \<Rightarrow> (r, ep\<lparr>sessions := hm_insert cid s' (sessions ep)\<rparr>))"

definition drop_if_closed :: "bytes32 \<Rightarrow> 'sk stream_endpoint \<Rightarrow> 'sk stream_endpoint" where
  "drop_if_closed cid ep =
     (case hm_get (sessions ep) cid of
        Some s \<Rightarrow> if is_closed s then ep\<lparr>sessions := hm_remove cid (sessions ep)\<rparr> else ep
      | None \<Rightarrow> ep)"

definition endpoint_open ::
    "'sk deps \<Rightarrow> entropy \<Rightarrow> bytes32 \<Rightarrow> u32 \<Rightarrow> u64 \<Rightarrow> u64 \<Rightarrow> 'sk stream_endpoint
      \<Rightarrow> dig_message_envelope res \<times> 'sk stream_endpoint" where
  "endpoint_open D en cid recv_window now_ms expires_at ep =
     (if hm_contains_key (sessions ep) cid
      then (Err (StreamProtocol ''correlation_id already in use''), ep)
      else if hm_len (sessions ep) \<ge> max_concurrent ep
      then (Err (StreamLimit (max_concurrent ep)), ep)
      else
        let ep1 = ep\<lparr>sessions := hm_insert cid (initiator recv_window) (sessions ep)\<rparr>;
            hdr = header Open 0 recv_window
        in seal_frame D en cid hdr [] now_ms expires_at ep1)"

definition open_ack ::
    "'sk deps \<Rightarrow> entropy \<Rightarrow> bytes32 \<Rightarrow> u32 \<Rightarrow> u64 \<Rightarrow> u64 \<Rightarrow> 'sk stream_endpoint
      \<Rightarrow> dig_message_envelope res \<times> 'sk stream_endpoint" where
  "open_ack D en cid recv_window now_ms expires_at ep =
     and_then_st (on_session cid (build_open_ack recv_window) ep) (\<lambda>hdr.
       seal_frame D en cid hdr [] now_ms expires_at)"

definition send_data ::
    "'sk deps \<Rightarrow> entropy \<Rightarrow> bytes32 \<Rightarrow> bytes \<Rightarrow> u64 \<Rightarrow> u64 \<Rightarrow> 'sk stream_endpoint
      \<Rightarrow> dig_message_envelope res \<times> 'sk stream_endpoint" where
  "send_data D en cid payload now_ms expires_at ep =
     and_then_st (on_session cid build_data ep) (\<lambda>hdr.
       seal_frame D en cid hdr payload now_ms expires_at)"

definition grant_credit ::
    "'sk deps \<Rightarrow> entropy \<Rightarrow> bytes32 \<Rightarrow> u32 \<Rightarrow> u64 \<Rightarrow> u64 \<Rightarrow> 'sk stream_endpoint
      \<Rightarrow> dig_message_envelope res \<times> 'sk stream_endpoint" where
  "grant_credit D en cid n now_ms expires_at ep =
     and_then_st (on_session cid (build_credit n) ep) (\<lambda>hdr.
       seal_frame D en cid hdr [] now_ms expires_at)"

definition endpoint_close ::
    "'sk deps \<Rightarrow> entropy \<Rightarrow> bytes32 \<Rightarrow> u64 \<Rightarrow> u64 \<Rightarrow> 'sk stream_endpoint
      \<Rightarrow> dig_message_envelope res \<times> 'sk stream_endpoint" where
  "endpoint_close D en cid now_ms expires_at ep =
     and_then_st (on_session cid build_close ep) (\<lambda>hdr ep1.
     and_then_st (seal_frame D en cid hdr [] now_ms expires_at ep1) (\<lambda>env ep2.
     (Ok env, drop_if_closed cid ep2)))"

definition endpoint_reset ::
    "'sk deps \<Rightarrow> entropy \<Rightarrow> bytes32 \<Rightarrow> u64 \<Rightarrow> u64 \<Rightarrow> 'sk stream_endpoint
      \<Rightarrow> dig_message_envelope res \<times> 'sk stream_endpoint" where
  "endpoint_reset D en cid now_ms expires_at ep =
     and_then_st (on_session cid (\<lambda>s. apfst Ok (build_reset s)) ep) (\<lambda>hdr ep1.
     and_then_st (seal_frame D en cid hdr [] now_ms expires_at ep1) (\<lambda>env ep2.
     (Ok env, ep2\<lparr>sessions := hm_remove cid (sessions ep2)\<rparr>)))"

section \<open>Receiving\<close>

fun to_event :: "accepted_frame \<Rightarrow> bytes \<Rightarrow> stream_event" where
  "to_event AccEstablished payload = EvEstablished"
| "to_event AccData payload = EvData payload"
| "to_event (AccCredit n) payload = EvCreditGranted n"
| "to_event AccRemoteClosed payload = EvRemoteClosed"
| "to_event AccCloseAcked payload = EvCloseAcked"
| "to_event AccReset payload = EvPeerReset"

definition reset_response ::
    "'sk deps \<Rightarrow> entropy \<Rightarrow> bytes32 \<Rightarrow> u64 \<Rightarrow> message_error \<Rightarrow> 'sk stream_endpoint
      \<Rightarrow> stream_accept res \<times> 'sk stream_endpoint" where
  "reset_response D en cid now_ms cause ep =
     and_then_st (seal_frame D en cid (header Reset 0 0) [] now_ms 0 ep) (\<lambda>frame ep1.
       (Ok (ResetWith frame cause), ep1))"

definition accept_open ::
    "'sk deps \<Rightarrow> entropy \<Rightarrow> bytes32 \<Rightarrow> stream_header \<Rightarrow> u64 \<Rightarrow> 'sk stream_endpoint
      \<Rightarrow> stream_accept res \<times> 'sk stream_endpoint" where
  "accept_open D en cid hdr now_ms ep =
     (let ep1 = ep\<lparr>sessions := hm_remove cid (sessions ep)\<rparr>
      in if hm_get (sessions ep) cid \<noteq> None
         then reset_response D en cid now_ms (StreamProtocol ''duplicate OPEN for a live stream'') ep1
         else if hm_len (sessions ep1) \<ge> max_concurrent ep1
         then reset_response D en cid now_ms (StreamLimit (max_concurrent ep1)) ep1
         else (Ok (Event EvOpened),
               ep1\<lparr>sessions := hm_insert cid (responder (hdr_window hdr)) (sessions ep1)\<rparr>))"

text \<open>The frame after its seal was verified: the peer check, the frame kind, and the routing.\<close>

definition accept_opened ::
    "'sk deps \<Rightarrow> entropy \<Rightarrow> dig_message_envelope \<Rightarrow> opened_message \<Rightarrow> u64 \<Rightarrow> 'sk stream_endpoint
      \<Rightarrow> stream_accept res \<times> 'sk stream_endpoint" where
  "accept_opened D en e opened now_ms ep =
     (let cid = env_correlation_id e in
      if om_sender opened \<noteq> peer_did ep
      then (Ok (Dropped (StreamProtocol ''authenticated sender is not this stream's peer'')), ep)
      else case env_stream e of
        None \<Rightarrow> (Ok (Dropped (StreamProtocol ''stream event on a non-stream envelope'')), ep)
      | Some hdr \<Rightarrow>
      (case frame_from_u8 (hdr_frame hdr) of
        None \<Rightarrow> (Ok (Dropped (StreamProtocol ''unknown stream frame kind'')), ep)
      | Some frame \<Rightarrow>
          if om_shape opened \<noteq> StreamFrame
          then (Ok (Dropped (StreamProtocol ''stream frame with a non-stream shape'')), ep)
          else if frame = Reset
          then (Ok (if hm_get (sessions ep) cid \<noteq> None then Event EvPeerReset
                    else Dropped (StreamProtocol ''RESET for an unknown stream'')),
                ep\<lparr>sessions := hm_remove cid (sessions ep)\<rparr>)
          else if frame = Open then accept_open D en cid hdr now_ms ep
          else if \<not> hm_contains_key (sessions ep) cid
          then (Ok (Dropped (StreamProtocol ''frame for an unknown stream'')), ep)
          else (case hm_get (sessions ep) cid of
            None \<Rightarrow> (Panic ''presence checked above'', ep)
          | Some s \<Rightarrow>
              (case on_recv frame hdr s of (transition, s') \<Rightarrow>
                 let ep1 = ep\<lparr>sessions := hm_insert cid s' (sessions ep)\<rparr>
                 in (case transition of
                      Ok acc \<Rightarrow>
                        (Ok (Event (to_event acc (om_payload opened))), drop_if_closed cid ep1)
                    | Err cause \<Rightarrow>
                        reset_response D en cid now_ms cause
                          (ep1\<lparr>sessions := hm_remove cid (sessions ep1)\<rparr>)
                    | Panic m \<Rightarrow> (Panic m, ep1))))))"

definition accept ::
    "'sk deps \<Rightarrow> entropy \<Rightarrow> dig_message_envelope \<Rightarrow> resolver \<Rightarrow> u64 \<Rightarrow> 'sk stream_endpoint
      \<Rightarrow> stream_accept res \<times> 'sk stream_endpoint" where
  "accept D en e resolve now_ms ep =
     (case open_message D (identity_sk ep) e resolve (guard ep) now_ms of (r, g) \<Rightarrow>
        let ep1 = ep\<lparr>guard := g\<rparr>
        in (case r of
             Ok opened \<Rightarrow> accept_opened D en e opened now_ms ep1
           | Err cause \<Rightarrow> (Ok (Dropped cause), ep1)
           | Panic m \<Rightarrow> (Panic m, ep1)))"

section \<open>What the operations keep\<close>

definition endpoint_ok :: "'sk stream_endpoint \<Rightarrow> bool" where
  "endpoint_ok ep \<longleftrightarrow> hm_wf (sessions ep) \<and> stream_count ep \<le> max_concurrent ep \<and>
     (\<exists>F. guard_models (guard ep) F)"

definition same_config :: "'sk stream_endpoint \<Rightarrow> 'sk stream_endpoint \<Rightarrow> bool" where
  "same_config ep ep' \<longleftrightarrow> identity_sk ep' = identity_sk ep \<and> local_did ep' = local_did ep \<and>
     local_epoch ep' = local_epoch ep \<and> peer_did ep' = peer_did ep \<and> peer_pub ep' = peer_pub ep \<and>
     ep_message_type ep' = ep_message_type ep \<and> max_concurrent ep' = max_concurrent ep"

lemma endpoint_ok_new [simp]: "endpoint_ok (endpoint_new sk did epoch peer pub mt)"
  by (simp add: endpoint_ok_def endpoint_new_def stream_count_def) (rule exI, rule guard_models_new)

lemma and_then_st_inv:
  assumes "P (snd r)" and "\<And>x s. P s \<Longrightarrow> P (snd (f x s))"
  shows "P (snd (and_then_st r f))"
  using assms by (cases "(r, f)" rule: and_then_st.cases) auto

lemma and_then_st_Ok_iff:
  "and_then_st r f = (Ok y, s') \<longleftrightarrow> (\<exists>x s. r = (Ok x, s) \<and> f x s = (Ok y, s'))"
  by (cases "(r, f)" rule: and_then_st.cases) auto

lemma and_then_st_no_panic:
  assumes "\<not> is_panic (fst r)" and "\<And>x s. \<not> is_panic (fst (f x s))"
  shows "\<not> is_panic (fst (and_then_st r f))"
  using assms by (cases "(r, f)" rule: and_then_st.cases) auto

lemma seal_frame_state [simp]:
  "snd (seal_frame D en cid h d now ex ep) = ep\<lparr>send_counter := send_counter ep + 1\<rparr>"
  by (simp add: seal_frame_def Let_def)

lemma endpoint_ok_fields [simp]:
  "endpoint_ok (ep\<lparr>send_counter := c\<rparr>) = endpoint_ok ep"
  "guard_models g F \<Longrightarrow> endpoint_ok ep \<Longrightarrow> endpoint_ok (ep\<lparr>guard := g\<rparr>)"
  by (auto simp: endpoint_ok_def stream_count_def)

lemma endpoint_ok_replace:
  assumes "endpoint_ok ep" and "hm_get (sessions ep) cid \<noteq> None"
  shows "endpoint_ok (ep\<lparr>sessions := hm_insert cid s (sessions ep)\<rparr>)"
  using assms hm.len_put_known [of "sessions ep" cid s] by (simp add: endpoint_ok_def stream_count_def)

lemma endpoint_ok_remove:
  assumes "endpoint_ok ep"
  shows "endpoint_ok (ep\<lparr>sessions := hm_remove cid (sessions ep)\<rparr>)"
  using assms hm.len_del_le [of "sessions ep" cid] by (simp add: endpoint_ok_def stream_count_def)

lemma endpoint_ok_add:
  assumes "endpoint_ok ep" and "hm_len (sessions ep) < max_concurrent ep"
  shows "endpoint_ok (ep\<lparr>sessions := hm_insert cid s (sessions ep)\<rparr>)"
  using assms hm.len_put_le [of "sessions ep" cid s] by (simp add: endpoint_ok_def stream_count_def)

lemma endpoint_ok_on_session:
  assumes "endpoint_ok ep"
  shows "endpoint_ok (snd (on_session cid f ep))"
proof (cases "hm_get (sessions ep) cid")
  case None
  then show ?thesis using assms by (simp add: on_session_def session_mut_def)
next
  case (Some s)
  then show ?thesis
    using endpoint_ok_replace [OF assms, of cid]
    by (simp add: on_session_def session_mut_def split: prod.split)
qed

lemma endpoint_ok_drop [simp]: "endpoint_ok ep \<Longrightarrow> endpoint_ok (drop_if_closed cid ep)"
  by (simp add: drop_if_closed_def endpoint_ok_remove split: option.split)

lemma endpoint_ok_reset_response [simp]:
  "endpoint_ok ep \<Longrightarrow> endpoint_ok (snd (reset_response D en cid now c ep))"
  by (simp add: reset_response_def and_then_st_inv)

lemma endpoint_ok_accept_open: "endpoint_ok ep \<Longrightarrow> endpoint_ok (snd (accept_open D en cid h now ep))"
  using endpoint_ok_remove [of ep cid]
    endpoint_ok_add [of "ep\<lparr>sessions := hm_remove cid (sessions ep)\<rparr>" cid "responder (hdr_window h)"]
  by (simp add: accept_open_def Let_def)

lemma endpoint_ok_accept_opened:
  assumes "endpoint_ok ep"
  shows "endpoint_ok (snd (accept_opened D en e o' now ep))"
proof -
  have r: "endpoint_ok (ep\<lparr>sessions := hm_insert c s (sessions ep)\<rparr>)"
    if "hm_get (sessions ep) c = Some t" for c s t
    using endpoint_ok_replace [OF assms, of c s] that by simp
  have rm: "endpoint_ok (ep\<lparr>sessions := hm_remove c (hm_insert c s (sessions ep))\<rparr>)"
    if "hm_get (sessions ep) c = Some t" for c s t
    using endpoint_ok_remove [OF r [OF that, of s], of c] by simp
  show ?thesis
    using assms r rm endpoint_ok_remove [OF assms] endpoint_ok_accept_open [OF assms]
    by (simp add: accept_opened_def Let_def split: option.split prod.split result.split)
qed

section \<open>The endpoint as a machine\<close>

datatype endpoint_op =
    DoOpen bytes32 u32 | DoOpenAck bytes32 u32 | DoSend bytes32 bytes | DoGrant bytes32 u32
  | DoClose bytes32 | DoReset bytes32 | DoAccept dig_message_envelope resolver

datatype endpoint_out = Outbound "dig_message_envelope res" | Inbound "stream_accept res"

text \<open>One call: the operation, the entropy of its ephemeral, the clock and the expiry.\<close>

type_synonym call = "endpoint_op \<times> entropy \<times> u64 \<times> u64"

fun endpoint_step :: "'sk deps \<Rightarrow> call \<Rightarrow> 'sk stream_endpoint \<Rightarrow> endpoint_out \<times> 'sk stream_endpoint" where
  "endpoint_step D (DoOpen cid w, en, now, ex) ep = apfst Outbound (endpoint_open D en cid w now ex ep)"
| "endpoint_step D (DoOpenAck cid w, en, now, ex) ep = apfst Outbound (open_ack D en cid w now ex ep)"
| "endpoint_step D (DoSend cid d, en, now, ex) ep = apfst Outbound (send_data D en cid d now ex ep)"
| "endpoint_step D (DoGrant cid n, en, now, ex) ep = apfst Outbound (grant_credit D en cid n now ex ep)"
| "endpoint_step D (DoClose cid, en, now, ex) ep = apfst Outbound (endpoint_close D en cid now ex ep)"
| "endpoint_step D (DoReset cid, en, now, ex) ep = apfst Outbound (endpoint_reset D en cid now ex ep)"
| "endpoint_step D (DoAccept e rv, en, now, ex) ep = apfst Inbound (accept D en e rv now ep)"

fun crashed :: "endpoint_out \<Rightarrow> bool" where
  "crashed (Outbound r) \<longleftrightarrow> is_panic r"
| "crashed (Inbound r) \<longleftrightarrow> is_panic r"

lemma call_cases [case_names open_call ack_call send_call grant_call close_call reset_call accept_call]:
  assumes "\<And>cid w en now ex. x = (DoOpen cid w, en, now, ex) \<Longrightarrow> P"
    and "\<And>cid w en now ex. x = (DoOpenAck cid w, en, now, ex) \<Longrightarrow> P"
    and "\<And>cid d en now ex. x = (DoSend cid d, en, now, ex) \<Longrightarrow> P"
    and "\<And>cid n en now ex. x = (DoGrant cid n, en, now, ex) \<Longrightarrow> P"
    and "\<And>cid en now ex. x = (DoClose cid, en, now, ex) \<Longrightarrow> P"
    and "\<And>cid en now ex. x = (DoReset cid, en, now, ex) \<Longrightarrow> P"
    and "\<And>e rv en now ex. x = (DoAccept e rv, en, now, ex) \<Longrightarrow> P"
  shows P
  using assms by (cases x; cases "fst x") auto

lemmas endpoint_ops = endpoint_open_def open_ack_def send_data_def grant_credit_def endpoint_close_def
  endpoint_reset_def

context sealing
begin

lemma endpoint_ok_accept:
  assumes "endpoint_ok ep"
  shows "endpoint_ok (snd (accept D en e rv now ep))"
proof -
  obtain r g where om: "open_message D (identity_sk ep) e rv (guard ep) now = (r, g)" by fastforce
  then obtain F where "guard_models g F"
    using open_message_invariant(1) [of "guard ep" _ "identity_sk ep" e rv now] assms
    by (auto simp: endpoint_ok_def)
  then have "endpoint_ok (ep\<lparr>guard := g\<rparr>)" using assms by simp
  then show ?thesis
    using om by (auto simp: accept_def Let_def intro: endpoint_ok_accept_opened split: result.split)
qed

lemma endpoint_ok_step:
  assumes "endpoint_ok ep"
  shows "endpoint_ok (snd (endpoint_step D x ep))"
proof (cases x rule: call_cases)
  case (open_call cid w en now ex)
  with assms show ?thesis by (simp add: endpoint_ops Let_def endpoint_ok_add)
next
  case (accept_call e rv en now ex)
  with assms show ?thesis by (simp add: endpoint_ok_accept)
qed (use assms in \<open>simp_all add: endpoint_ops and_then_st_inv [where P = endpoint_ok]
  endpoint_ok_on_session endpoint_ok_remove\<close>)

lemma seal_message_no_panic: "\<not> is_panic (seal_message D en p)"
  by (cases en) (auto simp: seal_message_def random_ephemeral_def seal_with_ephemeral_def Let_def
      result_elims kdf_no_panic)

lemma seal_frame_no_panic: "\<not> is_panic (fst (seal_frame D en cid h d now ex ep))"
  by (simp add: seal_frame_def Let_def seal_message_no_panic)

lemma reset_response_no_panic: "\<not> is_panic (fst (reset_response D en cid now c ep))"
  by (simp add: reset_response_def and_then_st_no_panic seal_frame_no_panic)

end

lemma on_session_no_panic:
  "(\<And>s. \<not> is_panic (fst (f s))) \<Longrightarrow> \<not> is_panic (fst (on_session cid f ep))"
  by (cases "hm_get (sessions ep) cid") (simp_all add: on_session_def session_mut_def case_prod_unfold)

lemma build_no_panic [simp]:
  "\<not> is_panic (fst (build_open_ack w s))" "\<not> is_panic (fst (build_data s))"
  "\<not> is_panic (fst (build_credit n s))" "\<not> is_panic (fst (build_close s))"
  by (simp_all add: session_ops Let_def)

lemma on_recv_no_panic: "on_recv f h s \<noteq> (Panic m, s')"
  by (cases f) (simp_all add: on_recv_def)

context sealing
begin

lemma accept_opened_no_panic: "\<not> is_panic (fst (accept_opened D en e o' now ep))"
  by (simp add: accept_opened_def accept_open_def Let_def hm_contains_key_def reset_response_no_panic
      on_recv_no_panic split: option.split prod.split result.split)

lemma endpoint_no_panic:
  assumes "endpoint_ok ep"
  shows "\<not> crashed (fst (endpoint_step D x ep))"
proof (cases x rule: call_cases)
  case (accept_call e rv en now ex)
  have "\<not> is_panic (fst (open_message D (identity_sk ep) e rv (guard ep) now))"
    using open_message_invariant(2) assms by (auto simp: endpoint_ok_def)
  then show ?thesis
    using accept_call by (auto simp: accept_def Let_def accept_opened_no_panic split: prod.split result.split)
qed (simp_all add: endpoint_ops Let_def seal_frame_no_panic build_reset_def
    and_then_st_no_panic on_session_no_panic)

end

sublocale sealing \<subseteq> endpoint: machine_invariant "endpoint_step D" endpoint_ok
  by unfold_locales (rule endpoint_ok_step)

context sealing
begin

lemma endpoint_run_ok: "endpoint_ok ep \<Longrightarrow> endpoint_ok (snd (run_ops (endpoint_step D) xs ep))"
  by (rule endpoint.run_invariant)

end

section \<open>Configuration and counters\<close>

lemma same_config_refl [simp]: "same_config ep ep"
  by (simp add: same_config_def)

lemma same_config_fields [simp]:
  "same_config ep0 (ep\<lparr>send_counter := c\<rparr>) = same_config ep0 ep"
  "same_config ep0 (ep\<lparr>guard := g\<rparr>) = same_config ep0 ep"
  "same_config ep0 (ep\<lparr>sessions := m\<rparr>) = same_config ep0 ep"
  by (simp_all add: same_config_def)

lemma same_config_on_session [simp]: "same_config ep0 (snd (on_session cid f ep)) = same_config ep0 ep"
  by (cases "hm_get (sessions ep) cid") (simp_all add: on_session_def session_mut_def case_prod_unfold)

lemma same_config_drop [simp]: "same_config ep0 (drop_if_closed cid ep) = same_config ep0 ep"
  by (simp add: drop_if_closed_def split: option.split)

lemma same_config_reset [simp]:
  "same_config ep0 ep \<Longrightarrow> same_config ep0 (snd (reset_response D en cid now c ep))"
  by (simp add: reset_response_def and_then_st_inv [where P = "same_config ep0"])

lemma same_config_opened:
  "same_config ep0 ep \<Longrightarrow> same_config ep0 (snd (accept_opened D en e o' now ep))"
  by (simp add: accept_opened_def accept_open_def Let_def split: option.split prod.split result.split)

interpretation config: machine_invariant "endpoint_step D" "same_config ep0" for D :: "'sk deps" and ep0
proof
  fix ep :: "'sk stream_endpoint" and x
  assume "same_config ep0 ep"
  then show "same_config ep0 (snd (endpoint_step D x ep))"
    by (cases x rule: call_cases)
      (simp_all add: endpoint_ops Let_def accept_def same_config_opened
        and_then_st_inv [where P = "same_config ep0"] split: prod.split result.split)
qed

text \<open>The envelope an operation hands to the transport.\<close>

fun transmitted :: "endpoint_out \<Rightarrow> dig_message_envelope list" where
  "transmitted (Outbound (Ok e)) = [e]"
| "transmitted (Inbound (Ok (ResetWith e c))) = [e]"
| "transmitted _ = []"

definition sealed_by :: "'sk deps \<Rightarrow> 'sk stream_endpoint \<Rightarrow> u64 \<Rightarrow> dig_message_envelope \<Rightarrow> bool" where
  "sealed_by D ep c e \<longleftrightarrow>
     (\<exists>en p. seal_message D en p = Ok e \<and> sp_counter p = c \<and> sp_sender p = local_did ep \<and>
        sp_sender_epoch p = local_epoch ep \<and> sp_sender_sk p = identity_sk ep \<and> sp_shape p = StreamFrame \<and>
        sp_stream p \<noteq> None)"

lemma seal_frame_sealed_by:
  "seal_frame D en cid h d now ex ep = (Ok e, ep') \<Longrightarrow> sealed_by D ep (send_counter ep) e"
  unfolding seal_frame_def Let_def sealed_by_def by (rule exI [of _ en], rule exI) auto

lemma on_session_fields [simp]:
  "send_counter (snd (on_session cid f ep)) = send_counter ep"
  "sealed_by D (snd (on_session cid f ep)) = sealed_by D ep"
  by (cases "hm_get (sessions ep) cid";
      simp add: on_session_def session_mut_def case_prod_unfold sealed_by_def fun_eq_iff)+

lemma sealed_by_fields [simp]:
  "sealed_by D (ep\<lparr>sessions := m\<rparr>) = sealed_by D ep"
  "sealed_by D (ep\<lparr>guard := g\<rparr>) = sealed_by D ep"
  by (simp_all add: sealed_by_def fun_eq_iff)

lemma drop_fields [simp]: "send_counter (drop_if_closed cid ep) = send_counter ep"
  by (simp add: drop_if_closed_def split: option.split)

text \<open>An operation transmits nothing, or one envelope sealed with the next counter.\<close>

definition counted :: "'sk deps \<Rightarrow> 'sk stream_endpoint \<Rightarrow> endpoint_out \<times> 'sk stream_endpoint \<Rightarrow> bool" where
  "counted D ep r \<longleftrightarrow>
     (transmitted (fst r) = [] \<and> send_counter (snd r) \<in> {send_counter ep, send_counter ep + 1}) \<or>
     (\<exists>e. transmitted (fst r) = [e] \<and> sealed_by D ep (send_counter ep) e \<and>
        send_counter (snd r) = send_counter ep + 1)"

lemma counted_seal_frame: "counted D ep (apfst Outbound (seal_frame D en cid h d now ex ep))"
proof (cases "fst (seal_frame D en cid h d now ex ep)")
  case (Ok e)
  then have "seal_frame D en cid h d now ex ep = (Ok e, ep\<lparr>send_counter := send_counter ep + 1\<rparr>)"
    by (metis prod.collapse seal_frame_state)
  then show ?thesis using seal_frame_sealed_by by (fastforce simp: counted_def)
qed (simp_all add: counted_def)

lemma counted_reset_response: "counted D ep (apfst Inbound (reset_response D en cid now c ep))"
proof (cases "fst (seal_frame D en cid (header Reset 0 0) [] now 0 ep)")
  case (Ok e)
  then have "seal_frame D en cid (header Reset 0 0) [] now 0 ep = (Ok e, ep\<lparr>send_counter := send_counter ep + 1\<rparr>)"
    by (metis prod.collapse seal_frame_state)
  then show ?thesis using seal_frame_sealed_by by (fastforce simp: counted_def reset_response_def)
next
  case (Err x)
  then have "seal_frame D en cid (header Reset 0 0) [] now 0 ep = (Err x, ep\<lparr>send_counter := send_counter ep + 1\<rparr>)"
    by (metis prod.collapse seal_frame_state)
  then show ?thesis by (simp add: counted_def reset_response_def)
next
  case (Panic x)
  then have "seal_frame D en cid (header Reset 0 0) [] now 0 ep = (Panic x, ep\<lparr>send_counter := send_counter ep + 1\<rparr>)"
    by (metis prod.collapse seal_frame_state)
  then show ?thesis by (simp add: counted_def reset_response_def)
qed

lemma counted_transfer:
  "send_counter ep1 = send_counter ep \<Longrightarrow> sealed_by D ep1 = sealed_by D ep \<Longrightarrow> counted D ep1 r \<Longrightarrow> counted D ep r"
  by (simp add: counted_def)

lemma counted_post:
  assumes "counted D ep (apfst Outbound r)" and "\<And>ep. send_counter (f ep) = send_counter ep"
  shows "counted D ep (apfst Outbound (and_then_st r (\<lambda>env ep2. (Ok env, f ep2))))"
  using assms by (cases r; cases "fst r") (auto simp: counted_def)

lemma counted_on_session:
  assumes "\<And>hdr ep1. counted D ep1 (apfst Outbound (k hdr ep1))"
  shows "counted D ep (apfst Outbound (and_then_st (on_session cid f ep) k))"
proof (cases "on_session cid f ep")
  case (Pair r ep1)
  have same: "send_counter ep1 = send_counter ep" "sealed_by D ep1 = sealed_by D ep"
    using on_session_fields(1) [of cid f ep] on_session_fields(2) [of D cid f ep] Pair by auto
  show ?thesis
  proof (cases r)
    case (Ok hdr)
    then show ?thesis using Pair counted_transfer [OF same assms] by simp
  qed (use Pair same in \<open>simp_all add: counted_def\<close>)
qed

lemma counted_accept_opened: "counted D ep (apfst Inbound (accept_opened D en e o' now ep))"
proof -
  have r: "counted D ep (apfst Inbound (reset_response D en c now cause (ep\<lparr>sessions := m\<rparr>)))" for c cause m
    by (rule counted_transfer [OF _ _ counted_reset_response]) simp_all
  have n: "counted D ep (Inbound (Ok (Event v)), ep')" "counted D ep (Inbound (Ok (Dropped c)), ep')"
      "counted D ep (Inbound (Panic m), ep')" if "send_counter ep' = send_counter ep" for v c m ep'
    using that by (simp_all add: counted_def)
  show ?thesis
    by (simp add: accept_opened_def accept_open_def Let_def r n split: option.split prod.split result.split)
qed

lemma endpoint_step_counted: "counted D ep (endpoint_step D x ep)"
proof (cases x rule: call_cases)
  case (open_call cid w en now ex)
  have "counted D ep (apfst Outbound (seal_frame D en cid h [] now ex (ep\<lparr>sessions := m\<rparr>)))" for h m
    by (rule counted_transfer [OF _ _ counted_seal_frame]) simp_all
  then show ?thesis using open_call by (simp add: endpoint_open_def Let_def) (simp add: counted_def)
next
  case (accept_call e rv en now ex)
  have "counted D ep (apfst Inbound (accept_opened D en e o' now (ep\<lparr>guard := g\<rparr>)))" for o' g
    by (rule counted_transfer [OF _ _ counted_accept_opened]) simp_all
  then show ?thesis
    using accept_call
    by (simp add: accept_def Let_def split: prod.split result.split) (simp add: counted_def)
next
  case (close_call cid en now ex)
  then show ?thesis
    by (simp add: endpoint_close_def counted_on_session counted_post counted_seal_frame)
next
  case (reset_call cid en now ex)
  then show ?thesis
    by (simp add: endpoint_reset_def counted_on_session counted_post counted_seal_frame)
qed (simp_all add: endpoint_ops counted_on_session counted_seal_frame)

lemma sealed_by_step: "sealed_by D (snd (endpoint_step D x ep)) = sealed_by D ep"
  using config.preserved [of ep ep D x] by (simp add: sealed_by_def same_config_def fun_eq_iff)

lemma run_counted:
  assumes "unat (send_counter ep) + length xs < 2 ^ 64"
  shows "\<exists>cs. list_all2 (sealed_by D ep) cs (concat (map transmitted (fst (run_ops (endpoint_step D) xs ep)))) \<and>
    sorted_wrt (<) cs \<and> (\<forall>c \<in> set cs. send_counter ep \<le> c)"
  using assms
proof (induction xs arbitrary: ep)
  case Nil
  show ?case by (rule exI [of _ "[]"]) simp
next
  case (Cons x xs)
  let ?r = "endpoint_step D x ep" and ?c = "send_counter ep"
  have no: "unat (?c + 1) = Suc (unat ?c)"
    using Cons.prems by (simp add: unat_add_lem [THEN iffD1])
  then have c: "send_counter (snd ?r) = ?c \<or> send_counter (snd ?r) = ?c + 1"
    using endpoint_step_counted [of D ep x] by (auto simp: counted_def)
  then have room: "unat (send_counter (snd ?r)) + length xs < 2 ^ 64" using Cons.prems no by auto
  obtain cs where cs: "list_all2 (sealed_by D ep) cs
        (concat (map transmitted (fst (run_ops (endpoint_step D) xs (snd ?r)))))"
      "sorted_wrt (<) cs" "\<forall>d \<in> set cs. send_counter (snd ?r) \<le> d"
    using Cons.IH [OF room] by (auto simp: sealed_by_step)
  have le: "?c \<le> send_counter (snd ?r)" using c no by (auto simp: word_le_nat_alt)
  from endpoint_step_counted [of D ep x] show ?case
  proof (unfold counted_def, elim disjE exE conjE)
    assume "transmitted (fst ?r) = []"
    then show ?thesis
      using cs le by (intro exI [of _ cs]) (auto simp: run_ops_Cons simp del: run_ops.simps(2))
  next
    fix e
    assume "transmitted (fst ?r) = [e]" "sealed_by D ep ?c e" and n: "send_counter (snd ?r) = ?c + 1"
    moreover have "\<forall>d \<in> set cs. ?c < d"
      using cs(3) n no by (force simp: word_le_nat_alt word_less_nat_alt)
    ultimately show ?thesis
      using cs by (intro exI [of _ "?c # cs"]) (auto simp: run_ops_Cons simp del: run_ops.simps(2))
  qed
qed

section \<open>The outcome of an inbound frame\<close>

lemma hm_remove_absent: "hm_get m k = None \<Longrightarrow> hm_remove k m = m"
  by (simp add: hm_get_def hm_remove_def map_of_eq_None_iff delete_idem)

lemma reset_response_Ok:
  "reset_response D en cid now c ep = (Ok a, ep') \<longleftrightarrow>
     (\<exists>f. seal_frame D en cid (header Reset 0 0) [] now 0 ep = (Ok f, ep') \<and> a = ResetWith f c)"
  by (auto simp: reset_response_def and_then_st_Ok_iff)

lemma accept_opened_Dropped:
  assumes "accept_opened D en e o' now ep = (Ok (Dropped c), ep')"
  shows "ep' = ep"
  using assms
  by (auto simp: accept_opened_def accept_open_def Let_def reset_response_Ok hm_remove_absent
      split: if_splits option.splits prod.splits result.splits)

text \<open>When a RESET is sent, and what it looks like.\<close>

lemma seal_frame_fields:
  assumes "seal_frame D en cid h d now ex ep = (Ok f, ep')"
  shows "env_stream f = Some h" "env_correlation_id f = cid" "env_sender f = local_did ep"
    "env_recipient f = peer_did ep" "env_sender_epoch f = local_epoch ep"
proof -
  obtain p esk where p: "seal_with_ephemeral D p esk = Ok f" "sp_stream p = Some h"
      "sp_correlation_id p = cid" "sp_sender p = local_did ep" "sp_recipient p = peer_did ep"
      "sp_sender_epoch p = local_epoch ep"
    using assms by (auto simp: seal_frame_def Let_def seal_message_def result_elims)
  show "env_stream f = Some h" "env_correlation_id f = cid" "env_sender f = local_did ep"
    "env_recipient f = peer_did ep" "env_sender_epoch f = local_epoch ep"
    using seal_with_ephemeral_fields [OF p(1)] p(2-) by (simp_all add: sealed_for_def)
qed

lemma accept_opened_ResetWith:
  assumes "accept_opened D en e o' now ep = (Ok (ResetWith f c), ep')"
  obtains hdr frame m where "om_sender o' = peer_did ep" "om_shape o' = StreamFrame" "env_stream e = Some hdr"
    "frame_from_u8 (hdr_frame hdr) = Some frame" "frame \<noteq> Reset"
    "session (env_correlation_id e) ep \<noteq> None \<or> frame = Open \<and> max_concurrent ep \<le> stream_count ep"
    "seal_frame D en (env_correlation_id e) (header Reset 0 0) [] now 0 (ep\<lparr>sessions := m\<rparr>) = (Ok f, ep')"
    "\<And>k. hm_get m k = (if k = env_correlation_id e then None else hm_get (sessions ep) k)"
proof -
  let ?cid = "env_correlation_id e"
  obtain hdr frame where h: "om_sender o' = peer_did ep" "om_shape o' = StreamFrame" "env_stream e = Some hdr"
      "frame_from_u8 (hdr_frame hdr) = Some frame" "frame \<noteq> Reset"
    using assms by (auto simp: accept_opened_def Let_def split: if_splits option.splits)
  show thesis
  proof (cases "frame = Open")
    case True
    have "session ?cid ep \<noteq> None \<or> frame = Open \<and> max_concurrent ep \<le> stream_count ep"
      "seal_frame D en ?cid (header Reset 0 0) [] now 0 (ep\<lparr>sessions := hm_remove ?cid (sessions ep)\<rparr>) = (Ok f, ep')"
      using assms h True
      by (auto simp: accept_opened_def accept_open_def Let_def reset_response_Ok session_def stream_count_def
          hm_remove_absent split: if_splits)
    then show ?thesis by (rule that [OF h]) simp
  next
    case False
    then obtain s s' where s: "hm_get (sessions ep) ?cid = Some s" "on_recv frame hdr s = (Err c, s')"
      "seal_frame D en ?cid (header Reset 0 0) [] now 0
        (ep\<lparr>sessions := hm_remove ?cid (hm_insert ?cid s' (sessions ep))\<rparr>) = (Ok f, ep')"
      using assms h
      by (auto simp: accept_opened_def Let_def reset_response_Ok
          split: if_splits option.splits prod.splits result.splits)
    show ?thesis by (rule that [OF h _ s(3)]) (use s in \<open>simp_all add: session_def\<close>)
  qed
qed

text \<open>A frame of kind RESET is never answered.\<close>

lemma accept_opened_on_reset:
  assumes "env_stream e = Some hdr" and "frame_from_u8 (hdr_frame hdr) = Some Reset"
  shows "fst (accept_opened D en e o' now ep) \<in> {Ok (Event EvPeerReset)} \<union> range (\<lambda>c. Ok (Dropped c))"
    and "send_counter (snd (accept_opened D en e o' now ep)) = send_counter ep"
  using assms by (simp_all add: accept_opened_def Let_def)

section \<open>Frames between two endpoints\<close>

text \<open>
  Endpoint \<open>B\<close> listens to \<open>A\<close>: \<open>A\<close> seals for the key of \<open>B\<close>, \<open>B\<close> has \<open>A\<close> as its peer, and the
  resolver of \<open>B\<close> knows the key of \<open>A\<close>.
\<close>

definition listens :: "'sk deps \<Rightarrow> resolver \<Rightarrow> 'sk stream_endpoint \<Rightarrow> 'sk stream_endpoint \<Rightarrow> bool" where
  "listens D rv A B \<longleftrightarrow> peer_pub A = public_key_bytes (crypto D) (identity_sk B) \<and>
     peer_did B = local_did A \<and>
     rv (local_did A) (local_epoch A) = Some (public_key_bytes (crypto D) (identity_sk A))"

text \<open>The frame is in time and its counter is new to \<open>B\<close>.\<close>

definition timely :: "u64 \<Rightarrow> u64 \<Rightarrow> u64 \<Rightarrow> bool" where
  "timely sent_ms expires_at now_ms \<longleftrightarrow>
     fresh sent_ms now_ms \<and> check_expiry sent_ms expires_at now_ms = Ok ()"

context sealing
begin

lemma accept_sealed:
  assumes sf: "seal_frame D en cid h d sent_ms ex A = (Ok e, A')" and li: "listens D rv A B"
    and g: "guard_models (guard B) F" and t: "timely sent_ms ex now"
    and c: "accepts (F (local_did A, local_epoch A)) (unat (send_counter A))"
    and size: "length d \<le> MAX_DECOMPRESSED_BYTES"
  obtains g' F' m where "accept D en' e rv now B = accept_opened D en' e m now (B\<lparr>guard := g'\<rparr>)"
    "guard_models g' F'" "F' (local_did A, local_epoch A) = insert (unat (send_counter A)) (F (local_did A, local_epoch A))"
    "om_sender m = peer_did B" "om_shape m = StreamFrame" "om_payload m = d"
    "env_stream e = Some h" "env_correlation_id e = cid"
    "open_message D (identity_sk B) e rv (guard B) now = (Ok m, g')"
proof -
  obtain p esk where p: "seal_with_ephemeral D p esk = Ok e" and pf: "sp_sender_sk p = identity_sk A"
      "sp_sender p = local_did A" "sp_sender_epoch p = local_epoch A" "sp_recipient_pub p = peer_pub A"
      "sp_shape p = StreamFrame" "sp_counter p = send_counter A" "sp_timestamp_ms p = sent_ms"
      "sp_expires_at p = ex" "sp_payload p = d"
    using sf by (auto simp: seal_frame_def Let_def seal_message_def result_elims)
  have "addressed D (identity_sk B) rv p" using li pf by (simp add: addressed_def listens_def)
  from open_sealed [OF p this g, of now] t c size pf obtain g' F' where
    "open_message D (identity_sk B) e rv (guard B) now = (Ok (opened_of p), g')" "guard_models g' F'"
    "F' (local_did A, local_epoch A) = insert (unat (send_counter A)) (F (local_did A, local_epoch A))"
    by (auto simp: timely_def remember_def)
  then show thesis
    using pf li seal_frame_fields [OF sf]
    by (intro that [of "opened_of p" g' F']) (simp_all add: accept_def opened_of_def listens_def)
qed

end

text \<open>
  The routing of a verified frame is that of the session level: the session the frame names goes
  where \<open>route_frame\<close> takes it, every other session stays, and the outcome is the one the
  routing reports.
\<close>

fun outcome_of :: "routed \<Rightarrow> bytes \<Rightarrow> stream_accept res \<Rightarrow> bool" where
  "outcome_of Opened d r \<longleftrightarrow> r = Ok (Event EvOpened)"
| "outcome_of (Happened a) d r \<longleftrightarrow> r = Ok (Event (to_event a d))"
| "outcome_of Ignored d r \<longleftrightarrow> (\<exists>c. r = Ok (Dropped c))"
| "outcome_of (Violation c) d r \<longleftrightarrow> (\<exists>f. r = Ok (ResetWith f c)) \<or> (\<exists>x. r = Err x) \<or> is_panic r"

lemma outcome_reset_response:
  "outcome_of (Violation c) d (fst (reset_response D en cid now c ep))"
proof (cases "seal_frame D en cid (header Reset 0 0) [] now 0 ep")
  case (Pair r ep')
  then show ?thesis by (cases r) (simp_all add: reset_response_def)
qed

lemma session_reset_response [simp]: "session k (snd (reset_response D en cid now c ep)) = session k ep"
  unfolding reset_response_def
  by (rule and_then_st_inv [where P = "\<lambda>x. session k x = session k ep"]) (simp_all add: session_def)

lemma session_insert [simp]:
  "session k (ep\<lparr>sessions := hm_insert cid s (sessions ep')\<rparr>) = (if k = cid then Some s else session k ep')"
  "session k (ep\<lparr>sessions := hm_remove cid (sessions ep')\<rparr>) = (if k = cid then None else session k ep')"
  "session k (ep\<lparr>sessions := hm_remove cid (hm_insert cid s (sessions ep'))\<rparr>)
     = (if k = cid then None else session k ep')"
  by (simp_all add: session_def)

lemma session_drop:
  "session k (drop_if_closed cid ep) =
     (if k = cid then (case session cid ep of None \<Rightarrow> None | Some s \<Rightarrow> retain s) else session k ep)"
  by (simp add: drop_if_closed_def retain_def session_def split: option.split)

lemma accept_opened_route:
  assumes m: "om_sender m = peer_did ep" "om_shape m = StreamFrame" "env_stream e = Some h"
      "frame_from_u8 (hdr_frame h) = Some f"
    and cap: "f = Open \<Longrightarrow> stream_count ep < max_concurrent ep"
    and rt: "route_frame h (session (env_correlation_id e) ep) = (r, S)"
  shows "session k (snd (accept_opened D en e m now ep))
      = (if k = env_correlation_id e then S else session k ep)"
    and "outcome_of r (om_payload m) (fst (accept_opened D en e m now ep))"
proof -
  let ?cid = "env_correlation_id e"
  have "session k (snd (accept_opened D en e m now ep)) = (if k = ?cid then S else session k ep) \<and>
    outcome_of r (om_payload m) (fst (accept_opened D en e m now ep))"
  proof (cases "hm_get (sessions ep) ?cid")
    case None
    then show ?thesis
      using rt m cap
      by (auto simp: accept_opened_def accept_open_def route_frame_def hm_contains_key_def hm_remove_absent
          session_def stream_count_def not_le split: if_splits)
  next
    case (Some s)
    then have s: "session ?cid ep = Some s" by (simp add: session_def)
    consider "f = Reset" | "f = Open" | "f \<noteq> Reset" "f \<noteq> Open" by blast
    then show ?thesis
    proof cases
      case 3
      obtain tr s' where o': "on_recv f h s = (tr, s')" by fastforce
      show ?thesis
        using rt m 3 Some s o' on_recv_no_panic [of f h s]
        by (cases tr) (auto simp: accept_opened_def route_frame_def hm_contains_key_def Let_def session_drop
            outcome_reset_response simp del: outcome_of.simps(4) split: if_splits)
    qed (use rt m Some s in \<open>auto simp: accept_opened_def accept_open_def route_frame_def Let_def
          outcome_reset_response simp del: outcome_of.simps(4) split: if_splits\<close>)
  qed
  then show "session k (snd (accept_opened D en e m now ep)) = (if k = ?cid then S else session k ep)"
    "outcome_of r (om_payload m) (fst (accept_opened D en e m now ep))" by blast+
qed

lemma accept_opened_keeps [simp]:
  "guard (snd (accept_opened D en e m now ep)) = guard ep"
  "identity_sk (snd (accept_opened D en e m now ep)) = identity_sk ep"
proof -
  have r: "guard (snd (reset_response D en cid now c ep')) = guard ep'" for cid c and ep' :: "'a stream_endpoint"
    unfolding reset_response_def
    by (rule and_then_st_inv [where P = "\<lambda>x. guard x = guard ep'"]) simp_all
  have d: "guard (drop_if_closed cid ep') = guard ep'" for cid and ep' :: "'a stream_endpoint"
    by (simp add: drop_if_closed_def split: option.split)
  show "guard (snd (accept_opened D en e m now ep)) = guard ep"
    by (simp add: accept_opened_def accept_open_def Let_def r d split: option.split prod.split result.split)
  show "identity_sk (snd (accept_opened D en e m now ep)) = identity_sk ep"
    using same_config_opened [of ep ep] by (simp add: same_config_def)
qed

context sealing
begin

lemma accept_routes:
  assumes "listens D rv A B" and "guard_models (guard B) F"
    and "seal_frame D en cid (header f seq win) d sent_ms ex A = (Ok e, A')" and "timely sent_ms ex now"
    and "accepts (F (local_did A, local_epoch A)) (unat (send_counter A))"
    and "length d \<le> MAX_DECOMPRESSED_BYTES" and "f = Open \<Longrightarrow> stream_count B < max_concurrent B"
    and "route_frame (header f seq win) (session cid B) = (r, S)"
  shows "outcome_of r d (fst (accept D en' e rv now B)) \<and>
    (\<forall>k. session k (snd (accept D en' e rv now B)) = (if k = cid then S else session k B))"
proof -
  obtain g' F' m where a: "accept D en' e rv now B = accept_opened D en' e m now (B\<lparr>guard := g'\<rparr>)"
    and m: "om_sender m = peer_did B" "om_shape m = StreamFrame" "om_payload m = d"
      "env_stream e = Some (header f seq win)" "env_correlation_id e = cid"
    by (rule accept_sealed [OF assms(3,1,2,4,5,6)])
  have s: "session k (B\<lparr>guard := g'\<rparr>) = session k B" for k by (simp add: session_def)
  show ?thesis
    unfolding a
    using accept_opened_route [of m "B\<lparr>guard := g'\<rparr>" e "header f seq win" f r S] m assms(7,8)
    by (simp add: s stream_count_def)
qed

end

section \<open>Sample endpoints\<close>

definition alice :: "u8 stream_endpoint" where
  "alice = endpoint_new 3 (array_of_byte 1) 0 (array_of_byte 2) (array_of_byte 5) 0x100"

definition bob :: "u8 stream_endpoint" where
  "bob = endpoint_new 5 (array_of_byte 2) 0 (array_of_byte 1) (array_of_byte 3) 0x100"

definition sample_cid :: bytes32 where
  "sample_cid = array_of_byte 9"

definition sample_entropy :: entropy where
  "sample_entropy = Inr (array_of_byte 11)"

text \<open>Both ends of an established stream with one session each.\<close>

definition alice_streaming :: "u8 stream_endpoint" where
  "alice_streaming = alice\<lparr>sessions := hm_insert sample_cid
     ((initiator 4)\<lparr>ss_handshake := HsEstablished, ss_send_credit := 2\<rparr>) hm_new\<rparr>"

definition bob_streaming :: "u8 stream_endpoint" where
  "bob_streaming = bob\<lparr>sessions := hm_insert sample_cid
     ((responder 4)\<lparr>ss_handshake := HsEstablished, ss_recv_window_remaining := 2\<rparr>) hm_new\<rparr>"

lemma sample_endpoint_simps [simp]:
  "identity_sk bob = 5" "local_did alice = array_of_byte 1" "local_epoch alice = 0" "guard bob = guard_new"
  "send_counter alice = 0" "sessions alice = hm_new" "sessions bob = hm_new" "max_concurrent alice = 64"
  "max_concurrent bob = 64" "peer_did bob = array_of_byte 1"
  "identity_sk alice = 3" "peer_pub alice = array_of_byte 5" "local_did bob = array_of_byte 2"
  "peer_pub bob = array_of_byte 3" "identity_sk bob = 5"
  by (simp_all add: alice_def bob_def endpoint_new_def const_defs)

lemma sample_listens [simp]:
  "listens sum_deps sample_resolver (alice\<lparr>sessions := m\<rparr>) (bob\<lparr>sessions := m'\<rparr>)"
  "listens sum_deps sample_resolver (alice\<lparr>sessions := m\<rparr>) (bob\<lparr>max_concurrent := cap\<rparr>)"
  by (simp_all add: listens_def sum_deps_def sum_crypto_def sample_resolver_def)

lemma sample_timely [simp]: "timely 1000 5000 2000"
  by (simp add: timely_def)

lemma sample_accepts [simp]: "accepts {} n"
  by (simp add: accepts_def)

lemma sum_seal_frame:
  assumes "length d < 64" and "peer_pub ep = array_of_byte k"
  shows "\<exists>e. seal_frame sum_deps sample_entropy cid h d now ex ep
    = (Ok e, ep\<lparr>send_counter := send_counter ep + 1\<rparr>)"
proof -
  let ?p = "\<lparr>sp_sender_sk = identity_sk ep, sp_sender = local_did ep, sp_sender_epoch = local_epoch ep,
     sp_recipient = peer_did ep, sp_recipient_pub = peer_pub ep, sp_message_type = ep_message_type ep,
     sp_shape = StreamFrame, sp_correlation_id = cid, sp_stream = Some h, sp_counter = send_counter ep,
     sp_timestamp_ms = now, sp_expires_at = ex, sp_payload = d\<rparr>"
  have "\<exists>c. compress_payload (zstd sum_deps) d = Ok c"
    using assms(1) by (simp add: compress_payload_def u32_try_from_def const_defs)
  moreover have "peer_pub ep = public_key_bytes (crypto sum_deps) k"
    using assms(2) by (simp add: sum_deps_def sum_crypto_def)
  ultimately obtain e where "seal_with_ephemeral sum_deps ?p (sk_from_seed (crypto sum_deps) (array_of_byte 11)) = Ok e"
    using sum.seal_total [of ?p _ k] by auto
  then show ?thesis by (simp add: seal_frame_def Let_def sample_entropy_def seal_message_ephemeral)
qed

lemma sample_open_call:
  obtains e where "endpoint_open sum_deps sample_entropy sample_cid 4 1000 5000 alice
    = (Ok e, alice\<lparr>sessions := hm_insert sample_cid (initiator 4) hm_new, send_counter := 1\<rparr>)"
    "seal_frame sum_deps sample_entropy sample_cid (header Open 0 4) [] 1000 5000
       (alice\<lparr>sessions := hm_insert sample_cid (initiator 4) hm_new\<rparr>)
      = (Ok e, alice\<lparr>sessions := hm_insert sample_cid (initiator 4) hm_new, send_counter := 1\<rparr>)"
proof -
  obtain e where "seal_frame sum_deps sample_entropy sample_cid (header Open 0 4) [] 1000 5000
      (alice\<lparr>sessions := hm_insert sample_cid (initiator 4) hm_new\<rparr>)
     = (Ok e, alice\<lparr>sessions := hm_insert sample_cid (initiator 4) hm_new, send_counter := 1\<rparr>)"
    using sum_seal_frame [of "[]" "alice\<lparr>sessions := hm_insert sample_cid (initiator 4) hm_new\<rparr>" 5 sample_cid
        "header Open 0 4" 1000 5000] by auto
  then show thesis by (intro that [of e]) (simp_all add: endpoint_open_def Let_def)
qed

text \<open>The OPEN of Alice reaches the routing of Bob, at any cap.\<close>

lemma sample_open_arrives:
  obtains e g' F' m where "fst (endpoint_open sum_deps sample_entropy sample_cid 4 1000 5000 alice) = Ok e"
    "accept sum_deps sample_entropy e sample_resolver 2000 (bob\<lparr>max_concurrent := cap\<rparr>)
      = accept_opened sum_deps sample_entropy e m 2000 (bob\<lparr>max_concurrent := cap, guard := g'\<rparr>)"
    "open_message sum_deps 5 e sample_resolver guard_new 2000 = (Ok m, g')"
    "guard_models g' F'" "om_sender m = array_of_byte 1" "om_shape m = StreamFrame"
    "env_stream e = Some (header Open 0 4)" "env_correlation_id e = sample_cid"
proof (rule sample_open_call)
  fix e
  assume *: "endpoint_open sum_deps sample_entropy sample_cid 4 1000 5000 alice
     = (Ok e, alice\<lparr>sessions := hm_insert sample_cid (initiator 4) hm_new, send_counter := 1\<rparr>)"
   and sf: "seal_frame sum_deps sample_entropy sample_cid (header Open 0 4) [] 1000 5000
       (alice\<lparr>sessions := hm_insert sample_cid (initiator 4) hm_new\<rparr>)
      = (Ok e, alice\<lparr>sessions := hm_insert sample_cid (initiator 4) hm_new, send_counter := 1\<rparr>)"
  show thesis
    by (rule sum.accept_sealed [OF sf, where B = "bob\<lparr>max_concurrent := cap\<rparr>" and now = 2000
          and en' = sample_entropy and F = "\<lambda>_. {}" and rv = sample_resolver])
      (use * that in auto)
qed

lemma sum_reset_response:
  assumes "peer_pub ep = array_of_byte k"
  shows "\<exists>f ep'. reset_response sum_deps sample_entropy cid now c ep = (Ok (ResetWith f c), ep')"
  using sum_seal_frame [of "[]" ep k cid "header Reset 0 0" now 0] assms by (auto simp: reset_response_def)

lemma sample_reset:
  obtains e f c ep' where "accept sum_deps sample_entropy e sample_resolver 2000 (bob\<lparr>max_concurrent := 0\<rparr>)
    = (Ok (ResetWith f c), ep')"
proof (rule sample_open_arrives [where cap = 0])
  fix e g F m
  assume "accept sum_deps sample_entropy e sample_resolver 2000 (bob\<lparr>max_concurrent := 0\<rparr>)
      = accept_opened sum_deps sample_entropy e m 2000 (bob\<lparr>max_concurrent := 0, guard := g\<rparr>)"
    and "om_sender m = array_of_byte 1" "om_shape m = StreamFrame"
      "env_stream e = Some (header Open 0 4)" "env_correlation_id e = sample_cid"
  then obtain f c ep' where "accept sum_deps sample_entropy e sample_resolver 2000 (bob\<lparr>max_concurrent := 0\<rparr>)
      = (Ok (ResetWith f c), ep')"
    using sum_reset_response [of "bob\<lparr>max_concurrent := 0, guard := g, sessions := hm_remove sample_cid hm_new\<rparr>" 3
        sample_cid 2000 "StreamLimit 0"]
    by (auto simp: accept_opened_def accept_open_def)
  then show thesis by (rule that)
qed

section \<open>What the guard of an endpoint remembers\<close>

context sealing
begin

text \<open>The guard remembers what was taken, as long as it knows no more senders than it can hold.\<close>

lemma guard_admits:
  assumes g: "guard_models g F" and K: "finite K" "card K \<le> MAX_TRACKED_SENDERS" "dom (hm_get g) \<subseteq> K"
    and rv: "\<And>s n. rv s n \<noteq> None \<Longrightarrow> (s, n) \<in> K"
    and om: "open_message D rsk e rv g now = (r, g')"
  obtains F' where "guard_models g' F'" "dom (hm_get g') \<subseteq> K" "\<And>k. F k \<subseteq> F' k"
    "\<And>m. r = Ok m \<Longrightarrow> unat (om_counter m) \<in> F' (om_sender m, om_sender_epoch m)"
    "\<And>m. r = Ok m \<Longrightarrow> unat (om_counter m) \<notin> F (om_sender m, om_sender_epoch m)"
proof (cases "open_inner D rsk e rv now")
  case (Ok si)
  obtain shape inner where si: "si = (shape, inner)" by fastforce
  let ?s = "env_sender e" and ?n = "env_sender_epoch e" and ?c = "im_counter inner" and ?ts = "im_timestamp_ms inner"
  have "rv ?s ?n \<noteq> None" using Ok si by (auto elim: open_inner_OkE)
  then have k: "(?s, ?n) \<in> K" by (rule rv)
  have room: "hm_contains_key g (?s, ?n) \<or> hm_len g < MAX_TRACKED_SENDERS" by (rule guard_room [OF g K k])
  let ?b = "fresh ?ts now \<and> accepts (F (?s, ?n)) (unat ?c)"
  let ?F = "if fresh ?ts now then F((?s, ?n) := remember (F (?s, ?n)) (unat ?c)) else F"
  obtain g1 where g1: "check_and_admit (hash_iter D) g ?s ?n ?c ?ts now = Ok (?b, g1)" "guard_models g1 ?F"
    using check_and_admit_room [OF g room, of "hash_iter D" ?c ?ts now] by blast
  have g': "g' = g1" using om Ok si g1(1) by (auto simp: open_message_def split: if_splits)
  have sub: "dom (hm_get g1) \<subseteq> K" using check_and_admit_dom [OF g room g1(1)] K(3) k by auto
  have okm: "om_sender m = ?s \<and> om_sender_epoch m = ?n \<and> om_counter m = ?c \<and> ?b" if "r = Ok m" for m
    using that om Ok si g1(1) by (auto simp: open_message_def result_elims split: if_splits)
  show thesis
    by (rule that [OF g1(2) [folded g']]) (use sub g' okm in \<open>auto simp: remember_def accepts_def\<close>)
next
  case (Err x)
  then have "g' = g" "r = Err x" using om by (auto simp: open_message_def)
  then show thesis using g K(3) by (intro that [of F]) auto
next
  case (Panic x)
  then have "g' = g" "r = Panic x" using om by (auto simp: open_message_def)
  then show thesis using g K(3) by (intro that [of F]) auto
qed

end

lemma step_config: "endpoint_step D x ep = (out, ep') \<Longrightarrow> same_config ep0 ep \<Longrightarrow> same_config ep0 ep'"
  using config.preserved [of ep0 ep D x] by simp

lemma guard_on_session [simp]: "guard (snd (on_session cid f ep)) = guard ep"
  by (cases "hm_get (sessions ep) cid") (simp_all add: on_session_def session_mut_def case_prod_unfold)

lemma guard_drop [simp]: "guard (drop_if_closed cid ep) = guard ep"
  by (simp add: drop_if_closed_def split: option.split)

lemma step_guard:
  assumes "endpoint_step D (op, en, now, ex) ep = (out, ep')"
  shows "guard ep' =
     (case op of DoAccept e rv \<Rightarrow> snd (open_message D (identity_sk ep) e rv (guard ep) now) | _ \<Rightarrow> guard ep)"
proof -
  have "guard (snd (endpoint_step D (op, en, now, ex) ep)) =
     (case op of DoAccept e rv \<Rightarrow> snd (open_message D (identity_sk ep) e rv (guard ep) now) | _ \<Rightarrow> guard ep)"
    by (cases op) (simp_all add: endpoint_ops Let_def accept_def
        and_then_st_inv [where P = "\<lambda>z. guard z = guard ep"] split: prod.split result.split)
  then show ?thesis using assms by simp
qed

text \<open>A call whose resolver, if it has one, knows senders and epochs of \<open>K\<close> only.\<close>

fun known_senders :: "sender_key set \<Rightarrow> call \<Rightarrow> bool" where
  "known_senders K (DoAccept e rv, en, now, ex) \<longleftrightarrow> (\<forall>s n. rv s n \<noteq> None \<longrightarrow> (s, n) \<in> K)"
| "known_senders K _ \<longleftrightarrow> True"

definition recorded :: "sender_key set \<Rightarrow> sender_key \<Rightarrow> nat \<Rightarrow> 'sk stream_endpoint \<Rightarrow> bool" where
  "recorded K key c ep \<longleftrightarrow> (\<exists>F. guard_models (guard ep) F \<and> dom (hm_get (guard ep)) \<subseteq> K \<and> c \<in> F key)"

context sealing
begin

lemma step_recorded:
  assumes K: "finite K" "card K \<le> MAX_TRACKED_SENDERS" and x: "known_senders K x" and r: "recorded K key c ep"
  shows "recorded K key c (snd (endpoint_step D x ep))"
proof -
  obtain out ep' where st: "endpoint_step D x ep = (out, ep')" by fastforce
  obtain F where F: "guard_models (guard ep) F" "dom (hm_get (guard ep)) \<subseteq> K" "c \<in> F key"
    using r by (auto simp: recorded_def)
  show ?thesis
  proof (cases x rule: call_cases)
    case x': (accept_call e rv en now ex)
    obtain r' g where om: "open_message D (identity_sk ep) e rv (guard ep) now = (r', g)" by fastforce
    have rv: "\<And>s n. rv s n \<noteq> None \<Longrightarrow> (s, n) \<in> K" using x x' by simp
    obtain F' where "guard_models g F'" "dom (hm_get g) \<subseteq> K" "\<And>k. F k \<subseteq> F' k"
      by (rule guard_admits [OF F(1) K F(2) rv om]) (assumption, erule that, blast+)
    moreover have "guard (snd (endpoint_step D x ep)) = g" using step_guard [OF st [unfolded x']] om st by simp
    ultimately show ?thesis unfolding recorded_def using F(3) by blast
  qed (use step_guard [of D _ _ _ _ ep out ep'] st F in \<open>auto simp: recorded_def simp del: endpoint_step.simps\<close>)
qed

lemma run_recorded:
  assumes "finite K" "card K \<le> MAX_TRACKED_SENDERS" and "recorded K key c ep" and "\<forall>x \<in> set xs. known_senders K x"
  shows "recorded K key c (snd (run_ops (endpoint_step D) xs ep))"
  using assms(3,4)
proof (induction xs arbitrary: ep)
  case (Cons x xs)
  then show ?case unfolding run_ops_Cons using step_recorded [OF assms(1,2)] by simp
qed simp

lemma first_recorded:
  assumes F: "guard_models (guard ep) F" and K: "finite K" "card K \<le> MAX_TRACKED_SENDERS"
    and x: "known_senders K (DoAccept e rv, en, now, ex)"
    and om: "open_message D (identity_sk ep) e rv (guard ep) now = (Ok m, g)" and dom: "dom (hm_get (guard ep)) \<subseteq> K"
  shows "recorded K (om_sender m, om_sender_epoch m) (unat (om_counter m))
    (snd (endpoint_step D (DoAccept e rv, en, now, ex) ep))"
proof -
  obtain out ep' where st: "endpoint_step D (DoAccept e rv, en, now, ex) ep = (out, ep')" by fastforce
  have rv: "\<And>s n. rv s n \<noteq> None \<Longrightarrow> (s, n) \<in> K" using x by simp
  obtain F' where "guard_models g F'" "dom (hm_get g) \<subseteq> K" "unat (om_counter m) \<in> F' (om_sender m, om_sender_epoch m)"
    by (rule guard_admits [OF F K dom rv om]) (assumption, erule that, blast+)
  then show ?thesis using step_guard [OF st] om st by (auto simp: recorded_def)
qed

lemma recorded_dropped:
  assumes om: "open_message D (identity_sk ep) e rv g now = (Ok m, g')"
    and r: "recorded K (om_sender m, om_sender_epoch m) (unat (om_counter m)) ep1" and sk: "identity_sk ep1 = identity_sk ep"
  shows "\<exists>cause ep2. accept D en' e rv now' ep1 = (Ok (Dropped cause), ep2) \<and>
    cause \<in> {Replay, TtlTooLong, Expired} \<and> sessions ep2 = sessions ep1 \<and> send_counter ep2 = send_counter ep1"
proof -
  obtain shape inner where oi: "open_inner D (identity_sk ep) e rv now = Ok (shape, inner)"
    and m: "om_sender m = env_sender e" "om_sender_epoch m = env_sender_epoch e" "om_counter m = im_counter inner"
    by (rule open_message_OkE [OF om]) (metis opened_message.select_convs(4-6))
  obtain F where "guard_models (guard ep1) F" "unat (im_counter inner) \<in> F (env_sender e, env_sender_epoch e)"
    using r m by (auto simp: recorded_def)
  from open_message_recorded [OF oi this, of now'] show ?thesis using sk
    by (cases "open_message D (identity_sk ep1) e rv (guard ep1) now'") (auto simp: accept_def)
qed

end

section \<open>Properties\<close>

text \<open>
  C14: the bound on streams and on memory. Whatever calls are made and whatever envelopes arrive,
  an endpoint never holds more live streams than its cap, never tracks more senders than the
  anti-replay cap, and no call panics.
\<close>
theorem endpoint_bounded:
  assumes "sealing D"
    and "ep = snd (run_ops (endpoint_step D) calls (with_max_concurrent cap (endpoint_new sk did epoch peer pub mt)))"
  shows "stream_count ep \<le> cap \<and> tracked_senders (guard ep) \<le> MAX_TRACKED_SENDERS \<and>
    \<not> crashed (fst (endpoint_step D x ep))"
proof -
  let ?ep0 = "with_max_concurrent cap (endpoint_new sk did epoch peer pub mt)"
  have "endpoint_ok ?ep0"
    using endpoint_ok_new [of sk did epoch peer pub mt]
    by (simp add: endpoint_ok_def with_max_concurrent_def endpoint_new_def stream_count_def)
  then have ok: "endpoint_ok ep"
    unfolding assms(2) by (rule sealing.endpoint_run_ok [OF assms(1)])
  have "same_config ?ep0 ep"
    unfolding assms(2) by (rule config.run_invariant) simp
  then have "max_concurrent ep = cap" by (simp add: same_config_def with_max_concurrent_def)
  then show ?thesis
    using ok guard_modelsD(2) sealing.endpoint_no_panic [OF assms(1) ok]
    by (auto simp: endpoint_ok_def tracked_senders_def)
qed

theorem endpoint_bounded_witness:
  "stream_count (snd (run_ops (endpoint_step sum_deps) [(DoOpen sample_cid 4, sample_entropy, 1000, 5000)]
     (with_max_concurrent 1 (endpoint_new 3 (array_of_byte 1) 0 (array_of_byte 2) (array_of_byte 5) 0x100)))) \<le> 1"
  using endpoint_bounded [OF sum.sealing_axioms refl] by blast

text \<open>
  C11: when a RESET is transmitted. Only for a frame that opened and verified, from this
  endpoint's peer, of a known kind other than RESET, which names a live stream or is an OPEN at
  the cap; the stream is gone afterwards, every other stream is as it was, one counter is
  spent, and the RESET names the stream of the frame.
\<close>
theorem reset_only_for_peer_violation:
  assumes "accept D en e rv now ep = (Ok (ResetWith f c), ep')"
  shows "\<exists>m g hdr frame. open_message D (identity_sk ep) e rv (guard ep) now = (Ok m, g) \<and>
    om_sender m = peer_did ep \<and> env_stream e = Some hdr \<and> frame_from_u8 (hdr_frame hdr) = Some frame \<and>
    frame \<noteq> Reset \<and>
    (session (env_correlation_id e) ep \<noteq> None \<or> frame = Open \<and> max_concurrent ep \<le> stream_count ep) \<and>
    session (env_correlation_id e) ep' = None \<and>
    (\<forall>k. k \<noteq> env_correlation_id e \<longrightarrow> session k ep' = session k ep) \<and>
    send_counter ep' = send_counter ep + 1 \<and>
    env_stream f = Some (header Reset 0 0) \<and> env_correlation_id f = env_correlation_id e"
proof -
  obtain m g where om: "open_message D (identity_sk ep) e rv (guard ep) now = (Ok m, g)"
    and ao: "accept_opened D en e m now (ep\<lparr>guard := g\<rparr>) = (Ok (ResetWith f c), ep')"
    using assms by (auto simp: accept_def Let_def split: prod.splits result.splits)
  from ao show ?thesis
  proof (rule accept_opened_ResetWith)
    fix hdr frame t
    assume a: "om_sender m = peer_did (ep\<lparr>guard := g\<rparr>)" "env_stream e = Some hdr"
        "frame_from_u8 (hdr_frame hdr) = Some frame" "frame \<noteq> Reset"
        "session (env_correlation_id e) (ep\<lparr>guard := g\<rparr>) \<noteq> None \<or>
           frame = Open \<and> max_concurrent (ep\<lparr>guard := g\<rparr>) \<le> stream_count (ep\<lparr>guard := g\<rparr>)"
      and sf: "seal_frame D en (env_correlation_id e) (header Reset 0 0) [] now 0 (ep\<lparr>guard := g, sessions := t\<rparr>)
          = (Ok f, ep')"
      and t: "\<And>k. hm_get t k = (if k = env_correlation_id e then None else hm_get (sessions (ep\<lparr>guard := g\<rparr>)) k)"
    have ep': "ep' = ep\<lparr>guard := g, sessions := t, send_counter := send_counter ep + 1\<rparr>"
      using sf by (simp add: seal_frame_def Let_def)
    show ?thesis
      using om a t seal_frame_fields(1,2) [OF sf] by (auto simp: ep' session_def stream_count_def)
  qed
qed

theorem reset_only_for_peer_violation_witness:
  "\<exists>e f c ep'. accept sum_deps sample_entropy e sample_resolver 2000 (bob\<lparr>max_concurrent := 0\<rparr>)
       = (Ok (ResetWith f c), ep') \<and> env_stream f = Some (header Reset 0 0)"
proof (rule sample_reset)
  fix e f c ep'
  assume r: "accept sum_deps sample_entropy e sample_resolver 2000 (bob\<lparr>max_concurrent := 0\<rparr>)
    = (Ok (ResetWith f c), ep')"
  with reset_only_for_peer_violation [OF r] show ?thesis by blast
qed

text \<open>
  C12: a RESET never begets a RESET. Whoever receives an envelope that an endpoint sent as a
  RESET response, in whatever state, answers with nothing: the receiver reports that its stream
  was reset or drops the frame, and spends no counter.
\<close>
theorem reset_never_answered:
  assumes "accept D en e rv now ep = (Ok (ResetWith f c), ep1)"
    and "accept D2 en2 f rv2 now2 ep2 = (Ok a, ep2')"
  shows "(a = Event EvPeerReset \<or> (\<exists>cause. a = Dropped cause)) \<and> send_counter ep2' = send_counter ep2"
proof -
  obtain g m where "accept_opened D en e m now (ep\<lparr>guard := g\<rparr>) = (Ok (ResetWith f c), ep1)"
    using assms(1) by (auto simp: accept_def Let_def split: prod.splits result.splits)
  then obtain ep0 where "seal_frame D en (env_correlation_id e) (header Reset 0 0) [] now 0 ep0 = (Ok f, ep1)"
    by (rule accept_opened_ResetWith) blast
  then have st: "env_stream f = Some (header Reset 0 0)" by (rule seal_frame_fields)
  note r = accept_opened_on_reset [OF st frame_of_header]
  obtain o2 g2 where om: "open_message D2 (identity_sk ep2) f rv2 (guard ep2) now2 = (o2, g2)" by fastforce
  show ?thesis
  proof (cases o2)
    case (Ok m2)
    then have "accept_opened D2 en2 f m2 now2 (ep2\<lparr>guard := g2\<rparr>) = (Ok a, ep2')"
      using assms(2) om by (simp add: accept_def)
    then show ?thesis
      using r(1) [of D2 en2 m2 now2 "ep2\<lparr>guard := g2\<rparr>"] r(2) [of D2 en2 m2 now2 "ep2\<lparr>guard := g2\<rparr>"] by auto
  qed (use assms(2) om in \<open>auto simp: accept_def\<close>)
qed

theorem reset_never_answered_witness:
  "\<exists>f c ep1 e. accept sum_deps sample_entropy e sample_resolver 2000 (bob\<lparr>max_concurrent := 0\<rparr>)
       = (Ok (ResetWith f c), ep1) \<and>
     (\<forall>a ep2'. accept sum_deps sample_entropy f (\<lambda>_ _. Some (array_of_byte 5)) 2000 alice = (Ok a, ep2') \<longrightarrow>
        a = Event EvPeerReset \<or> (\<exists>cause. a = Dropped cause))"
proof (rule sample_reset)
  fix e f c ep'
  assume r: "accept sum_deps sample_entropy e sample_resolver 2000 (bob\<lparr>max_concurrent := 0\<rparr>)
    = (Ok (ResetWith f c), ep')"
  with reset_never_answered [OF r] show ?thesis by blast
qed


text \<open>
  A dropped frame is harmless. Whenever \<open>accept\<close> drops a frame, every stream is exactly as it
  was, nothing is sealed and no counter is spent.
\<close>
theorem dropped_frame_harmless:
  assumes "accept D en e rv now ep = (Ok (Dropped cause), ep')"
  shows "sessions ep' = sessions ep \<and> send_counter ep' = send_counter ep \<and> same_config ep ep'"
proof -
  obtain r g where om: "open_message D (identity_sk ep) e rv (guard ep) now = (r, g)" by fastforce
  show ?thesis
  proof (cases r)
    case (Ok m)
    then have "accept_opened D en e m now (ep\<lparr>guard := g\<rparr>) = (Ok (Dropped cause), ep')"
      using assms om by (simp add: accept_def)
    then have "ep' = ep\<lparr>guard := g\<rparr>" by (rule accept_opened_Dropped)
    then show ?thesis by simp
  qed (use assms om in \<open>auto simp: accept_def\<close>)
qed

theorem dropped_frame_harmless_witness:
  "\<forall>e. \<exists>cause ep'. accept sum_deps sample_entropy e (\<lambda>_ _. None) 2000 bob_streaming = (Ok (Dropped cause), ep') \<and>
     sessions ep' = sessions bob_streaming"
proof
  fix e :: dig_message_envelope
  obtain s where "from_flags (env_flags e) = Some s" using from_flags_total by blast
  then obtain ep' where d: "accept sum_deps sample_entropy e (\<lambda>_ _. None) 2000 bob_streaming
      = (Ok (Dropped UnresolvableSender), ep')"
    by (simp add: accept_def open_message_def open_inner_def)
  from dropped_frame_harmless [OF d] d
  show "\<exists>cause ep'. accept sum_deps sample_entropy e (\<lambda>_ _. None) 2000 bob_streaming = (Ok (Dropped cause), ep') \<and>
     sessions ep' = sessions bob_streaming" by blast
qed

text \<open>
  C17: a replayed frame never tears down a stream. As long as the resolvers know no more senders and
  epochs than the anti-replay table holds, a frame that opened once is dropped as a replay or for
  its times when it is handed over again, after any calls of the endpoint in between, arrivals of
  any envelopes included, at any clock; every stream and the send counter stay as they are.
\<close>
theorem replayed_frame_dropped:
  assumes "sealing D" and "guard_models (guard ep) F"
    and "finite K" "card K \<le> MAX_TRACKED_SENDERS" "dom (hm_get (guard ep)) \<subseteq> K"
    and "\<forall>x \<in> set ((DoAccept e rv, en, now, ex) # calls). known_senders K x"
    and "fst (open_message D (identity_sk ep) e rv (guard ep) now) = Ok m"
    and "ep1 = snd (run_ops (endpoint_step D) ((DoAccept e rv, en, now, ex) # calls) ep)"
  shows "\<exists>cause ep2. accept D en' e rv now' ep1 = (Ok (Dropped cause), ep2) \<and>
    cause \<in> {Replay, TtlTooLong, Expired} \<and> sessions ep2 = sessions ep1 \<and> send_counter ep2 = send_counter ep1"
proof -
  let ?key = "(om_sender m, om_sender_epoch m)" and ?x = "(DoAccept e rv, en, now, ex)"
  obtain g where om: "open_message D (identity_sk ep) e rv (guard ep) now = (Ok m, g)"
    using assms(7) by (cases "open_message D (identity_sk ep) e rv (guard ep) now") auto
  have "recorded K ?key (unat (om_counter m)) (snd (endpoint_step D ?x ep))"
    by (rule sealing.first_recorded [OF assms(1-4) _ om assms(5)]) (use assms(6) in simp)
  then have "recorded K ?key (unat (om_counter m)) ep1"
    unfolding assms(8) run_ops_Cons by (rule sealing.run_recorded [OF assms(1,3,4)]) (use assms(6) in simp)
  moreover have "same_config ep ep1" unfolding assms(8) by (rule config.run_invariant) (simp add: same_config_def)
  ultimately show ?thesis using sealing.recorded_dropped [OF assms(1) om] by (simp add: same_config_def)
qed

theorem replayed_frame_dropped_witness:
  "\<exists>e ep1 cause ep2. ep1 = snd (run_ops (endpoint_step sum_deps)
       [(DoAccept e sample_resolver, sample_entropy, 2000, 0), (DoClose sample_cid, sample_entropy, 2000, 5000),
        (DoAccept e sample_resolver, sample_entropy, 2001, 0)] (bob\<lparr>max_concurrent := 64\<rparr>)) \<and>
     accept sum_deps sample_entropy e sample_resolver 2002 ep1 = (Ok (Dropped cause), ep2) \<and>
     cause \<in> {Replay, TtlTooLong, Expired} \<and> sessions ep2 = sessions ep1"
proof (rule sample_open_arrives [where cap = 64])
  fix e g F m
  assume "open_message sum_deps 5 e sample_resolver guard_new 2000 = (Ok m, g)"
  then have o': "fst (open_message sum_deps (identity_sk (bob\<lparr>max_concurrent := 64\<rparr>)) e sample_resolver
      (guard (bob\<lparr>max_concurrent := 64\<rparr>)) 2000) = Ok m" by simp
  let ?K = "{(array_of_byte 1, 0)} :: sender_key set"
  have g: "guard_models (guard (bob\<lparr>max_concurrent := 64\<rparr>)) (\<lambda>_. {})" "dom (hm_get (guard (bob\<lparr>max_concurrent := 64\<rparr>))) \<subseteq> ?K"
    by (auto simp: bob_def endpoint_new_def guard_new_def guard_models_new [unfolded guard_new_def] dom_def)
  have k: "known_senders ?K (DoAccept e sample_resolver, sample_entropy, n, 0)" for n
    by (simp add: sample_resolver_def)
  have calls: "\<forall>x \<in> set [(DoAccept e sample_resolver, sample_entropy, 2000, 0), (DoClose sample_cid, sample_entropy, 2000, 5000),
      (DoAccept e sample_resolver, sample_entropy, 2001, 0)]. known_senders ?K x"
    using k by (simp del: known_senders.simps(1))
  have size: "card ?K \<le> MAX_TRACKED_SENDERS" by (simp add: const_defs)
  from replayed_frame_dropped [OF sum.sealing_axioms g(1) _ size g(2) calls o' refl, where en' = sample_entropy and now' = 2002]
  show ?thesis by blast
qed

text \<open>
  C18: anti-replay counters are never reused. In a run of fewer than \<open>2 ^ 64\<close> calls, the envelopes
  an endpoint hands to the transport are sealed under its own identity with strictly increasing
  counters.
\<close>
theorem counters_never_reused:
  assumes "unat (send_counter ep) + length calls < 2 ^ 64"
  shows "\<exists>cs. list_all2 (sealed_by D ep) cs
      (concat (map transmitted (fst (run_ops (endpoint_step D) calls ep)))) \<and>
    sorted_wrt (<) cs \<and> (\<forall>c \<in> set cs. send_counter ep \<le> c)"
  by (rule run_counted [OF assms])

theorem counters_never_reused_witness:
  "\<exists>cs. list_all2 (sealed_by sum_deps alice) cs (concat (map transmitted (fst (run_ops (endpoint_step sum_deps)
      [(DoOpen sample_cid 4, sample_entropy, 1000, 5000), (DoReset sample_cid, sample_entropy, 1001, 5000)] alice)))) \<and>
    sorted_wrt (<) cs"
  using counters_never_reused [where ep = alice and D = sum_deps and
      calls = "[(DoOpen sample_cid 4, sample_entropy, 1000, 5000), (DoReset sample_cid, sample_entropy, 1001, 5000)]"]
  by auto

text \<open>
  C13: the endpoint implements the session-level routing. A frame that one endpoint sealed and a
  listening one received in time takes the session it names exactly where the pure state
  machine takes it, leaves every other stream alone, and is reported as the state machine
  classifies it, with the sender's payload.
\<close>
theorem accept_refines_routing:
  assumes "sealing D" and "listens D rv A B" and "guard_models (guard B) F"
    and "seal_frame D en cid (header f seq win) d sent_ms ex A = (Ok e, A')" and "timely sent_ms ex now"
    and "accepts (F (local_did A, local_epoch A)) (unat (send_counter A))"
    and "length d \<le> MAX_DECOMPRESSED_BYTES" and "f = Open \<Longrightarrow> stream_count B < max_concurrent B"
    and "route_frame (header f seq win) (session cid B) = (r, S)"
  shows "outcome_of r d (fst (accept D en' e rv now B)) \<and>
    (\<forall>k. session k (snd (accept D en' e rv now B)) = (if k = cid then S else session k B))"
  by (rule sealing.accept_routes [OF assms])

theorem accept_refines_routing_witness:
  "\<exists>e. fst (endpoint_open sum_deps sample_entropy sample_cid 4 1000 5000 alice) = Ok e \<and>
     fst (accept sum_deps sample_entropy e sample_resolver 2000 (bob\<lparr>max_concurrent := 64\<rparr>)) = Ok (Event EvOpened)"
proof (rule sample_open_call)
  fix e
  assume o': "endpoint_open sum_deps sample_entropy sample_cid 4 1000 5000 alice
     = (Ok e, alice\<lparr>sessions := hm_insert sample_cid (initiator 4) hm_new, send_counter := 1\<rparr>)"
   and sf: "seal_frame sum_deps sample_entropy sample_cid (header Open 0 4) [] 1000 5000
       (alice\<lparr>sessions := hm_insert sample_cid (initiator 4) hm_new\<rparr>)
      = (Ok e, alice\<lparr>sessions := hm_insert sample_cid (initiator 4) hm_new, send_counter := 1\<rparr>)"
  have g: "guard_models (guard (bob\<lparr>max_concurrent := 64\<rparr>)) (\<lambda>_. {})" by simp
  have rt: "route_frame (header Open 0 4) (session sample_cid (bob\<lparr>max_concurrent := 64\<rparr>)) = (Opened, Some (responder 4))"
    by (simp add: route_frame_def session_def)
  show ?thesis
    using accept_refines_routing [OF sum.sealing_axioms sample_listens(2) g sf sample_timely _ _ _ rt,
        of sample_entropy] o'
    by (simp add: stream_count_def)
qed

text \<open>
  Data crosses the wire. When one endpoint sends a chunk on a stream whose other end is in
  step (the same next number, window left, the peer's half not closed), the listening endpoint
  delivers exactly that chunk, counts it, and takes one from its window.
\<close>
theorem send_data_delivered:
  assumes "sealing D" and "listens D rv A B" and "guard_models (guard B) F"
    and "send_data D en cid d sent_ms ex A = (Ok e, A')" and "timely sent_ms ex now"
    and "accepts (F (local_did A, local_epoch A)) (unat (send_counter A))"
    and "length d \<le> MAX_DECOMPRESSED_BYTES"
    and "session cid A = Some s" and "session cid B = Some t"
    and "ss_handshake t = HsEstablished" "\<not> ss_reset t" "\<not> ss_remote_closed t"
      "ss_recv_seq t = ss_send_seq s" "ss_recv_window_remaining t \<noteq> 0"
  shows "\<exists>B'. accept D en' e rv now B = (Ok (Event (EvData d)), B') \<and>
    session cid B' = Some (t\<lparr>ss_recv_window_remaining := ss_recv_window_remaining t - 1,
      ss_recv_seq := ss_recv_seq t + 1\<rparr>) \<and>
    (\<forall>k. k \<noteq> cid \<longrightarrow> session k B' = session k B)"
proof -
  obtain h s' where bd: "build_data s = (Ok h, s')"
    and sf: "seal_frame D en cid h d sent_ms ex (A\<lparr>sessions := hm_insert cid s' (sessions A)\<rparr>) = (Ok e, A')"
    using assms(4,8)
    by (auto simp: send_data_def and_then_st_Ok_iff on_session_def session_mut_def session_def
        split: prod.splits)
  have h: "h = header Data (ss_send_seq s) 0" using bd by (auto simp: build_data_def Let_def split: if_splits)
  let ?t = "t\<lparr>ss_recv_window_remaining := ss_recv_window_remaining t - 1, ss_recv_seq := ss_recv_seq t + 1\<rparr>"
  have rt: "route_frame (header Data (ss_send_seq s) 0) (session cid B) = (Happened AccData, Some ?t)"
    using assms(9-14) by (simp add: route_frame_def on_recv_def retain_def is_closed_iff)
  have li: "listens D rv (A\<lparr>sessions := hm_insert cid s' (sessions A)\<rparr>) B"
    using assms(2) by (simp add: listens_def)
  show ?thesis
    using sealing.accept_routes [OF assms(1) li assms(3) sf [unfolded h] assms(5) _ assms(7) _ rt, of en'] assms(6)
    by (cases "accept D en' e rv now B") simp
qed

theorem send_data_delivered_witness:
  "\<exists>e A' B'. send_data sum_deps sample_entropy sample_cid [1, 2, 3] 1000 5000 alice_streaming = (Ok e, A') \<and>
     accept sum_deps sample_entropy e sample_resolver 2000 bob_streaming = (Ok (Event (EvData [1, 2, 3])), B')"
proof -
  let ?s = "(initiator 4)\<lparr>ss_handshake := HsEstablished, ss_send_credit := 2\<rparr>"
  let ?t = "(responder 4)\<lparr>ss_handshake := HsEstablished, ss_recv_window_remaining := 2\<rparr>"
  have s: "session sample_cid alice_streaming = Some ?s" "session sample_cid bob_streaming = Some ?t"
    by (simp_all add: alice_streaming_def bob_streaming_def session_def)
  have "\<exists>e A'. send_data sum_deps sample_entropy sample_cid [1, 2, 3] 1000 5000 alice_streaming = (Ok e, A')"
    using sum_seal_frame [of "[1, 2, 3]" "alice\<lparr>sessions := m\<rparr>" 5 for m]
    by (simp add: send_data_def on_session_def session_mut_def alice_streaming_def build_data_def
        initiator_def) blast
  then obtain e A' where e: "send_data sum_deps sample_entropy sample_cid [1, 2, 3] 1000 5000 alice_streaming = (Ok e, A')"
    by blast
  have li: "listens sum_deps sample_resolver alice_streaming bob_streaming"
    by (simp add: alice_streaming_def bob_streaming_def)
  have g: "guard_models (guard bob_streaming) (\<lambda>_. {})" by (simp add: bob_streaming_def)
  show ?thesis
    using send_data_delivered [OF sum.sealing_axioms li g e sample_timely _ _ s, of sample_entropy] e
    by (auto simp: responder_def initiator_def const_defs)
qed


text \<open>
  Events come from the peer only. Whatever the resolver knows, an event is reported only for
  a frame that opened and verified, whose authenticated sender is the endpoint's peer, and which
  is a stream frame with a header.
\<close>
theorem events_only_from_peer:
  assumes "accept D en e rv now ep = (Ok (Event v), ep')"
  shows "\<exists>m g hdr. open_message D (identity_sk ep) e rv (guard ep) now = (Ok m, g) \<and> guard ep' = g \<and>
    om_sender m = peer_did ep \<and> om_shape m = StreamFrame \<and> env_stream e = Some hdr \<and>
    frame_from_u8 (hdr_frame hdr) \<noteq> None"
proof -
  obtain m g where om: "open_message D (identity_sk ep) e rv (guard ep) now = (Ok m, g)"
    and ao: "accept_opened D en e m now (ep\<lparr>guard := g\<rparr>) = (Ok (Event v), ep')"
    using assms by (auto simp: accept_def Let_def split: prod.splits result.splits)
  have "guard ep' = g" using accept_opened_keeps(1) [of D en e m now "ep\<lparr>guard := g\<rparr>"] ao by simp
  moreover have "om_sender m = peer_did ep \<and> om_shape m = StreamFrame \<and>
      (\<exists>hdr. env_stream e = Some hdr \<and> frame_from_u8 (hdr_frame hdr) \<noteq> None)"
    using ao by (auto simp: accept_opened_def Let_def split: if_splits option.splits)
  ultimately show ?thesis using om by blast
qed

theorem events_only_from_peer_witness:
  "\<exists>e v ep'. accept sum_deps sample_entropy e sample_resolver 2000 (bob\<lparr>max_concurrent := 64\<rparr>) = (Ok (Event v), ep') \<and>
     (\<exists>m g. open_message sum_deps 5 e sample_resolver guard_new 2000 = (Ok m, g) \<and> om_sender m = array_of_byte 1)"
proof (rule sample_open_arrives [where cap = 64])
  fix e g F m
  assume a: "accept sum_deps sample_entropy e sample_resolver 2000 (bob\<lparr>max_concurrent := 64\<rparr>)
      = accept_opened sum_deps sample_entropy e m 2000 (bob\<lparr>max_concurrent := 64, guard := g\<rparr>)"
    and m: "om_sender m = array_of_byte 1" "om_shape m = StreamFrame"
      "env_stream e = Some (header Open 0 4)" "env_correlation_id e = sample_cid"
  then obtain ep' where r: "accept sum_deps sample_entropy e sample_resolver 2000 (bob\<lparr>max_concurrent := 64\<rparr>)
      = (Ok (Event EvOpened), ep')"
    by (simp add: accept_opened_def accept_open_def hm_remove_absent)
  with events_only_from_peer [OF r] show ?thesis by auto
qed

text \<open>
  C38: a send that fails to seal loses its number. If the entropy source fails, \<open>send_data\<close> reports
  the error but has already spent one credit and one number of the session, so the next chunk
  arrives at the peer with a gap and is refused, which ends the stream.
\<close>
theorem failed_send_leaves_gap:
  assumes "session cid ep = Some s" and "ss_handshake s = HsEstablished" "\<not> ss_local_closed s" "ss_send_credit s \<noteq> 0"
    and "ss_handshake t = HsEstablished" "\<not> ss_reset t" "\<not> ss_remote_closed t" "ss_recv_seq t = ss_send_seq s"
  shows "\<exists>ep' s'. send_data D (Inl x) cid d now ex ep = (Err (SealFailed (''ephemeral key entropy: '' @ x)), ep') \<and>
    session cid ep' = Some s' \<and> ss_send_seq s' = ss_send_seq s + 1 \<and>
    ss_send_credit s' = ss_send_credit s - 1 \<and>
    route_frame (header Data (ss_send_seq s') 0) (Some t)
      = (Violation (StreamProtocol ''out-of-order / gap / replayed DATA seq''), None)"
proof -
  let ?s = "s\<lparr>ss_send_credit := ss_send_credit s - 1, ss_send_seq := ss_send_seq s + 1\<rparr>"
  let ?ep = "ep\<lparr>sessions := hm_insert cid ?s (sessions ep)\<rparr>"
  have "send_data D (Inl x) cid d now ex ep = (Err (SealFailed (''ephemeral key entropy: '' @ x)),
      ?ep\<lparr>send_counter := send_counter ep + 1\<rparr>)"
    using assms(1-4)
    by (simp add: send_data_def on_session_def session_mut_def session_def build_data_def seal_frame_def
        seal_message_def random_ephemeral_def Let_def)
  moreover have "route_frame (header Data (ss_send_seq s + 1) 0) (Some t)
      = (Violation (StreamProtocol ''out-of-order / gap / replayed DATA seq''), None)"
    using assms(5-8) by (simp add: route_frame_def on_recv_def)
  ultimately show ?thesis
    by (intro exI [of _ "?ep\<lparr>send_counter := send_counter ep + 1\<rparr>"] exI [of _ ?s]) (simp add: session_def)
qed

theorem failed_send_leaves_gap_witness:
  "\<exists>ep' s'. send_data sum_deps (Inl ''no entropy'') sample_cid [1] 1000 0 alice_streaming
       = (Err (SealFailed ''ephemeral key entropy: no entropy''), ep') \<and>
     session sample_cid ep' = Some s' \<and> ss_send_seq s' = 1"
proof -
  let ?s = "(initiator 4)\<lparr>ss_handshake := HsEstablished, ss_send_credit := 2\<rparr>"
  let ?t = "(responder 4)\<lparr>ss_handshake := HsEstablished, ss_recv_window_remaining := 2\<rparr>"
  have s: "session sample_cid alice_streaming = Some ?s" by (simp add: alice_streaming_def session_def)
  show ?thesis
    using failed_send_leaves_gap [OF s, of ?t sum_deps "''no entropy''" "[1]" 1000 0]
    by (simp add: session_fresh) blast
qed

end
