(* ===== verification/Stream_Pair.thy ===== *)
theory Stream_Pair
  imports Stream_Session "HOL-Library.Sublist"
begin

text \<open>
  Two sessions of \<open>src/stream.rs\<close> at the ends of one stream, connected by two ordered lossless
  channels (what the transport under the crate provides): the initiator has sent OPEN, and from
  then on either side sends and receives in any order. The states are reached by an inductive
  step relation over the session operations; the invariant gives that no frame of an honest peer
  is refused, and that data arrives unchanged, in order and without loss.
\<close>

section \<open>The system\<close>

datatype side = Ini | Rsp

fun peer :: "side \<Rightarrow> side" where
  "peer Ini = Rsp"
| "peer Rsp = Ini"

lemma peer_peer [simp]: "peer (peer x) = x"
  by (cases x) simp_all

lemma peer_neq [simp]: "peer x \<noteq> x" "x \<noteq> peer x"
  by (cases x; simp)+

type_synonym wire = "stream_header \<times> bytes"

record pair_state =
  sess :: "side \<Rightarrow> stream_session option"
  chan :: "side \<Rightarrow> wire list" \<comment> \<open>frames on the way from this side, the oldest first\<close>
  submitted :: "side \<Rightarrow> bytes list" \<comment> \<open>payloads this side sent\<close>
  delivered :: "side \<Rightarrow> bytes list" \<comment> \<open>payloads this side received\<close>
  violated :: bool \<comment> \<open>a frame was refused\<close>

definition pair_init :: "u32 \<Rightarrow> pair_state" where
  "pair_init w = \<lparr>sess = (\<lambda>x. if x = Ini then Some (initiator w) else None),
     chan = (\<lambda>x. if x = Ini then [(header Open 0 w, [])] else []),
     submitted = (\<lambda>_. []), delivered = (\<lambda>_. []), violated = False\<rparr>"

definition transmit :: "side \<Rightarrow> wire \<Rightarrow> stream_session option \<Rightarrow> pair_state \<Rightarrow> pair_state" where
  "transmit x m S p = p\<lparr>sess := (sess p)(x := S), chan := (chan p)(x := chan p x @ [m])\<rparr>"

definition receive :: "side \<Rightarrow> wire \<Rightarrow> wire list \<Rightarrow> pair_state \<Rightarrow> pair_state" where
  "receive x m q p =
     (case route_frame (fst m) (sess p (peer x)) of (r, S) \<Rightarrow>
        p\<lparr>sess := (sess p)(peer x := S), chan := (chan p)(x := q),
          delivered := (delivered p)(peer x := delivered p (peer x) @ (if r = Happened AccData then [snd m] else [])),
          violated := violated p \<or> (\<exists>e. r = Violation e)\<rparr>)"

text \<open>
  Honest behaviour: a side uses its session's operations, closes only an established stream, and
  never has more than \<open>2 ^ 64 - 1\<close> credits outstanding.
\<close>

inductive pair_step :: "pair_state \<Rightarrow> pair_state \<Rightarrow> bool" where
  open_ack: "sess p x = Some s \<Longrightarrow> build_open_ack w s = (Ok h, s') \<Longrightarrow>
    pair_step p (transmit x (h, []) (Some s') p)"
| data: "sess p x = Some s \<Longrightarrow> build_data s = (Ok h, s') \<Longrightarrow>
    pair_step p ((transmit x (h, d) (Some s') p)\<lparr>submitted := (submitted p)(x := submitted p x @ [d])\<rparr>)"
| credit: "sess p x = Some s \<Longrightarrow> build_credit n s = (Ok h, s') \<Longrightarrow>
    unat (ss_recv_window_remaining s) + unat n < 2 ^ 64 \<Longrightarrow>
    pair_step p (transmit x (h, []) (Some s') p)"
| close: "sess p x = Some s \<Longrightarrow> build_close s = (Ok h, s') \<Longrightarrow> ss_handshake s = HsEstablished \<Longrightarrow>
    pair_step p (transmit x (h, []) (retain s') p)"
| reset: "sess p x = Some s \<Longrightarrow> build_reset s = (h, s') \<Longrightarrow>
    pair_step p (transmit x (h, []) None p)"
| deliver: "chan p x = m # q \<Longrightarrow> pair_step p (receive x m q p)"

inductive pair_reachable :: "u32 \<Rightarrow> pair_state \<Rightarrow> bool" for w where
  start: "pair_reachable w (pair_init w)"
| step: "pair_reachable w p \<Longrightarrow> pair_step p p' \<Longrightarrow> pair_reachable w p'"

section \<open>One direction\<close>

definition frame_kind :: "wire \<Rightarrow> stream_frame option" where
  "frame_kind m = frame_from_u8 (hdr_frame (fst m))"

definition is_data :: "wire \<Rightarrow> bool" where
  "is_data m \<longleftrightarrow> frame_kind m = Some Data"

definition payloads :: "wire list \<Rightarrow> bytes list" where
  "payloads q = map snd (filter is_data q)"

definition data_seqs :: "wire list \<Rightarrow> u64 list" where
  "data_seqs q = map (\<lambda>m. hdr_seq (fst m)) (filter is_data q)"

definition frame_credit :: "wire \<Rightarrow> nat" where
  "frame_credit m =
     (if frame_kind m \<in> {Some Open, Some OpenAck, Some Credit} then unat (hdr_window (fst m)) else 0)"

definition credits :: "wire list \<Rightarrow> nat" where
  "credits q = sum_list (map frame_credit q)"

definition has_close :: "wire list \<Rightarrow> bool" where
  "has_close q \<longleftrightarrow> (\<exists>m \<in> set q. frame_kind m = Some Close)"

text \<open>Nothing but credit and reset follows a CLOSE.\<close>

fun closes_ok :: "bool \<Rightarrow> wire list \<Rightarrow> bool" where
  "closes_ok c [] \<longleftrightarrow> True"
| "closes_ok c (m # q) \<longleftrightarrow>
     (if frame_kind m \<in> {Some Data, Some Close} then \<not> c \<and> closes_ok (frame_kind m = Some Close) q
      else closes_ok c q)"

lemma queue_simps [simp]:
  "payloads [] = []" "data_seqs [] = []" "credits [] = 0" "\<not> has_close []"
  "payloads (m # q) = (if is_data m then snd m # payloads q else payloads q)"
  "data_seqs (m # q) = (if is_data m then hdr_seq (fst m) # data_seqs q else data_seqs q)"
  "credits (m # q) = frame_credit m + credits q"
  "has_close (m # q) \<longleftrightarrow> frame_kind m = Some Close \<or> has_close q"
  "payloads (q @ q') = payloads q @ payloads q'" "data_seqs (q @ q') = data_seqs q @ data_seqs q'"
  "credits (q @ q') = credits q + credits q'" "has_close (q @ q') \<longleftrightarrow> has_close q \<or> has_close q'"
  by (auto simp: payloads_def data_seqs_def credits_def has_close_def)

lemma closes_ok_snoc [simp]:
  "closes_ok c (q @ [m]) \<longleftrightarrow>
     closes_ok c q \<and> (frame_kind m \<in> {Some Data, Some Close} \<longrightarrow> \<not> c \<and> \<not> has_close q)"
  by (induction q arbitrary: c) auto

lemma kind_header [simp]: "frame_kind (header f s w, d) = Some f"
  by (simp add: frame_kind_def)

lemma header_wire [simp]:
  "is_data (header f s w, d) \<longleftrightarrow> f = Data"
  "frame_credit (header f s w, d) = (if f \<in> {Open, OpenAck, Credit} then unat w else 0)"
  by (auto simp: is_data_def frame_credit_def)

text \<open>
  One direction of the stream: the sender \<open>S\<close>, its channel \<open>q\<close>, the opposite channel \<open>r\<close>, the
  receiver \<open>T\<close>, and the payloads submitted and delivered. While both are live, the credit
  the sender holds, the data on the way and the credit on the way back add up to the window of
  the receiver.
\<close>

definition link_ok ::
    "stream_session option \<Rightarrow> wire list \<Rightarrow> wire list \<Rightarrow> stream_session option \<Rightarrow> bytes list \<Rightarrow> bytes list \<Rightarrow> bool" where
  "link_ok S q r T sub del \<longleftrightarrow>
     (case T of
        None \<Rightarrow> prefix del sub
      | Some t \<Rightarrow>
          del @ payloads q = sub \<and>
          data_seqs q = seqs_from (ss_recv_seq t) (length (payloads q)) \<and>
          closes_ok (ss_remote_closed t) q \<and>
          (case S of
             None \<Rightarrow> length (payloads q) + credits r \<le> unat (ss_recv_window_remaining t)
           | Some s \<Rightarrow>
               unat (ss_send_credit s) + length (payloads q) + credits r = unat (ss_recv_window_remaining t) \<and>
               ss_send_seq s = ss_recv_seq t + of_nat (length (payloads q)) \<and>
               (ss_local_closed s \<longleftrightarrow> ss_remote_closed t \<or> has_close q)))"

lemma link_drop_sender: "link_ok S q r T sub del \<Longrightarrow> link_ok None q r T sub del"
  by (auto simp: link_ok_def split: option.splits)

lemma link_drop_receiver: "link_ok S q r T sub del \<Longrightarrow> link_ok S q r None sub del"
  by (auto simp: link_ok_def split: option.splits)

lemma link_retain_sender: "link_ok (Some s) q r T sub del \<Longrightarrow> link_ok (retain s) q r T sub del"
  by (simp add: retain_def link_drop_sender)

lemma link_retain_receiver: "link_ok S q r (Some t) sub del \<Longrightarrow> link_ok S q r (retain t) sub del"
  by (auto simp: retain_def intro: link_drop_receiver)

text \<open>The sender of the direction acts: the frame goes on its channel.\<close>

lemma link_send_data:
  assumes "link_ok (Some s) q r T sub del" and "build_data s = (Ok h, s')"
  shows "link_ok (Some s') (q @ [(h, d)]) r T (sub @ [d]) del"
proof -
  have s: "h = header Data (ss_send_seq s) 0" "\<not> ss_local_closed s" "ss_send_credit s \<noteq> 0"
    "s' = s\<lparr>ss_send_credit := ss_send_credit s - 1, ss_send_seq := ss_send_seq s + 1\<rparr>"
    using assms(2) by (auto simp: build_data_def Let_def split: if_splits)
  then have "Suc (unat (ss_send_credit s - 1)) = unat (ss_send_credit s)"
    by (simp add: unat_minus_one unat_gt_0)
  then show ?thesis
    using assms(1) s by (cases T) (auto simp: link_ok_def seqs_from_snoc)
qed

lemma link_send_other:
  assumes "link_ok (Some s) q r T sub del" and "f \<notin> {Data, Close}"
    and "ss_send_credit s' = ss_send_credit s" "ss_send_seq s' = ss_send_seq s" "ss_local_closed s' = ss_local_closed s"
  shows "link_ok (Some s') (q @ [(header f n w, d)]) r T sub del"
  using assms by (cases T) (auto simp: link_ok_def)

lemma link_send_close:
  assumes "link_ok (Some s) q r T sub del" and "build_close s = (Ok h, s')"
  shows "link_ok (Some s') (q @ [(h, d)]) r T sub del"
  using assms by (cases T) (auto simp: link_ok_def build_close_def split: if_splits)

lemma link_send_reset:
  assumes "link_ok (Some s) q r T sub del"
  shows "link_ok None (q @ [(header Reset 0 0, d)]) r T sub del"
  using assms by (cases T) (auto simp: link_ok_def)

text \<open>The receiver of the direction acts: the frame goes on the opposite channel.\<close>

lemma link_back_other:
  assumes "link_ok S q r (Some t) sub del" and "f \<notin> {Open, OpenAck, Credit}"
    and "ss_recv_seq t' = ss_recv_seq t" "ss_remote_closed t' = ss_remote_closed t"
      "ss_recv_window_remaining t' = ss_recv_window_remaining t"
  shows "link_ok S q (r @ [(header f n w, d)]) (Some t') sub del"
  using assms by (cases S) (auto simp: link_ok_def)

lemma link_back_credit:
  assumes "link_ok S q r (Some t) sub del" and "build_credit n t = (Ok h, t')"
    and "unat (ss_recv_window_remaining t) + unat n < 2 ^ 64"
  shows "link_ok S q (r @ [(h, d)]) (Some t') sub del"
  using assms
  by (cases S) (auto simp: link_ok_def build_credit_def unat_saturating_add split: if_splits)

lemma link_back_open_ack:
  assumes "link_ok S q r (Some t) sub del" and "build_open_ack w t = (Ok h, t')"
    and "payloads q = []" "credits r = 0" "\<And>s. S = Some s \<Longrightarrow> ss_send_credit s = 0"
  shows "link_ok S q (r @ [(h, d)]) (Some t') sub del"
  using assms by (cases S) (auto simp: link_ok_def build_open_ack_def split: if_splits)

text \<open>A frame arrives at the receiver of its direction.\<close>

lemma link_deliver_data:
  assumes "link_ok S (m # q) r (Some t) sub del" and "frame_kind m = Some Data"
    and "\<not> ss_reset t" "ss_handshake t = HsEstablished"
  obtains t' where "route_frame (fst m) (Some t) = (Happened AccData, retain t')"
    "t' = t\<lparr>ss_recv_window_remaining := ss_recv_window_remaining t - 1, ss_recv_seq := ss_recv_seq t + 1\<rparr>"
    "link_ok S q r (Some t') sub (del @ [snd m])"
proof
  let ?t = "t\<lparr>ss_recv_window_remaining := ss_recv_window_remaining t - 1, ss_recv_seq := ss_recv_seq t + 1\<rparr>"
  have m: "is_data m" using assms(2) by (simp add: is_data_def)
  have l: "del @ snd m # payloads q = sub" "hdr_seq (fst m) = ss_recv_seq t"
      "data_seqs q = seqs_from (ss_recv_seq t + 1) (length (payloads q))"
      "\<not> ss_remote_closed t" "closes_ok False q" "ss_recv_window_remaining t \<noteq> 0"
    using assms(1,2) m by (auto simp: link_ok_def seqs_from_Suc split: option.splits)
  then have rw: "Suc (unat (ss_recv_window_remaining t - 1)) = unat (ss_recv_window_remaining t)"
    by (simp add: unat_minus_one unat_gt_0)
  show "route_frame (fst m) (Some t) = (Happened AccData, retain ?t)"
    using assms(2-4) l by (simp add: route_frame_def on_recv_def frame_kind_def)
  show "link_ok S q r (Some ?t) sub (del @ [snd m])"
    using assms(1,2) m l rw by (cases S) (auto simp: link_ok_def)
qed simp

lemma link_deliver_close:
  assumes "link_ok S (m # q) r (Some t) sub del" and "frame_kind m = Some Close"
    and "\<not> ss_reset t" "ss_handshake t = HsEstablished"
  shows "route_frame (fst m) (Some t) = (Happened AccRemoteClosed, retain (t\<lparr>ss_remote_closed := True\<rparr>))"
    and "link_ok S q r (Some (t\<lparr>ss_remote_closed := True\<rparr>)) sub del"
proof -
  have "\<not> ss_remote_closed t" "closes_ok True q"
    using assms(1,2) by (auto simp: link_ok_def is_data_def split: option.splits)
  then show "route_frame (fst m) (Some t) = (Happened AccRemoteClosed, retain (t\<lparr>ss_remote_closed := True\<rparr>))"
    "link_ok S q r (Some (t\<lparr>ss_remote_closed := True\<rparr>)) sub del"
    using assms by (auto simp: link_ok_def route_frame_def on_recv_def frame_kind_def is_data_def split: option.splits)
qed

lemma link_deliver_credit:
  assumes "link_ok S (m # q) r (Some t) sub del" and "frame_kind m = Some Credit"
    and "\<not> ss_reset t" "ss_handshake t = HsEstablished"
  shows "route_frame (fst m) (Some t) = (Happened (AccCredit (u64_from (hdr_window (fst m)))),
      retain (t\<lparr>ss_send_credit := saturating_add (ss_send_credit t) (u64_from (hdr_window (fst m)))\<rparr>))"
    and "link_ok S q r (Some (t\<lparr>ss_send_credit := c\<rparr>)) sub del"
  using assms by (auto simp: link_ok_def route_frame_def on_recv_def frame_kind_def is_data_def split: option.splits)

lemma link_deliver_open_ack:
  assumes "link_ok S (m # q) r (Some (initiator w)) sub del" and "frame_kind m = Some OpenAck"
  shows "route_frame (fst m) (Some (initiator w)) = (Happened AccEstablished,
      retain ((initiator w)\<lparr>ss_handshake := HsEstablished, ss_send_credit := u64_from (hdr_window (fst m))\<rparr>))"
    and "link_ok S q r (Some ((initiator w)\<lparr>ss_handshake := HsEstablished, ss_send_credit := c\<rparr>)) sub del"
  using assms
  by (auto simp: link_ok_def route_frame_def on_recv_def frame_kind_def is_data_def initiator_def split: option.splits)

lemma route_reset:
  assumes "frame_kind m = Some Reset"
  shows "route_frame (fst m) T = (if T = None then Ignored else Happened AccReset, None)"
  using assms by (simp add: route_frame_def frame_kind_def)

lemma route_none:
  assumes "frame_kind m = Some f" "f \<noteq> Open"
  shows "route_frame (fst m) None = (Ignored, None)"
  using assms by (simp add: route_frame_def frame_kind_def)

text \<open>The same arrival, for the direction in which the receiver sends.\<close>

lemma link_front_other:
  assumes "link_ok (Some t) r (m # q) T sub del" and "frame_credit m = 0"
    and "ss_send_credit t' = ss_send_credit t" "ss_send_seq t' = ss_send_seq t" "ss_local_closed t' = ss_local_closed t"
  shows "link_ok (Some t') r q T sub del"
  using assms by (cases T) (auto simp: link_ok_def)

lemma link_front_credit:
  assumes "link_ok (Some t) r (m # q) T sub del" and "frame_kind m = Some Credit"
  shows "link_ok (Some (t\<lparr>ss_send_credit := saturating_add (ss_send_credit t) (u64_from (hdr_window (fst m)))\<rparr>))
    r q T sub del"
proof (cases T)
  case None
  then show ?thesis using assms by (simp add: link_ok_def)
next
  case (Some u)
  then have "unat (ss_send_credit t) + unat (hdr_window (fst m)) \<le> unat (ss_recv_window_remaining u)"
    using assms by (auto simp: link_ok_def frame_credit_def)
  then have "unat (ss_send_credit t) + unat (hdr_window (fst m)) < 2 ^ 64"
    using unsigned_less [of "ss_recv_window_remaining u", where 'a = nat] by simp
  then show ?thesis
    using assms Some by (auto simp: link_ok_def frame_credit_def unat_saturating_add)
qed

lemma link_front_open_ack:
  assumes "link_ok (Some (initiator w)) r (m # q) T sub del" and "frame_kind m = Some OpenAck"
  shows "link_ok (Some ((initiator w)\<lparr>ss_handshake := HsEstablished, ss_send_credit := u64_from (hdr_window (fst m))\<rparr>))
    r q T sub del"
  using assms by (cases T) (auto simp: link_ok_def frame_credit_def initiator_def)

lemma link_front_none: "link_ok None r (m # q) T sub del \<Longrightarrow> link_ok None r q T sub del"
  by (cases T) (auto simp: link_ok_def)

section \<open>The handshake\<close>

definition plain :: "wire list \<Rightarrow> bool" where
  "plain q \<longleftrightarrow> (\<forall>m \<in> set q. frame_kind m \<in> {Some Data, Some Credit, Some Close, Some Reset})"

definition only_reset :: "wire list \<Rightarrow> bool" where
  "only_reset q \<longleftrightarrow> (\<forall>m \<in> set q. frame_kind m = Some Reset)"

lemma queue_kinds [simp]:
  "plain []" "plain (m # q) \<longleftrightarrow> frame_kind m \<in> {Some Data, Some Credit, Some Close, Some Reset} \<and> plain q"
  "plain (q @ q') \<longleftrightarrow> plain q \<and> plain q'"
  "only_reset []" "only_reset (m # q) \<longleftrightarrow> frame_kind m = Some Reset \<and> only_reset q"
  "only_reset (q @ q') \<longleftrightarrow> only_reset q \<and> only_reset q'"
  by (auto simp: plain_def only_reset_def)

lemma only_reset_plain: "only_reset q \<Longrightarrow> plain q"
  by (auto simp: plain_def only_reset_def)

lemma only_reset_queue [simp]: "only_reset q \<Longrightarrow> payloads q = []" "only_reset q \<Longrightarrow> credits q = 0"
    "only_reset q \<Longrightarrow> \<not> has_close q" "only_reset q \<Longrightarrow> data_seqs q = []" "only_reset q \<Longrightarrow> closes_ok c q"
  by (induction q) (auto simp: is_data_def frame_credit_def)

definition established :: "stream_session option \<Rightarrow> bool" where
  "established S \<longleftrightarrow> (\<forall>s. S = Some s \<longrightarrow> ss_handshake s = HsEstablished)"

text \<open>The initiator still waits for OPEN_ACK, or has reset the stream.\<close>

definition waiting :: "u32 \<Rightarrow> pair_state \<Rightarrow> bool" where
  "waiting w p \<longleftrightarrow> only_reset (chan p Ini) \<and>
     (sess p Ini = None \<or> sess p Ini = Some (initiator w) \<and> chan p Ini = [])"

inductive phase :: "u32 \<Rightarrow> pair_state \<Rightarrow> bool" for w where
  ph_opening: "sess p Rsp = None \<Longrightarrow> chan p Rsp = [] \<Longrightarrow> chan p Ini = (header Open 0 w, []) # rest \<Longrightarrow>
    only_reset rest \<Longrightarrow> sess p Ini = None \<or> sess p Ini = Some (initiator w) \<and> rest = [] \<Longrightarrow>
    submitted p Ini = [] \<Longrightarrow> delivered p Rsp = [] \<Longrightarrow> phase w p"
| ph_opened: "sess p Rsp = Some (responder w) \<Longrightarrow> chan p Rsp = [] \<Longrightarrow> waiting w p \<Longrightarrow> phase w p"
| ph_acked: "chan p Rsp = (header OpenAck 0 v, []) # rest \<Longrightarrow> plain rest \<Longrightarrow> established (sess p Rsp) \<Longrightarrow>
    waiting w p \<Longrightarrow> phase w p"
| ph_running: "(\<And>x. plain (chan p x)) \<Longrightarrow> (\<And>x. established (sess p x)) \<Longrightarrow> phase w p"
| ph_refused: "sess p Rsp = None \<Longrightarrow> only_reset (chan p Rsp) \<Longrightarrow> waiting w p \<Longrightarrow> phase w p"

inductive_cases phaseE: "phase w p"

definition link :: "pair_state \<Rightarrow> side \<Rightarrow> bool" where
  "link p x \<longleftrightarrow> link_ok (sess p x) (chan p x) (chan p (peer x)) (sess p (peer x))
     (submitted p x) (delivered p (peer x))"

definition live :: "pair_state \<Rightarrow> side \<Rightarrow> bool" where
  "live p x \<longleftrightarrow> (\<forall>s. sess p x = Some s \<longrightarrow> \<not> ss_reset s \<and>
     ss_role s = (if x = Ini then Initiator else Responder))"

definition pair_inv :: "u32 \<Rightarrow> pair_state \<Rightarrow> bool" where
  "pair_inv w p \<longleftrightarrow> phase w p \<and> (\<forall>x. link p x) \<and> (\<forall>x. live p x) \<and> \<not> violated p"

lemma pair_invI:
  assumes "phase w p" "link p x" "link p (peer x)" "live p x" "live p (peer x)" "\<not> violated p"
  shows "pair_inv w p"
proof -
  have "y = x \<or> y = peer x" for y by (cases x; cases y) simp_all
  then show ?thesis using assms unfolding pair_inv_def by metis
qed

lemma pair_inv_init: "pair_inv w (pair_init w)"
proof (rule pair_invI [where x = Ini])
  show "phase w (pair_init w)" by (rule phase.ph_opening) (simp_all add: pair_init_def)
qed (simp_all add: pair_init_def link_def link_ok_def live_def initiator_def)

text \<open>An established side sends a plain frame.\<close>

lemma phase_transmit:
  assumes ph: "phase w p" and s: "sess p x = Some s" "ss_handshake s = HsEstablished"
    and m: "frame_kind m \<in> {Some Data, Some Credit, Some Close, Some Reset}" and S: "established S"
  shows "phase w ((transmit x m S p)\<lparr>submitted := f\<rparr>)"
  using ph
proof (rule phaseE)
  fix v rest
  assume a: "chan p Rsp = (header OpenAck 0 v, []) # rest" "plain rest" "established (sess p Rsp)" "waiting w p"
  have "x = Rsp" using a s by (cases x) (auto simp: waiting_def initiator_def)
  with a m S show ?thesis
    by (intro phase.ph_acked [where v = v and rest = "rest @ [m]"]) (auto simp: transmit_def waiting_def)
next
  assume "\<And>x. plain (chan p x)" "\<And>x. established (sess p x)"
  with m S show ?thesis by (intro phase.ph_running) (auto simp: transmit_def)
qed (use s in \<open>cases x; auto simp: waiting_def initiator_def responder_def\<close>)+

text \<open>Either side resets.\<close>

lemma phase_reset:
  assumes ph: "phase w p" and s: "sess p x = Some s"
  shows "phase w (transmit x (header Reset 0 0, d) None p)"
  using ph
proof (rule phaseE)
  fix rest
  assume a: "sess p Rsp = None" "chan p Rsp = []" "chan p Ini = (header Open 0 w, []) # rest"
    "only_reset rest" "sess p Ini = None \<or> sess p Ini = Some (initiator w) \<and> rest = []"
    "submitted p Ini = []" "delivered p Rsp = []"
  with s have "x = Ini" by (cases x) auto
  with a show ?thesis by (intro phase.ph_opening [where rest = "rest @ [(header Reset 0 0, d)]"]) (auto simp: transmit_def)
next
  assume a: "sess p Rsp = Some (responder w)" "chan p Rsp = []" "waiting w p"
  then show ?thesis
  proof (cases x)
    case Ini
    with a show ?thesis by (intro phase.ph_opened) (auto simp: transmit_def waiting_def)
  next
    case Rsp
    with a show ?thesis by (intro phase.ph_refused) (auto simp: transmit_def waiting_def)
  qed
next
  fix v rest
  assume a: "chan p Rsp = (header OpenAck 0 v, []) # rest" "plain rest" "established (sess p Rsp)" "waiting w p"
  show ?thesis
    using a
    by (cases x; intro phase.ph_acked [where v = v and
          rest = "rest @ (if x = Rsp then [(header Reset 0 0, d)] else [])"])
      (auto simp: transmit_def waiting_def established_def)
next
  assume "\<And>x. plain (chan p x)" "\<And>x. established (sess p x)"
  then show ?thesis by (intro phase.ph_running) (auto simp: transmit_def established_def)
next
  assume "sess p Rsp = None" "only_reset (chan p Rsp)" "waiting w p"
  with s show ?thesis by (cases x; intro phase.ph_refused) (auto simp: transmit_def waiting_def)
qed

section \<open>Every step keeps the invariant\<close>

lemma pair_invD:
  assumes "pair_inv w p"
  shows "phase w p" "link p x" "live p x" "\<not> violated p"
  using assms by (auto simp: pair_inv_def)

lemma linkD:
  assumes "link p x"
  shows "link_ok (sess p x) (chan p x) (chan p (peer x)) (sess p (peer x)) (submitted p x) (delivered p (peer x))"
  using assms by (simp add: link_def)

lemma transmit_submitted: "(transmit x m S p)\<lparr>submitted := (submitted p)(x := submitted p x)\<rparr> = transmit x m S p"
  by (cases p) (simp add: transmit_def)

lemma inv_transmit:
  assumes inv: "pair_inv w p"
    and ph: "phase w ((transmit x m S p)\<lparr>submitted := (submitted p)(x := sub)\<rparr>)"
    and fw: "link_ok S (chan p x @ [m]) (chan p (peer x)) (sess p (peer x)) sub (delivered p (peer x))"
    and bw: "link_ok (sess p (peer x)) (chan p (peer x)) (chan p x @ [m]) S (submitted p (peer x)) (delivered p x)"
    and lv: "\<And>s. S = Some s \<Longrightarrow> \<not> ss_reset s \<and> ss_role s = (if x = Ini then Initiator else Responder)"
  shows "pair_inv w ((transmit x m S p)\<lparr>submitted := (submitted p)(x := sub)\<rparr>)"
  using pair_invD [OF inv] fw bw lv
  by (intro pair_invI [where x = x] ph) (simp_all add: transmit_def link_def live_def)

lemma inv_data:
  assumes inv: "pair_inv w p" and s: "sess p x = Some s" and b: "build_data s = (Ok h, s')"
  shows "pair_inv w ((transmit x (h, d) (Some s') p)\<lparr>submitted := (submitted p)(x := submitted p x @ [d])\<rparr>)"
proof (rule inv_transmit [OF inv])
  have h: "h = header Data (ss_send_seq s) 0" "ss_handshake s = HsEstablished"
    "s' = s\<lparr>ss_send_credit := ss_send_credit s - 1, ss_send_seq := ss_send_seq s + 1\<rparr>"
    using b by (auto simp: build_data_def Let_def split: if_splits)
  show "phase w ((transmit x (h, d) (Some s') p)\<lparr>submitted := (submitted p)(x := submitted p x @ [d])\<rparr>)"
    using h by (intro phase_transmit [OF pair_invD(1) [OF inv] s]) (auto simp: established_def)
  show "link_ok (Some s') (chan p x @ [(h, d)]) (chan p (peer x)) (sess p (peer x))
      (submitted p x @ [d]) (delivered p (peer x))"
    using linkD [OF pair_invD(2) [OF inv, of x]] s b by (intro link_send_data) auto
  show "link_ok (sess p (peer x)) (chan p (peer x)) (chan p x @ [(h, d)]) (Some s')
      (submitted p (peer x)) (delivered p x)"
    using linkD [OF pair_invD(2) [OF inv, of "peer x"]] s h(3) unfolding h(1)
    by (intro link_back_other [where t = s]) auto
  show "\<not> ss_reset t \<and> ss_role t = (if x = Ini then Initiator else Responder)" if "Some s' = Some t" for t
    using that pair_invD(3) [OF inv, of x] s h(3) by (auto simp: live_def)
qed

lemma inv_credit:
  assumes inv: "pair_inv w p" and s: "sess p x = Some s" and b: "build_credit n s = (Ok h, s')"
    and room: "unat (ss_recv_window_remaining s) + unat n < 2 ^ 64"
  shows "pair_inv w (transmit x (h, []) (Some s') p)"
proof (subst transmit_submitted [symmetric], rule inv_transmit [OF inv])
  have h: "h = header Credit 0 n" "ss_handshake s = HsEstablished"
    "s' = s\<lparr>ss_recv_window_remaining := saturating_add (ss_recv_window_remaining s) (u64_from n)\<rparr>"
    using b by (auto simp: build_credit_def split: if_splits)
  show "phase w ((transmit x (h, []) (Some s') p)\<lparr>submitted := (submitted p)(x := submitted p x)\<rparr>)"
    using h by (intro phase_transmit [OF pair_invD(1) [OF inv] s]) (auto simp: established_def)
  show "link_ok (Some s') (chan p x @ [(h, [])]) (chan p (peer x)) (sess p (peer x))
      (submitted p x) (delivered p (peer x))"
    using linkD [OF pair_invD(2) [OF inv, of x]] s h(3) unfolding h(1)
    by (intro link_send_other [where s = s]) auto
  show "link_ok (sess p (peer x)) (chan p (peer x)) (chan p x @ [(h, [])]) (Some s')
      (submitted p (peer x)) (delivered p x)"
    using linkD [OF pair_invD(2) [OF inv, of "peer x"]] s b room by (intro link_back_credit) auto
  show "\<not> ss_reset t \<and> ss_role t = (if x = Ini then Initiator else Responder)" if "Some s' = Some t" for t
    using that pair_invD(3) [OF inv, of x] s h(3) by (auto simp: live_def)
qed

lemma inv_close:
  assumes inv: "pair_inv w p" and s: "sess p x = Some s" and b: "build_close s = (Ok h, s')"
    and hs: "ss_handshake s = HsEstablished"
  shows "pair_inv w (transmit x (h, []) (retain s') p)"
proof (subst transmit_submitted [symmetric], rule inv_transmit [OF inv])
  have h: "h = header Close 0 0" "s' = s\<lparr>ss_local_closed := True\<rparr>"
    using b by (auto simp: build_close_def split: if_splits)
  show "phase w ((transmit x (h, []) (retain s') p)\<lparr>submitted := (submitted p)(x := submitted p x)\<rparr>)"
    using h hs by (intro phase_transmit [OF pair_invD(1) [OF inv] s]) (auto simp: established_def retain_def)
  show "link_ok (retain s') (chan p x @ [(h, [])]) (chan p (peer x)) (sess p (peer x))
      (submitted p x) (delivered p (peer x))"
    using linkD [OF pair_invD(2) [OF inv, of x]] s b
    by (intro link_retain_sender link_send_close) auto
  show "link_ok (sess p (peer x)) (chan p (peer x)) (chan p x @ [(h, [])]) (retain s')
      (submitted p (peer x)) (delivered p x)"
    using linkD [OF pair_invD(2) [OF inv, of "peer x"]] s h(2) unfolding h(1)
    by (intro link_retain_receiver link_back_other [where t = s]) auto
  show "\<not> ss_reset t \<and> ss_role t = (if x = Ini then Initiator else Responder)" if "retain s' = Some t" for t
    using retain_SomeD [OF that] pair_invD(3) [OF inv, of x] s h(2) by (auto simp: live_def)
qed

lemma inv_reset:
  assumes inv: "pair_inv w p" and s: "sess p x = Some s" and b: "build_reset s = (h, s')"
  shows "pair_inv w (transmit x (h, []) None p)"
proof (subst transmit_submitted [symmetric], rule inv_transmit [OF inv])
  have h: "h = header Reset 0 0" using b by (simp add: build_reset_def)
  show "phase w ((transmit x (h, []) None p)\<lparr>submitted := (submitted p)(x := submitted p x)\<rparr>)"
    unfolding h transmit_submitted by (rule phase_reset [OF pair_invD(1) [OF inv] s])
  show "link_ok None (chan p x @ [(h, [])]) (chan p (peer x)) (sess p (peer x)) (submitted p x) (delivered p (peer x))"
    using linkD [OF pair_invD(2) [OF inv, of x]] s unfolding h by (intro link_send_reset) auto
  show "link_ok (sess p (peer x)) (chan p (peer x)) (chan p x @ [(h, [])]) None (submitted p (peer x)) (delivered p x)"
    using linkD [OF pair_invD(2) [OF inv, of "peer x"]] s unfolding h
    by (intro link_drop_receiver [where T = "Some s"] link_back_other [where t = s]) auto
qed simp

lemma inv_open_ack:
  assumes inv: "pair_inv w p" and s: "sess p x = Some s" and b: "build_open_ack v s = (Ok h, s')"
  shows "pair_inv w (transmit x (h, []) (Some s') p)"
proof (subst transmit_submitted [symmetric], rule inv_transmit [OF inv])
  have h: "h = header OpenAck 0 v" "ss_role s = Responder" "ss_handshake s = HsOpening"
    "s' = s\<lparr>ss_handshake := HsEstablished, ss_recv_window_remaining := u64_from v\<rparr>"
    using b by (auto simp: build_open_ack_def split: if_splits)
  have x: "x = Rsp" using pair_invD(3) [OF inv, of x] s h(2) by (cases x) (auto simp: live_def)
  have ph: "chan p Rsp = []" "waiting w p"
    using pair_invD(1) [OF inv] s h(3) x by (auto elim!: phaseE simp: established_def)
  show "phase w ((transmit x (h, []) (Some s') p)\<lparr>submitted := (submitted p)(x := submitted p x)\<rparr>)"
    using ph x h by (intro phase.ph_acked [where v = v and rest = "[]"])
      (auto simp: transmit_def established_def waiting_def)
  show "link_ok (Some s') (chan p x @ [(h, [])]) (chan p (peer x)) (sess p (peer x))
      (submitted p x) (delivered p (peer x))"
    using linkD [OF pair_invD(2) [OF inv, of x]] s h(4) unfolding h(1)
    by (intro link_send_other [where s = s]) auto
  show "link_ok (sess p (peer x)) (chan p (peer x)) (chan p x @ [(h, [])]) (Some s')
      (submitted p (peer x)) (delivered p x)"
    using linkD [OF pair_invD(2) [OF inv, of "peer x"]] s b ph x
    by (intro link_back_open_ack) (auto simp: waiting_def initiator_def)
  show "\<not> ss_reset t \<and> ss_role t = (if x = Ini then Initiator else Responder)" if "Some s' = Some t" for t
    using that pair_invD(3) [OF inv, of x] s h(4) by (auto simp: live_def)
qed

lemma phase_runningI:
  assumes "plain (chan p Ini)" "plain (chan p Rsp)" "established (sess p Ini)" "established (sess p Rsp)"
  shows "phase w p"
proof (rule phase.ph_running)
  fix x show "plain (chan p x)" "established (sess p x)" using assms by (cases x; simp)+
qed

text \<open>A frame arrives. First the ordinary frames, at an established or absent session.\<close>

lemma receive_eq:
  assumes "route_frame (fst m) (sess p (peer x)) = (r, S)"
  shows "receive x m q p = p\<lparr>sess := (sess p)(peer x := S), chan := (chan p)(x := q),
    delivered := (delivered p)(peer x := delivered p (peer x) @ (if r = Happened AccData then [snd m] else [])),
    violated := violated p \<or> (\<exists>e. r = Violation e)\<rparr>"
  using assms by (simp add: receive_def)

lemma inv_receive:
  assumes inv: "pair_inv w p" and rt: "route_frame (fst m) (sess p (peer x)) = (r, S)" "\<And>e. r \<noteq> Violation e"
    and ph: "phase w (receive x m q p)"
    and fw: "link_ok (sess p x) q (chan p (peer x)) S (submitted p x)
        (delivered p (peer x) @ (if r = Happened AccData then [snd m] else []))"
    and bw: "link_ok S (chan p (peer x)) q (sess p x) (submitted p (peer x)) (delivered p x)"
    and lv: "\<And>s. S = Some s \<Longrightarrow> \<not> ss_reset s \<and> ss_role s = (if peer x = Ini then Initiator else Responder)"
  shows "pair_inv w (receive x m q p)"
  using pair_invD [OF inv] fw bw lv rt(2)
  by (intro pair_invI [where x = x] ph) (simp_all add: receive_eq [OF rt(1)] link_def live_def)

lemma deliver_plain:
  assumes fw: "link_ok Sx (m # q) r (Some t) sub del" and bw: "link_ok (Some t) r (m # q) Sx sub' del'"
    and m: "frame_kind m \<in> {Some Data, Some Credit, Some Close, Some Reset}"
    and t: "ss_handshake t = HsEstablished" "\<not> ss_reset t"
  obtains a S where "route_frame (fst m) (Some t) = (Happened a, S)" "established S"
    "link_ok Sx q r S sub (del @ (if Happened a = Happened AccData then [snd m] else []))"
    "link_ok S r q Sx sub' del'"
    "\<And>s. S = Some s \<Longrightarrow> \<not> ss_reset s \<and> ss_role s = ss_role t"
proof -
  consider "frame_kind m = Some Data" | "frame_kind m = Some Credit" | "frame_kind m = Some Close"
    | "frame_kind m = Some Reset" using m by blast
  then show thesis
  proof cases
    case 1
    then have c: "frame_credit m = 0" by (simp add: frame_credit_def)
    obtain t' where t': "route_frame (fst m) (Some t) = (Happened AccData, retain t')"
      "t' = t\<lparr>ss_recv_window_remaining := ss_recv_window_remaining t - 1, ss_recv_seq := ss_recv_seq t + 1\<rparr>"
      "link_ok Sx q r (Some t') sub (del @ [snd m])"
      using link_deliver_data [OF fw 1 t(2,1)] by blast
    show thesis
      by (rule that [OF t'(1)])
        (use t' t link_retain_receiver [OF t'(3)] link_retain_sender [OF link_front_other [OF bw c, of t']]
         in \<open>auto simp: established_def dest: retain_SomeD\<close>)
  next
    case 2
    show thesis
      by (rule that [OF link_deliver_credit(1) [OF fw 2 t(2,1)]])
        (use t link_retain_receiver [OF link_deliver_credit(2) [OF fw 2 t(2,1)]]
          link_retain_sender [OF link_front_credit [OF bw 2]]
         in \<open>auto simp: established_def dest: retain_SomeD\<close>)
  next
    case 3
    then have c: "frame_credit m = 0" by (simp add: frame_credit_def)
    show thesis
      by (rule that [OF link_deliver_close(1) [OF fw 3 t(2,1)]])
        (use t link_retain_receiver [OF link_deliver_close(2) [OF fw 3 t(2,1)]]
          link_retain_sender [OF link_front_other [OF bw c, of "t\<lparr>ss_remote_closed := True\<rparr>"]]
         in \<open>auto simp: established_def dest: retain_SomeD\<close>)
  next
    case 4
    then have c: "frame_credit m = 0" by (simp add: frame_credit_def)
    show thesis
      by (rule that [of AccReset None])
        (use route_reset [OF 4, of "Some t"] fw link_drop_sender [OF link_front_other [OF bw c, of t]]
         in \<open>auto simp: established_def link_ok_def\<close>)
  qed
qed

text \<open>An absent session ignores everything but an OPEN.\<close>

lemma deliver_absent:
  assumes fw: "link_ok Sx (m # q) r None sub del" and bw: "link_ok None r (m # q) Sx sub' del'"
    and m: "frame_kind m = Some f" "f \<noteq> Open"
  shows "route_frame (fst m) None = (Ignored, None)" "link_ok Sx q r None sub del" "link_ok None r q Sx sub' del'"
  using route_none [OF m] fw link_front_none [OF bw] by (simp_all add: link_ok_def)

lemma inv_deliver_absent:
  assumes inv: "pair_inv w p" and c: "chan p x = m # q" and n: "sess p (peer x) = None"
    and m: "frame_kind m = Some f" "f \<noteq> Open" and ph: "phase w (p\<lparr>chan := (chan p)(x := q)\<rparr>)"
  shows "pair_inv w (receive x m q p)"
proof -
  note d = deliver_absent [of "sess p x" m q "chan p (peer x)" "submitted p x" "delivered p (peer x)"
      "submitted p (peer x)" "delivered p x" f]
  have l: "link_ok (sess p x) (m # q) (chan p (peer x)) None (submitted p x) (delivered p (peer x))"
    "link_ok None (chan p (peer x)) (m # q) (sess p x) (submitted p (peer x)) (delivered p x)"
    using linkD [OF pair_invD(2) [OF inv, of x]] linkD [OF pair_invD(2) [OF inv, of "peer x"]] c n by simp_all
  have rt: "route_frame (fst m) (sess p (peer x)) = (Ignored, None)" using d(1) [OF l m] n by simp
  have "receive x m q p = p\<lparr>chan := (chan p)(x := q)\<rparr>"
    unfolding receive_eq [OF rt] using n by (cases p) (simp add: fun_upd_idem)
  with ph show ?thesis using d(2,3) [OF l m] by (intro inv_receive [OF inv rt]) simp_all
qed

lemma inv_deliver_plain:
  assumes inv: "pair_inv w p" and c: "chan p x = m # q" and t: "sess p (peer x) = Some t"
    and hs: "ss_handshake t = HsEstablished"
    and m: "frame_kind m \<in> {Some Data, Some Credit, Some Close, Some Reset}"
    and ph: "\<And>S D. established S \<Longrightarrow>
      phase w (p\<lparr>sess := (sess p)(peer x := S), chan := (chan p)(x := q), delivered := D, violated := False\<rparr>)"
  shows "pair_inv w (receive x m q p)"
proof -
  have l: "link_ok (sess p x) (m # q) (chan p (peer x)) (Some t) (submitted p x) (delivered p (peer x))"
    "link_ok (Some t) (chan p (peer x)) (m # q) (sess p x) (submitted p (peer x)) (delivered p x)"
    using linkD [OF pair_invD(2) [OF inv, of x]] linkD [OF pair_invD(2) [OF inv, of "peer x"]] c t by simp_all
  have lv: "\<not> ss_reset t" "ss_role t = (if peer x = Ini then Initiator else Responder)"
    using pair_invD(3) [OF inv, of "peer x"] t by (auto simp: live_def)
  obtain a S where d: "route_frame (fst m) (Some t) = (Happened a, S)" "established S"
    "link_ok (sess p x) q (chan p (peer x)) S (submitted p x)
       (delivered p (peer x) @ (if Happened a = Happened AccData then [snd m] else []))"
    "link_ok S (chan p (peer x)) q (sess p x) (submitted p (peer x)) (delivered p x)"
    "\<And>s. S = Some s \<Longrightarrow> \<not> ss_reset s \<and> ss_role s = ss_role t"
    using deliver_plain [OF l m hs lv(1)] by blast
  have rt: "route_frame (fst m) (sess p (peer x)) = (Happened a, S)" using d(1) t by simp
  show ?thesis
    using d lv(2) ph [OF d(2)] pair_invD(4) [OF inv]
    by (intro inv_receive [OF inv rt]) (auto simp: receive_eq [OF rt])
qed

lemma inv_deliver_open:
  assumes inv: "pair_inv w p" and c: "chan p Ini = (header Open 0 w, []) # q" and q: "only_reset q"
    and p: "sess p Rsp = None" "chan p Rsp = []" "submitted p Ini = []" "delivered p Rsp = []"
    and a: "sess p Ini = None \<or> sess p Ini = Some (initiator w) \<and> q = []"
  shows "pair_inv w (receive Ini (header Open 0 w, []) q p)"
proof -
  have rt: "route_frame (fst (header Open 0 w, [] :: bytes)) (sess p (peer Ini)) = (Opened, Some (responder w))"
    using p by (simp add: route_frame_def)
  have l: "link_ok None [] ((header Open 0 w, []) # q) (sess p Ini) (submitted p Rsp) (delivered p Ini)"
    using linkD [OF pair_invD(2) [OF inv, of Rsp]] p c by simp
  show ?thesis
  proof (rule inv_receive [OF inv rt])
    show "phase w (receive Ini (header Open 0 w, []) q p)"
      unfolding receive_eq [OF rt] using p q a by (intro phase.ph_opened) (auto simp: waiting_def)
    show "link_ok (sess p Ini) q (chan p (peer Ini)) (Some (responder w)) (submitted p Ini)
        (delivered p (peer Ini) @ (if Opened = Happened AccData then [snd (header Open 0 w, [])] else []))"
      using p q a by (auto simp: link_ok_def session_fresh)
    show "link_ok (Some (responder w)) (chan p (peer Ini)) q (sess p Ini) (submitted p (peer Ini)) (delivered p Ini)"
      using l p a by (auto simp: link_ok_def session_fresh)
  qed (auto simp: responder_def)
qed

lemma inv_deliver_ack:
  assumes inv: "pair_inv w p" and c: "chan p Rsp = (header OpenAck 0 v, []) # q" and q: "plain q"
    and e: "established (sess p Rsp)" and wt: "waiting w p"
  shows "pair_inv w (receive Rsp (header OpenAck 0 v, []) q p)"
proof (cases "sess p Ini")
  case None
  have "phase w (p\<lparr>chan := (chan p)(Rsp := q)\<rparr>)"
    using q e wt None
    by (intro phase_runningI) (auto simp: waiting_def established_def only_reset_plain)
  then show ?thesis using None by (intro inv_deliver_absent [OF inv c, where f = OpenAck]) simp_all
next
  case (Some a)
  then have a: "a = initiator w" and ci: "chan p Ini = []" using wt by (auto simp: waiting_def)
  let ?a = "(initiator w)\<lparr>ss_handshake := HsEstablished, ss_send_credit := u64_from v\<rparr>"
  let ?m = "(header OpenAck 0 v, [] :: bytes)"
  have fw: "link_ok (sess p Rsp) (?m # q) (chan p Ini) (Some (initiator w)) (submitted p Rsp) (delivered p Ini)"
    and bw: "link_ok (Some (initiator w)) (chan p Ini) (?m # q) (sess p Rsp) (submitted p Ini) (delivered p Rsp)"
    using linkD [OF pair_invD(2) [OF inv, of Rsp]] linkD [OF pair_invD(2) [OF inv, of Ini]] c Some a by simp_all
  have rt: "route_frame (fst ?m) (sess p (peer Rsp)) = (Happened AccEstablished, retain ?a)"
    using link_deliver_open_ack(1) [OF fw] Some a by simp
  have ret: "retain ?a = Some ?a" by (simp add: retain_def is_closed_iff initiator_def)
  show ?thesis
  proof (rule inv_receive [OF inv rt])
    show "phase w (receive Rsp ?m q p)"
      unfolding receive_eq [OF rt] ret using q e ci
      by (intro phase_runningI) (auto simp: established_def)
    show "link_ok (sess p Rsp) q (chan p (peer Rsp)) (retain ?a) (submitted p Rsp)
        (delivered p (peer Rsp) @ (if Happened AccEstablished = Happened AccData then [snd ?m] else []))"
      using link_deliver_open_ack(2) [OF fw] ret by simp
    show "link_ok (retain ?a) (chan p (peer Rsp)) q (sess p Rsp) (submitted p (peer Rsp)) (delivered p Rsp)"
      using link_front_open_ack [OF bw] ret by simp
  qed (auto simp: initiator_def dest!: retain_SomeD)
qed

text \<open>A RESET may arrive in any phase.\<close>

lemma inv_deliver_reset:
  assumes inv: "pair_inv w p" and c: "chan p x = m # q" and m: "frame_kind m = Some Reset"
    and ph: "phase w (p\<lparr>sess := (sess p)(peer x := None), chan := (chan p)(x := q)\<rparr>)"
  shows "pair_inv w (receive x m q p)"
proof (cases "sess p (peer x)")
  case None
  with ph have "phase w (p\<lparr>chan := (chan p)(x := q)\<rparr>)" by (cases p) (simp add: fun_upd_idem)
  then show ?thesis by (intro inv_deliver_absent [OF inv c None m]) simp_all
next
  case (Some t)
  have fw: "link_ok (sess p x) (m # q) (chan p (peer x)) (Some t) (submitted p x) (delivered p (peer x))"
    and bw: "link_ok (Some t) (chan p (peer x)) (m # q) (sess p x) (submitted p (peer x)) (delivered p x)"
    using linkD [OF pair_invD(2) [OF inv, of x]] linkD [OF pair_invD(2) [OF inv, of "peer x"]] c Some by simp_all
  have rt: "route_frame (fst m) (sess p (peer x)) = (Happened AccReset, None)"
    using route_reset [OF m, of "sess p (peer x)"] Some by simp
  have r: "receive x m q p = p\<lparr>sess := (sess p)(peer x := None), chan := (chan p)(x := q)\<rparr>"
    unfolding receive_eq [OF rt] by (cases p) (simp add: fun_upd_idem)
  show ?thesis
  proof (rule inv_receive [OF inv rt])
    show "phase w (receive x m q p)" unfolding r by (rule ph)
    show "link_ok (sess p x) q (chan p (peer x)) None (submitted p x)
        (delivered p (peer x) @ (if Happened AccReset = Happened AccData then [snd m] else []))"
      using link_drop_receiver [OF fw] by (simp add: link_ok_def)
    show "link_ok None (chan p (peer x)) q (sess p x) (submitted p (peer x)) (delivered p x)"
      by (rule link_front_none [OF link_drop_sender [OF bw]])
  qed simp_all
qed

lemma inv_deliver_waiting:
  assumes inv: "pair_inv w p" and c: "chan p Ini = m # q" and wt: "waiting w p"
    and ph: "\<And>p'. waiting w p' \<Longrightarrow> sess p' Rsp = None \<Longrightarrow> chan p' Rsp = chan p Rsp \<Longrightarrow> phase w p'"
  shows "pair_inv w (receive Ini m q p)"
proof -
  have m: "frame_kind m = Some Reset" "only_reset q" "sess p Ini = None"
    using wt c by (auto simp: waiting_def)
  show ?thesis by (rule inv_deliver_reset [OF inv c m(1)], rule ph) (use m in \<open>auto simp: waiting_def\<close>)
qed

lemma inv_deliver_running:
  assumes inv: "pair_inv w p" and c: "chan p x = m # q"
    and a: "\<And>x. plain (chan p x)" "\<And>x. established (sess p x)"
  shows "pair_inv w (receive x m q p)"
proof -
  have m: "frame_kind m \<in> {Some Data, Some Credit, Some Close, Some Reset}" and q: "plain q"
    using a(1) [of x] c by simp_all
  show ?thesis
  proof (cases "sess p (peer x)")
    case None
    obtain f where f: "frame_kind m = Some f" "f \<noteq> Open" using m by auto
    show ?thesis
      by (rule inv_deliver_absent [OF inv c None f], rule phase.ph_running) (use a q in auto)
  next
    case (Some t)
    then have "ss_handshake t = HsEstablished" using a(2) [of "peer x"] by (simp add: established_def)
    then show ?thesis
      by (rule inv_deliver_plain [OF inv c Some _ m], intro phase.ph_running) (use a q in auto)
  qed
qed

lemma inv_deliver:
  assumes inv: "pair_inv w p" and c: "chan p x = m # q"
  shows "pair_inv w (receive x m q p)"
  using pair_invD(1) [OF inv]
proof (rule phaseE)
  fix rest
  assume a: "sess p Rsp = None" "chan p Rsp = []" "chan p Ini = (header Open 0 w, []) # rest"
    "only_reset rest" "sess p Ini = None \<or> sess p Ini = Some (initiator w) \<and> rest = []"
    "submitted p Ini = []" "delivered p Rsp = []"
  with c have "x = Ini" by (cases x) auto
  with a c show ?thesis using inv_deliver_open [OF inv, of rest] by auto
next
  assume a: "sess p Rsp = Some (responder w)" "chan p Rsp = []" "waiting w p"
  with c have x: "x = Ini" by (cases x) auto
  show ?thesis
    unfolding x using a c x by (intro inv_deliver_waiting [OF inv]) (auto intro: phase.ph_refused)
next
  fix v rest
  assume a: "chan p Rsp = (header OpenAck 0 v, []) # rest" "plain rest" "established (sess p Rsp)" "waiting w p"
  show ?thesis
  proof (cases x)
    case Ini
    then show ?thesis
      using a c by (simp, intro inv_deliver_waiting [OF inv])
        (auto intro: phase.ph_acked [where v = v and rest = rest] simp: established_def)
  next
    case Rsp
    with a c show ?thesis using inv_deliver_ack [OF inv a] by simp
  qed
next
  assume "\<And>x. plain (chan p x)" "\<And>x. established (sess p x)"
  then show ?thesis by (rule inv_deliver_running [OF inv c])
next
  assume a: "sess p Rsp = None" "only_reset (chan p Rsp)" "waiting w p"
  show ?thesis
  proof (cases x)
    case Ini
    then show ?thesis
      using a c by (simp, intro inv_deliver_waiting [OF inv]) (auto intro: phase.ph_refused)
  next
    case Rsp
    with a c have m: "frame_kind m = Some Reset" "only_reset q" by auto
    show ?thesis
      by (rule inv_deliver_reset [OF inv c m(1)], rule phase.ph_refused)
        (use a c m Rsp in \<open>auto simp: waiting_def\<close>)
  qed
qed

lemma pair_inv_step: "pair_step p p' \<Longrightarrow> pair_inv w p \<Longrightarrow> pair_inv w p'"
  by (induction rule: pair_step.induct)
    (blast intro: inv_open_ack inv_data inv_credit inv_close inv_reset inv_deliver)+

lemma pair_inv_reachable: "pair_reachable w p \<Longrightarrow> pair_inv w p"
  by (induction rule: pair_reachable.induct) (auto intro: pair_inv_init pair_inv_step)

section \<open>Runs without a reset\<close>

definition unreset :: "pair_state \<Rightarrow> bool" where
  "unreset p \<longleftrightarrow> (\<forall>x. \<forall>m \<in> set (chan p x). frame_kind m \<noteq> Some Reset)"

inductive orderly :: "u32 \<Rightarrow> pair_state \<Rightarrow> bool" for w where
  orderly_start: "orderly w (pair_init w)"
| orderly_step: "orderly w p \<Longrightarrow> pair_step p p' \<Longrightarrow> unreset p' \<Longrightarrow> orderly w p'"

lemma orderly_reachable: "orderly w p \<Longrightarrow> pair_reachable w p"
  by (induction rule: orderly.induct) (auto intro: pair_reachable.intros)

lemma orderly_unreset: "orderly w p \<Longrightarrow> unreset p"
  by (cases rule: orderly.cases) (auto simp: unreset_def pair_init_def)

section \<open>A concrete exchange\<close>

definition hello :: bytes where
  "hello = ascii ''hello''"

definition sample_state ::
    "stream_session option \<Rightarrow> stream_session option \<Rightarrow> wire list \<Rightarrow> wire list \<Rightarrow> bytes list \<Rightarrow> bytes list \<Rightarrow> pair_state" where
  "sample_state S T q r sub del = \<lparr>sess = case_side S T, chan = case_side q r,
     submitted = case_side sub [], delivered = case_side [] del, violated = False\<rparr>"

lemma sample_state_simps [simp]:
  "sess (sample_state S T q r sub del) = case_side S T" "chan (sample_state S T q r sub del) = case_side q r"
  "submitted (sample_state S T q r sub del) = case_side sub []"
  "delivered (sample_state S T q r sub del) = case_side [] del" "\<not> violated (sample_state S T q r sub del)"
  by (simp_all add: sample_state_def)

lemma unreset_sample [simp]:
  "unreset (sample_state S T q r sub del) \<longleftrightarrow> (\<forall>m \<in> set (q @ r). frame_kind m \<noteq> Some Reset)"
  by (auto simp: unreset_def split: side.splits)

definition sample_sender :: "u64 \<Rightarrow> u64 \<Rightarrow> stream_session" where
  "sample_sender c n = (initiator 4)\<lparr>ss_handshake := HsEstablished, ss_send_credit := c, ss_send_seq := n\<rparr>"

definition sample_receiver :: "u64 \<Rightarrow> u64 \<Rightarrow> stream_session" where
  "sample_receiver c n = (responder 4)\<lparr>ss_handshake := HsEstablished, ss_recv_window_remaining := c, ss_recv_seq := n\<rparr>"

lemma u64_from_numeral [simp]: "u64_from (numeral n) = ucast (numeral n :: u32)"
  by (simp add: u64_from_def)

lemma sample_builds:
  "build_open_ack 2 (responder 4) = (Ok (header OpenAck 0 2), sample_receiver 2 0)"
  "build_data (sample_sender 2 0) = (Ok (header Data 0 0), sample_sender 1 1)"
  "build_data (sample_sender 1 1) = (Ok (header Data 1 0), sample_sender 0 2)"
  by (simp_all add: build_open_ack_def build_data_def sample_receiver_def sample_sender_def session_fresh)

lemma sample_moves:
  "pair_init 4 = sample_state (Some (initiator 4)) None [(header Open 0 4, [])] [] [] []"
  "receive Ini (header Open 0 4, []) [] (sample_state (Some (initiator 4)) None [(header Open 0 4, [])] [] [] [])
     = sample_state (Some (initiator 4)) (Some (responder 4)) [] [] [] []"
  "transmit Rsp m (Some t) (sample_state S T q r sub del) = sample_state S (Some t) q (r @ [m]) sub del"
  "receive Rsp (header OpenAck 0 2, []) [] (sample_state (Some (initiator 4)) T q r sub del)
     = sample_state (Some (sample_sender 2 0)) T q [] sub del"
  "(transmit Ini (h, d) (Some s) (sample_state S T q r sub del))\<lparr>submitted := (case_side sub [])(Ini := l)\<rparr>
     = sample_state (Some s) T (q @ [(h, d)]) r l del"
  "receive Ini (header Data 0 0, d) [] (sample_state S (Some (sample_receiver 2 0)) q r sub del)
     = sample_state S (Some (sample_receiver 1 1)) [] r sub (del @ [d])"
  by (auto simp: sample_state_def pair_init_def receive_def route_frame_def on_recv_def transmit_def retain_def
      is_closed_iff sample_receiver_def sample_sender_def session_fresh fun_eq_iff split: side.split)

text \<open>OPEN, OPEN_ACK and one DATA frame, each delivered.\<close>

definition sample_exchange :: pair_state where
  "sample_exchange = sample_state (Some (sample_sender 1 1)) (Some (sample_receiver 1 1)) [] [] [hello] [hello]"

lemma sample_exchange_orderly: "orderly 4 sample_exchange"
proof -
  let ?ack = "(header OpenAck 0 2, [] :: bytes)" let ?data = "(header Data 0 0, hello)"
  have 0: "orderly 4 (sample_state (Some (initiator 4)) None [(header Open 0 4, [])] [] [] [])"
    using orderly_start [of 4] by (simp add: sample_moves(1))
  have 1: "orderly 4 (sample_state (Some (initiator 4)) (Some (responder 4)) [] [] [] [])"
    using orderly_step [OF 0 pair_step.deliver [of _ Ini]] by (simp add: sample_moves)
  have 2: "orderly 4 (sample_state (Some (initiator 4)) (Some (sample_receiver 2 0)) [] [?ack] [] [])"
    using orderly_step [OF 1 pair_step.open_ack [where x = Rsp, OF _ sample_builds(1)]] by (simp add: sample_moves)
  have 3: "orderly 4 (sample_state (Some (sample_sender 2 0)) (Some (sample_receiver 2 0)) [] [] [] [])"
    using orderly_step [OF 2 pair_step.deliver [of _ Rsp]] by (simp add: sample_moves)
  have 4: "orderly 4 (sample_state (Some (sample_sender 1 1)) (Some (sample_receiver 2 0)) [?data] [] [hello] [])"
    using orderly_step [OF 3 pair_step.data [where x = Ini and d = hello, OF _ sample_builds(2)]]
    by (simp add: sample_moves)
  show ?thesis
    using orderly_step [OF 4 pair_step.deliver [of _ Ini]] by (simp add: sample_moves sample_exchange_def)
qed

lemmas sample_exchange_reachable = orderly_reachable [OF sample_exchange_orderly]

lemma link_log: "link_ok S q r T sub del \<Longrightarrow> prefix del sub \<and> (T \<noteq> None \<longrightarrow> del @ payloads q = sub)"
  by (cases T) (auto simp: link_ok_def intro: prefixI [OF sym])

section \<open>Properties\<close>

text \<open>
  Two honest ends of a stream never see a protocol violation. Whatever the interleaving of
  their operations and of the deliveries, as long as each side closes only an established
  stream, no frame that arrives is refused, so no stream is reset by the state machine, and the
  payloads delivered are a prefix of the payloads submitted, all of them as soon as the channel
  to a live receiver holds no data.
\<close>
theorem honest_pair_delivers:
  assumes "pair_reachable w p"
  shows "\<not> violated p \<and> prefix (delivered p (peer x)) (submitted p x) \<and>
    (sess p (peer x) \<noteq> None \<and> payloads (chan p x) = [] \<longrightarrow> delivered p (peer x) = submitted p x)"
  using pair_invD(4) [OF pair_inv_reachable [OF assms]]
    link_log [OF linkD [OF pair_invD(2) [OF pair_inv_reachable [OF assms], of x]]] by auto

theorem honest_pair_delivers_witness:
  "pair_reachable 4 sample_exchange \<and> delivered sample_exchange Rsp = submitted sample_exchange Ini \<and>
   submitted sample_exchange Ini = [hello]"
  using honest_pair_delivers [OF sample_exchange_reachable, of Ini] sample_exchange_reachable
  by (simp add: sample_exchange_def)

text \<open>
  C15: credit is conserved and numbers agree. Between two live ends, the credit the sender holds,
  the data frames on the way and the credit on the way back add up to the window the receiver
  has left, and the next number to send is the next number expected plus the data on the way.
\<close>
theorem honest_pair_credit:
  assumes "pair_reachable w p" and "sess p x = Some s" and "sess p (peer x) = Some t"
  shows "unat (send_credit s) + length (payloads (chan p x)) + credits (chan p (peer x))
      = unat (ss_recv_window_remaining t) \<and>
    ss_send_seq s = ss_recv_seq t + of_nat (length (payloads (chan p x)))"
  using linkD [OF pair_invD(2) [OF pair_inv_reachable [OF assms(1)], of x]] assms(2,3)
  by (simp add: link_ok_def send_credit_def)

theorem honest_pair_credit_witness:
  "\<exists>s t. sess sample_exchange Ini = Some s \<and> sess sample_exchange Rsp = Some t \<and>
     unat (send_credit s) = 1 \<and> unat (ss_recv_window_remaining t) = 1"
  using honest_pair_credit [OF sample_exchange_reachable, of Ini]
  by (simp add: sample_exchange_def send_credit_def sample_sender_def sample_receiver_def)

end
