(* ===== verification/Stream_Drain.thy ===== *)
theory Stream_Drain
  imports Stream_Pair
begin

text \<open>
  What becomes of a stream that nobody resets (the pair of \<open>Stream_Pair\<close>). Delivering the frames
  on the way always comes to an end, in a state that does not depend on the order of the
  deliveries; there every payload has arrived, also on a stream closed meanwhile, and the two
  ends agree on whether the stream still exists.
\<close>

section \<open>Ended directions\<close>

text \<open>
  A direction whose receiver is gone has nothing left to deliver: the receiver ended after both
  CLOSEs, so the sender has closed and the receiver's CLOSE has arrived or is on the way; or the
  OPEN is still on the way.
\<close>

definition settled :: "u32 \<Rightarrow> pair_state \<Rightarrow> side \<Rightarrow> bool" where
  "settled w p x \<longleftrightarrow> (sess p (peer x) = None \<longrightarrow>
     payloads (chan p x) = [] \<and> delivered p (peer x) = submitted p x \<and>
     (\<forall>s. sess p x = Some s \<longrightarrow>
        ss_local_closed s \<and> (ss_remote_closed s \<or> has_close (chan p (peer x))) \<or>
        x = Ini \<and> ss_handshake s = HsOpening \<and> chan p Rsp = [] \<and> chan p Ini = [(header Open 0 w, [])]))"

definition unclosed :: "pair_state \<Rightarrow> side \<Rightarrow> bool" where
  "unclosed p x \<longleftrightarrow> (\<forall>s. sess p x = Some s \<longrightarrow> \<not> is_closed s)"

definition open_pending :: "pair_state \<Rightarrow> bool" where
  "open_pending p \<longleftrightarrow> ((\<exists>m \<in> set (chan p Ini). frame_kind m = Some Open) \<longrightarrow> sess p Ini \<noteq> None)"

definition clean :: "u32 \<Rightarrow> pair_state \<Rightarrow> bool" where
  "clean w p \<longleftrightarrow> (\<forall>x. settled w p x) \<and> (\<forall>x. unclosed p x) \<and> open_pending p"

lemma both_sides: "P x \<Longrightarrow> P (peer x) \<Longrightarrow> P y"
  by (cases x; cases y) simp_all

lemma cleanI:
  assumes "settled w p x" "settled w p (peer x)" "unclosed p x" "unclosed p (peer x)" "open_pending p"
  shows "clean w p"
  using assms both_sides [of "settled w p" x] both_sides [of "unclosed p" x] by (auto simp: clean_def)

lemma cleanD:
  assumes "clean w p"
  shows "settled w p x" "unclosed p x" "open_pending p"
  using assms by (auto simp: clean_def)

lemma clean_init: "clean w (pair_init w)"
  by (rule cleanI [where x = Ini])
    (auto simp: settled_def unclosed_def open_pending_def pair_init_def initiator_def is_closed_iff)

text \<open>A receiver that has seen the peer's CLOSE has received everything.\<close>

lemma link_remote_closed:
  assumes "link_ok S q r (Some t) sub del" and "ss_remote_closed t"
  shows "payloads q = []" "del = sub" "\<And>s. S = Some s \<Longrightarrow> ss_local_closed s"
proof -
  have "closes_ok True q" using assms by (simp add: link_ok_def)
  then show "payloads q = []" by (induction q) (auto simp: is_data_def split: if_splits)
  then show "del = sub" using assms by (simp add: link_ok_def)
  show "\<And>s. S = Some s \<Longrightarrow> ss_local_closed s" using assms by (simp add: link_ok_def)
qed

lemma link_close_arrives:
  assumes "link_ok S (m # q) r (Some t) sub del" and "frame_kind m = Some Close"
  shows "payloads q = []" "del = sub" "\<And>s. S = Some s \<Longrightarrow> ss_local_closed s"
proof -
  have m: "\<not> is_data m" using assms(2) by (simp add: is_data_def)
  have "closes_ok True q" using assms by (simp add: link_ok_def)
  then show "payloads q = []" by (induction q) (auto simp: is_data_def split: if_splits)
  then show "del = sub" using assms m by (simp add: link_ok_def)
  show "\<And>s. S = Some s \<Longrightarrow> ss_local_closed s" using assms by (simp add: link_ok_def)
qed

lemma no_open:
  "plain q \<Longrightarrow> m \<in> set q \<Longrightarrow> frame_kind m \<noteq> Some Open"
  "only_reset q \<Longrightarrow> m \<in> set q \<Longrightarrow> frame_kind m \<noteq> Some Open"
  "plain q \<Longrightarrow> m \<in> set q \<Longrightarrow> frame_kind m \<noteq> None"
  "only_reset q \<Longrightarrow> m \<in> set q \<Longrightarrow> frame_kind m \<noteq> None"
  by (auto simp: plain_def only_reset_def)

lemma clean_transmit:
  assumes inv: "pair_inv w p" and c: "clean w p" and s: "sess p x = Some s"
    and m: "frame_kind m \<noteq> Some Open" "is_data m \<Longrightarrow> \<not> ss_local_closed s"
    and hs: "x = Ini \<or> is_data m \<Longrightarrow> ss_handshake s = HsEstablished"
    and s': "ss_remote_closed s' = ss_remote_closed s" "\<not> ss_reset s'"
      "ss_local_closed s' \<longleftrightarrow> ss_local_closed s \<or> frame_kind m = Some Close"
    and sub: "\<not> is_data m \<Longrightarrow> sub = submitted p x"
  shows "clean w ((transmit x m (retain s') p)\<lparr>submitted := (submitted p)(x := sub)\<rparr>)"
    (is "clean w ?p")
proof (rule cleanI [where x = x])
  have st: "settled w p x" using cleanD [OF c] by blast
  show "settled w ?p x"
  proof -
    have "\<not> is_data m" if "sess p (peer x) = None"
      using st that s m hs by (auto simp: settled_def)
    moreover have "ss_local_closed s \<and> (ss_remote_closed s \<or> has_close (chan p (peer x)))"
      if "sess p (peer x) = None"
      using st that s hs by (auto simp: settled_def)
    ultimately show ?thesis
      using st s' sub by (auto simp: settled_def transmit_def retain_def split: if_splits)
  qed
  show "settled w ?p (peer x)"
  proof (cases "is_closed s'")
    case True
    have "\<not> is_closed s" using cleanD(2) [OF c] s by (simp add: unclosed_def)
    with True s' have cl: "ss_remote_closed s" "frame_kind m = Some Close" by (auto simp: is_closed_iff)
    have l: "link_ok (sess p (peer x)) (chan p (peer x)) (chan p x) (Some s) (submitted p (peer x)) (delivered p x)"
      using linkD [OF pair_invD(2) [OF inv, of "peer x"]] s by simp
    show ?thesis
      using link_remote_closed [OF l cl(1)] cl(2) by (auto simp: settled_def transmit_def)
  next
    case False
    then show ?thesis by (simp add: settled_def transmit_def retain_def)
  qed
  show "unclosed ?p x" by (auto simp: unclosed_def transmit_def dest: retain_SomeD)
  show "unclosed ?p (peer x)" using cleanD(2) [OF c, of "peer x"] by (simp add: unclosed_def transmit_def)
  show "open_pending ?p"
  proof (cases x)
    case Ini
    then have "\<not> (\<exists>m \<in> set (chan p Ini). frame_kind m = Some Open)"
      using pair_invD(1) [OF inv] s hs
      by (auto elim!: phaseE simp: waiting_def initiator_def dest: no_open)
    then show ?thesis using Ini m by (simp add: open_pending_def transmit_def)
  next
    case Rsp
    then show ?thesis using cleanD(3) [OF c] by (simp add: open_pending_def transmit_def)
  qed
qed

text \<open>A frame arrives at a live session, which it may end.\<close>

lemma route_live:
  assumes "route_frame (fst m) (Some t) = (r, T')" "frame_kind m = Some f" "f \<noteq> Reset" "\<And>e. r \<noteq> Violation e"
  obtains a t' where "on_recv f (fst m) t = (Ok a, t')" "r = Happened a" "T' = retain t'" "f \<noteq> Open"
  using assms
  by (auto simp: route_frame_def frame_kind_def split: if_splits prod.splits result.splits)

lemma on_recv_closed:
  assumes "on_recv f h t = (Ok a, t')" "f \<noteq> Reset"
  shows "ss_local_closed t' = ss_local_closed t" "ss_reset t' = ss_reset t"
    "ss_remote_closed t' \<longleftrightarrow> ss_remote_closed t \<or> f = Close" "a = AccData \<Longrightarrow> f = Data"
  using assms by (auto simp: on_recv_def split: if_splits stream_frame.splits)

lemma kind_in_phase:
  assumes "phase w p" "m \<in> set (chan p x)" "unreset p"
  obtains f where "frame_kind m = Some f" "f \<noteq> Reset"
proof -
  have "frame_kind m \<noteq> None"
    using assms(1,2) by (cases x) (auto elim!: phaseE simp: waiting_def dest: no_open)
  moreover have "frame_kind m \<noteq> Some Reset" using assms(2,3) by (auto simp: unreset_def)
  ultimately show thesis using that by auto
qed

text \<open>When an arrival ends the receiver, its peer has closed and everything has been delivered.\<close>

lemma receiver_ends:
  assumes fw: "link_ok S (m # q) r (Some t) sub del" and bw: "link_ok (Some t) r (m # q) S sub' del'"
    and t': "on_recv f (fst m) t = (Ok a, t')" and f: "frame_kind m = Some f" "f \<noteq> Reset"
    and rs: "\<not> ss_reset t" and cl: "is_closed t'"
  shows "payloads q = [] \<and> a \<noteq> AccData \<and> del = sub \<and>
    (\<forall>s. S = Some s \<longrightarrow> ss_local_closed s \<and> (ss_remote_closed s \<or> has_close r))"
proof -
  note ch = on_recv_closed [OF t' f(2)]
  have lc: "ss_local_closed t" and rc: "ss_remote_closed t \<or> f = Close"
    using cl ch rs by (auto simp: is_closed_iff)
  have "payloads q = [] \<and> \<not> is_data m \<and> del = sub \<and> (\<forall>s. S = Some s \<longrightarrow> ss_local_closed s)"
    using rc link_remote_closed [OF fw] link_close_arrives [OF fw] f
    by (auto simp: is_data_def split: if_splits)
  moreover have "ss_remote_closed s \<or> has_close r" if "S = Some s" for s
    using bw lc that by (simp add: link_ok_def)
  ultimately show ?thesis using f ch(4) by (auto simp: is_data_def)
qed

lemma open_in_phase:
  assumes "phase w p" "m \<in> set (chan p x)" "frame_kind m = Some Open"
  shows "x = Ini \<and> chan p Rsp = []"
  using assms by (cases x) (auto elim!: phaseE simp: waiting_def dest: no_open)

lemma receive_facts:
  assumes inv: "pair_inv w p" and u: "unreset p" and ch: "chan p x = m # q"
  obtains f r T where "frame_kind m = Some f" "f \<noteq> Reset" "route_frame (fst m) (sess p (peer x)) = (r, T)"
    "\<And>e. r \<noteq> Violation e" "f = Open \<Longrightarrow> x = Ini \<and> chan p Rsp = []"
proof -
  have ph: "phase w p" using inv by (rule pair_invD)
  obtain f where f: "frame_kind m = Some f" "f \<noteq> Reset" using kind_in_phase [OF ph _ u, of m x] ch by auto
  obtain r T where rt: "route_frame (fst m) (sess p (peer x)) = (r, T)" by fastforce
  have "r \<noteq> Violation e" for e
    using pair_invD(4) [OF inv_deliver [OF inv ch]] by (auto simp: receive_eq [OF rt])
  then show thesis using that [OF f rt] open_in_phase [OF ph, of m x] ch f(1) by auto
qed

text \<open>The direction of the frame, then the opposite one.\<close>

lemma settled_receive:
  assumes inv: "pair_inv w p" and c: "clean w p" and u: "unreset p" and ch: "chan p x = m # q"
  shows "settled w (receive x m q p) x"
proof (rule receive_facts [OF inv u ch])
  fix f r T
  assume f: "frame_kind m = Some f" "f \<noteq> Reset" and rt: "route_frame (fst m) (sess p (peer x)) = (r, T)"
    and nv: "\<And>e. r \<noteq> Violation e"
  note p' = receive_eq [OF rt]
  show ?thesis
  proof (cases "sess p (peer x)")
    case None
    show ?thesis
    proof (cases "f = Open")
      case True
      then show ?thesis using rt None f by (auto simp: p' settled_def route_frame_def frame_kind_def)
    next
      case False
      then have "r = Ignored" "T = None" using rt None route_none [OF f(1)] by auto
      then show ?thesis
        using cleanD(1) [OF c, of x] None ch False f by (auto simp: p' settled_def split: if_splits)
    qed
  next
    case (Some t)
    have l: "link_ok (sess p x) (m # q) (chan p (peer x)) (Some t) (submitted p x) (delivered p (peer x))"
      "link_ok (Some t) (chan p (peer x)) (m # q) (sess p x) (submitted p (peer x)) (delivered p x)"
      using linkD [OF pair_invD(2) [OF inv, of x]] linkD [OF pair_invD(2) [OF inv, of "peer x"]] ch Some by simp_all
    obtain a t' where t': "on_recv f (fst m) t = (Ok a, t')" "r = Happened a" "T = retain t'"
      using route_live [OF rt [unfolded Some] f nv] by metis
    have "\<not> ss_reset t" using pair_invD(3) [OF inv, of "peer x"] Some by (simp add: live_def)
    from receiver_ends [OF l t'(1) f this] t'(2,3)
    show ?thesis by (auto simp: p' settled_def retain_def split: if_splits)
  qed
qed

lemma settled_receive_back:
  assumes inv: "pair_inv w p" and c: "clean w p" and u: "unreset p" and ch: "chan p x = m # q"
  shows "settled w (receive x m q p) (peer x)"
proof (rule receive_facts [OF inv u ch])
  fix f r T
  assume f: "frame_kind m = Some f" "f \<noteq> Reset" and rt: "route_frame (fst m) (sess p (peer x)) = (r, T)"
    and nv: "\<And>e. r \<noteq> Violation e" and op: "f = Open \<Longrightarrow> x = Ini \<and> chan p Rsp = []"
  note p' = receive_eq [OF rt]
  have bw: "settled w p (peer x)" using cleanD [OF c] by blast
  show ?thesis
  proof (cases "sess p (peer x)")
    case None
    have "T = None" if "sess p x = None"
      using rt None route_none [OF f(1)] op cleanD(3) [OF c] that ch f
      by (cases "f = Open") (auto simp: open_pending_def)
    then show ?thesis using bw by (auto simp: p' settled_def)
  next
    case (Some t)
    obtain a t' where t': "on_recv f (fst m) t = (Ok a, t')" "r = Happened a" "T = retain t'"
      using route_live [OF rt [unfolded Some] f nv] by metis
    have "chan p Rsp \<noteq> []" if "peer x = Ini" using that ch by (cases x) simp_all
    then show ?thesis
      using bw Some t'(3) on_recv_closed [OF t'(1) f(2)] ch f
      by (auto simp: p' settled_def dest!: retain_SomeD)
  qed
qed

lemma clean_receive:
  assumes inv: "pair_inv w p" and c: "clean w p" and u: "unreset p" and ch: "chan p x = m # q"
  shows "clean w (receive x m q p)" (is "clean w ?p")
proof (rule cleanI [OF settled_receive [OF assms] settled_receive_back [OF assms]])
  obtain f r T where f: "frame_kind m = Some f" and rt: "route_frame (fst m) (sess p (peer x)) = (r, T)"
    by (rule receive_facts [OF inv u ch])
  note p' = receive_eq [OF rt]
  show "unclosed ?p x" using cleanD(2) [OF c] by (auto simp: p' unclosed_def)
  show "unclosed ?p (peer x)"
    using rt f by (auto simp: p' unclosed_def route_frame_def frame_kind_def responder_def is_closed_iff dest!: retain_SomeD
      split: option.splits if_splits prod.splits result.splits)
  show "open_pending ?p"
    unfolding p' using cleanD(3) [OF c] ch open_in_phase [OF pair_invD(1) [OF inv], of _ Ini]
    by (cases x) (auto simp: open_pending_def)
qed

text \<open>A live session sends a frame and stays live.\<close>

lemma clean_send:
  assumes inv: "pair_inv w p" and c: "clean w p" and s: "sess p x = Some s"
    and m: "frame_kind m \<notin> {Some Open, Some Close}" "is_data m \<Longrightarrow> \<not> ss_local_closed s"
    and hs: "x = Ini \<or> is_data m \<Longrightarrow> ss_handshake s = HsEstablished"
    and s': "ss_remote_closed s' = ss_remote_closed s" "ss_reset s' = ss_reset s" "ss_local_closed s' = ss_local_closed s"
    and sub: "\<not> is_data m \<Longrightarrow> sub = submitted p x"
  shows "clean w ((transmit x m (Some s') p)\<lparr>submitted := (submitted p)(x := sub)\<rparr>)"
proof -
  have "\<not> is_closed s" "\<not> ss_reset s"
    using cleanD(2) [OF c, of x] pair_invD(3) [OF inv, of x] s by (auto simp: unclosed_def live_def)
  moreover from this have "retain s' = Some s'" using s' by (simp add: retain_def is_closed_iff)
  ultimately show ?thesis
    using clean_transmit [OF inv c s, of m s' sub] m hs s' sub by auto
qed

lemmas clean_send_quiet = clean_send [where sub = "submitted p x" and p = p and x = x for p x, unfolded transmit_submitted]

lemma clean_step:
  assumes "pair_step p p'" and inv: "pair_inv w p" and c: "clean w p" and u: "unreset p" "unreset p'"
  shows "clean w p'"
  using assms(1)
proof cases
  case (open_ack x s v h s')
  have "x \<noteq> Ini" using open_ack pair_invD(3) [OF inv, of x]
    by (auto simp: build_open_ack_def live_def split: if_splits)
  then show ?thesis
    unfolding open_ack(1) using open_ack(3)
    by (intro clean_send_quiet [OF inv c open_ack(2)]) (auto simp: build_open_ack_def split: if_splits)
next
  case (data x s h s' d)
  then show ?thesis
    unfolding data(1) using data(3)
    by (intro clean_send [OF inv c data(2)]) (auto simp: build_data_def Let_def split: if_splits)
next
  case (credit x s n h s')
  then show ?thesis
    unfolding credit(1) using credit(3)
    by (intro clean_send_quiet [OF inv c credit(2)]) (auto simp: build_credit_def split: if_splits)
next
  case (close x s h s')
  have s': "h = header Close 0 0" "s' = s\<lparr>ss_local_closed := True\<rparr>" "\<not> ss_reset s"
    using close pair_invD(3) [OF inv, of x] by (auto simp: build_close_def live_def split: if_splits)
  have "clean w ((transmit x (h, []) (retain s') p)\<lparr>submitted := (submitted p)(x := submitted p x)\<rparr>)"
    by (rule clean_transmit [OF inv c close(2)]) (use s' close in auto)
  then show ?thesis unfolding close(1) by (simp only: transmit_submitted)
next
  case (reset x s h s')
  then have False using u(2) [unfolded unreset_def, rule_format, of "(header Reset 0 0, [])" x]
    by (auto simp: transmit_def build_reset_def)
  then show ?thesis ..
next
  case (deliver x m q)
  then show ?thesis using clean_receive [OF inv c u(1)] by simp
qed

lemma orderly_clean: "orderly w p \<Longrightarrow> clean w p"
  by (induction rule: orderly.induct)
    (blast intro: clean_init clean_step pair_inv_reachable orderly_reachable orderly_unreset)+

section \<open>Delivering everything\<close>

inductive deliver_step :: "pair_state \<Rightarrow> pair_state \<Rightarrow> bool" where
  arrive: "chan p x = m # q \<Longrightarrow> deliver_step p (receive x m q p)"

definition in_flight :: "pair_state \<Rightarrow> nat" where
  "in_flight p = length (chan p Ini) + length (chan p Rsp)"

lemma chan_receive [simp]: "chan (receive x m q p) = (chan p)(x := q)"
  by (simp add: receive_def split: prod.split)

lemma in_flight_step: "deliver_step p p' \<Longrightarrow> in_flight p = Suc (in_flight p')"
proof (induction rule: deliver_step.induct)
  case (arrive p x m q)
  then show ?case by (cases x) (simp_all add: in_flight_def)
qed

function drain :: "pair_state \<Rightarrow> pair_state" where
  "drain p =
     (case chan p Ini of
        m # q \<Rightarrow> drain (receive Ini m q p)
      | [] \<Rightarrow> (case chan p Rsp of m # q \<Rightarrow> drain (receive Rsp m q p) | [] \<Rightarrow> p))"
  by auto

termination
  by (relation "measure in_flight") (auto simp: in_flight_def)

declare drain.simps [simp del]

lemma receive_commute:
  "receive Rsp n r (receive Ini m q p) = receive Ini m q (receive Rsp n r p)"
  by (auto simp: receive_def fun_upd_twist disj_ac split: prod.split)

lemma drain_step: "deliver_step p p' \<Longrightarrow> drain p' = drain p"
proof (induction "in_flight p" arbitrary: p p' rule: less_induct)
  case less
  from less.prems obtain x n r where p': "chan p x = n # r" "p' = receive x n r p"
    by (auto elim: deliver_step.cases)
  show ?case
  proof (cases x)
    case Ini
    then show ?thesis using p' by (simp add: drain.simps [of p])
  next
    case Rsp
    show ?thesis
    proof (cases "chan p Ini")
      case Nil
      then show ?thesis using p' Rsp by (simp add: drain.simps [of p])
    next
      case (Cons m q)
      let ?b = "receive Ini m q p"
      have b: "deliver_step p ?b" using Cons by (rule deliver_step.arrive)
      have "deliver_step ?b (receive Rsp n r ?b)" using p' Rsp by (intro deliver_step.arrive) simp
      with less.hyps [OF _ this] in_flight_step [OF b] have "drain (receive Rsp n r ?b) = drain ?b" by simp
      moreover have "drain p = drain ?b" using Cons by (simp add: drain.simps [of p])
      moreover have "drain p' = drain (receive Ini m q p')"
        unfolding p'(2) Rsp using Cons by (simp add: drain.simps [of "receive Rsp n r p"])
      ultimately show ?thesis using p' Rsp by (simp add: receive_commute)
    qed
  qed
qed

lemma drained: "in_flight p = 0 \<Longrightarrow> drain p = p"
  by (simp add: in_flight_def drain.simps [of p])

lemma deliveries:
  assumes "(deliver_step ^^ n) p p'"
  shows "n + in_flight p' = in_flight p \<and> drain p' = drain p"
  using assms
proof (induction n arbitrary: p')
  case (Suc n)
  then obtain p1 where "(deliver_step ^^ n) p p1" "deliver_step p1 p'" by auto
  then show ?case using Suc.IH [of p1] in_flight_step [of p1 p'] drain_step [of p1 p'] by simp
qed simp

lemma drain_invariant:
  assumes step: "\<And>p x m q. P p \<Longrightarrow> chan p x = m # q \<Longrightarrow> P (receive x m q p)" and "P p"
  shows "P (drain p) \<and> chan (drain p) x = []"
  using assms(2)
proof (induction p rule: drain.induct)
  case (1 p)
  show ?case
  proof (cases "chan p Ini")
    case Ini: Nil
    then show ?thesis
      using 1 step by (cases "chan p Rsp"; cases x) (auto simp: drain.simps [of p])
  next
    case (Cons m q)
    then show ?thesis using 1 step by (simp add: drain.simps [of p])
  qed
qed

text \<open>A delivery keeps a run orderly and submits nothing.\<close>

lemma orderly_receive:
  assumes "orderly w p" and "chan p x = m # q"
  shows "orderly w (receive x m q p)"
proof (rule orderly_step [OF assms(1) pair_step.deliver [of p x m q]])
  have "set q \<subseteq> set (chan p x)" using assms(2) by auto
  then show "unreset (receive x m q p)"
    using orderly_unreset [OF assms(1)] by (fastforce simp: unreset_def)
qed (use assms in simp)

lemma submitted_receive [simp]: "submitted (receive x m q p) = submitted p"
  by (simp add: receive_def split: prod.split)

lemma drain_orderly:
  assumes "orderly w p"
  shows "orderly w (drain p) \<and> submitted (drain p) = submitted p \<and> chan (drain p) x = []"
  using drain_invariant [where P = "\<lambda>p'. orderly w p' \<and> submitted p' = submitted p"] assms orderly_receive
  by auto

text \<open>With nothing on the way, everything has arrived and the ends agree.\<close>

lemma drained_complete:
  assumes "orderly w p" and "\<And>x. chan p x = []"
  shows "delivered p (peer x) = submitted p x" "sess p (peer x) = None \<Longrightarrow> sess p x = None"
proof -
  note inv = pair_inv_reachable [OF orderly_reachable [OF assms(1)]]
  have st: "settled w p x" "unclosed p x" using cleanD [OF orderly_clean [OF assms(1)]] by blast+
  show "delivered p (peer x) = submitted p x"
    using link_log [OF linkD [OF pair_invD(2) [OF inv, of x]]] st(1) assms(2)
    by (cases "sess p (peer x)") (auto simp: settled_def)
  show "sess p x = None" if "sess p (peer x) = None"
    using st that assms(2) by (cases "sess p x") (auto simp: settled_def unclosed_def is_closed_iff)
qed

lemma drain_reached: "(deliver_step ^^ in_flight p) p (drain p)"
proof (induction p rule: drain.induct)
  case (1 p)
  show ?case
  proof (cases "chan p Ini")
    case Nil
    show ?thesis
    proof (cases "chan p Rsp")
      case (Cons m q)
      have d: "deliver_step p (receive Rsp m q p)" using Cons by (rule deliver_step.arrive)
      show ?thesis
        using 1(1) [OF Nil Cons] relpowp_Suc_I2 [of deliver_step, OF d] in_flight_step [OF d] Nil Cons
        by (simp add: drain.simps [of p])
    qed (simp add: Nil in_flight_def drain.simps [of p])
  next
    case (Cons m q)
    have d: "deliver_step p (receive Ini m q p)" using Cons by (rule deliver_step.arrive)
    show ?thesis
      using 1(2) [OF Cons] relpowp_Suc_I2 [of deliver_step, OF d] in_flight_step [OF d] Cons by (simp add: drain.simps [of p])
  qed
qed

section \<open>Properties\<close>

text \<open>
  C6: everything sent arrives. On a stream that nobody resets, delivering the frames on the way,
  in any order across the two directions, ends after as many deliveries as there are frames, in
  a state that does not depend on the order. There every payload submitted has been delivered,
  also when the stream was closed in between, no frame was refused, and either both ends still
  hold the stream or neither does.
\<close>
theorem orderly_stream_drains:
  assumes "orderly w p"
  shows "(deliver_step ^^ in_flight p) p (drain p) \<and>
    ((deliver_step ^^ n) p p' \<longrightarrow> n \<le> in_flight p \<and> (n = in_flight p \<longrightarrow> p' = drain p)) \<and>
    chan (drain p) x = [] \<and> delivered (drain p) (peer x) = submitted p x \<and> \<not> violated (drain p) \<and>
    (sess (drain p) Ini = None \<longleftrightarrow> sess (drain p) Rsp = None)"
proof (intro conjI impI)
  have d: "orderly w (drain p)" "submitted (drain p) = submitted p" "chan (drain p) y = []" for y
    using drain_orderly [OF assms] by blast+
  show "(deliver_step ^^ in_flight p) p (drain p)" by (rule drain_reached)
  show "chan (drain p) x = []" by (rule d)
  show "delivered (drain p) (peer x) = submitted p x" using drained_complete(1) [OF d(1,3)] d(2) by simp
  show "\<not> violated (drain p)" using pair_invD(4) [OF pair_inv_reachable [OF orderly_reachable [OF d(1)]]] .
  show "sess (drain p) Ini = None \<longleftrightarrow> sess (drain p) Rsp = None"
    using drained_complete(2) [OF d(1,3), of Ini] drained_complete(2) [OF d(1,3), of Rsp] by auto
  assume "(deliver_step ^^ n) p p'"
  then have ds: "n + in_flight p' = in_flight p \<and> drain p' = drain p" by (rule deliveries)
  then show "n \<le> in_flight p" by linarith
  show "p' = drain p" if "n = in_flight p" using ds drained [of p'] that by simp
qed

text \<open>A second chunk on the sample stream, still on the way.\<close>

definition sample_sending :: pair_state where
  "sample_sending = sample_state (Some (sample_sender 0 2)) (Some (sample_receiver 1 1))
     [(header Data 1 0, hello)] [] [hello, hello] [hello]"

lemma sample_sending_orderly: "orderly 4 sample_sending"
  using orderly_step [OF sample_exchange_orderly pair_step.data [where x = Ini and d = hello, OF _ sample_builds(3)]]
  by (simp add: sample_exchange_def sample_moves sample_sending_def)

theorem orderly_stream_drains_witness:
  "orderly 4 sample_sending \<and> in_flight sample_sending = 1 \<and>
   delivered (drain sample_sending) Rsp = [hello, hello]"
  using orderly_stream_drains [OF sample_sending_orderly, of 0 _ Ini] sample_sending_orderly
  by (simp add: sample_sending_def in_flight_def)

end
