(* ===== verification/Stream_Network.thy ===== *)
theory Stream_Network
  imports Stream_Endpoint Stream_Drain
begin

text \<open>
  Two \<open>StreamEndpoint\<close>s of \<open>src/stream.rs\<close> exchanging sealed envelopes over two ordered lines. Any
  number of streams run between them, opened by either host. Seen from one correlation id, the
  two endpoints are the pair of sessions of \<open>Stream_Pair\<close>: every call and every arrival of a
  sealed frame is a step of that pair, or none of its steps. So what holds of the pair of state
  machines holds of the endpoints, with seals, counters and the anti-replay guard in between.
\<close>

section \<open>The system\<close>

type_synonym host = bool \<comment> \<open>the other host of \<open>a\<close> is \<open>\<not> a\<close>\<close>

text \<open>An envelope on a line, with what its sender sealed.\<close>

record packet =
  pk_env :: dig_message_envelope
  pk_payload :: bytes
  pk_counter :: u64
  pk_sent :: u64
  pk_expires :: u64

definition pk_cid :: "packet \<Rightarrow> bytes32" where
  "pk_cid p = env_correlation_id (pk_env p)"

definition pk_wire :: "packet \<Rightarrow> wire" where
  "pk_wire p = (the (env_stream (pk_env p)), pk_payload p)"

record 'sk network =
  ends :: "host \<Rightarrow> 'sk stream_endpoint"
  lines :: "host \<Rightarrow> packet list" \<comment> \<open>envelopes on the way from this host, the oldest first\<close>
  origin :: "bytes32 \<Rightarrow> (host \<times> u32) option" \<comment> \<open>who opened the stream, with which window\<close>
  sent_log :: "host \<Rightarrow> bytes32 \<Rightarrow> bytes list"
  recv_log :: "host \<Rightarrow> bytes32 \<Rightarrow> bytes list"
  refused :: "bytes32 \<Rightarrow> bool" \<comment> \<open>a frame was answered as a protocol violation\<close>

definition net_init :: "(host \<Rightarrow> 'sk stream_endpoint) \<Rightarrow> 'sk network" where
  "net_init E = \<lparr>ends = E, lines = (\<lambda>_. []), origin = (\<lambda>_. None), sent_log = (\<lambda>_ _. []),
     recv_log = (\<lambda>_ _. []), refused = (\<lambda>_. False)\<rparr>"

text \<open>Host \<open>a\<close> transmits an envelope and is left in state \<open>ep\<close>.\<close>

definition put_line ::
    "host \<Rightarrow> dig_message_envelope \<Rightarrow> bytes \<Rightarrow> u64 \<Rightarrow> u64 \<Rightarrow> 'sk stream_endpoint \<Rightarrow> 'sk network \<Rightarrow> 'sk network" where
  "put_line a e d now ex ep N = N\<lparr>ends := (ends N)(a := ep), lines := (lines N)(a := lines N a @
     [\<lparr>pk_env = e, pk_payload = d, pk_counter = send_counter (ends N a), pk_sent = now, pk_expires = ex\<rparr>])\<rparr>"

definition log_sent :: "host \<Rightarrow> bytes32 \<Rightarrow> bytes list \<Rightarrow> 'sk network \<Rightarrow> 'sk network" where
  "log_sent a k ds N = N\<lparr>sent_log := (sent_log N)(a := (sent_log N a)(k := sent_log N a k @ ds))\<rparr>"

text \<open>The oldest envelope of host \<open>a\<close> is taken off the line and leaves the other host in state \<open>ep\<close>.\<close>

definition take_line ::
    "host \<Rightarrow> bytes32 \<Rightarrow> packet list \<Rightarrow> stream_accept res \<Rightarrow> 'sk stream_endpoint \<Rightarrow> 'sk network \<Rightarrow> 'sk network" where
  "take_line a k q r ep N = N\<lparr>ends := (ends N)(\<not> a := ep), lines := (lines N)(a := q),
     recv_log := (recv_log N)(\<not> a := (recv_log N (\<not> a))(k := recv_log N (\<not> a) k @
       (case r of Ok (Event (EvData d)) \<Rightarrow> [d] | _ \<Rightarrow> []))),
     refused := (refused N)(k := refused N k \<or> (\<exists>f m. r = Ok (ResetWith f (StreamProtocol m))))\<rparr>"

text \<open>The answer to an arrival goes on the line back.\<close>

fun answer :: "u64 \<Rightarrow> stream_accept res \<Rightarrow> u64 \<Rightarrow> packet list" where
  "answer now (Ok (ResetWith f c)) n =
     [\<lparr>pk_env = f, pk_payload = [], pk_counter = n, pk_sent = now, pk_expires = 0\<rparr>]"
| "answer now _ n = []"

text \<open>
  Honest use: the calls of the endpoint that succeed, a correlation id opened once, CLOSE only on
  an established stream, at most \<open>2 ^ 64 - 1\<close> credits outstanding, chunks a receiver can
  decompress, counters below the end of their range; an envelope arrives in time, in order and
  once, and the entropy source does not fail when a RESET is to be sealed.
\<close>

inductive net_step :: "'sk deps \<Rightarrow> (host \<Rightarrow> resolver) \<Rightarrow> 'sk network \<Rightarrow> 'sk network \<Rightarrow> bool" for D rv where
  n_open: "endpoint_open D en k w now ex (ends N a) = (Ok e, ep) \<Longrightarrow> origin N k = None \<Longrightarrow>
    send_counter (ends N a) \<noteq> -1 \<Longrightarrow>
    net_step D rv N ((put_line a e [] now ex ep N)\<lparr>origin := (origin N)(k \<mapsto> (a, w))\<rparr>)"
| n_open_ack: "open_ack D en k w now ex (ends N a) = (Ok e, ep) \<Longrightarrow> send_counter (ends N a) \<noteq> -1 \<Longrightarrow>
    net_step D rv N (put_line a e [] now ex ep N)"
| n_data: "send_data D en k d now ex (ends N a) = (Ok e, ep) \<Longrightarrow> send_counter (ends N a) \<noteq> -1 \<Longrightarrow>
    length d \<le> MAX_DECOMPRESSED_BYTES \<Longrightarrow>
    net_step D rv N (log_sent a k [d] (put_line a e d now ex ep N))"
| n_credit: "grant_credit D en k n now ex (ends N a) = (Ok e, ep) \<Longrightarrow> send_counter (ends N a) \<noteq> -1 \<Longrightarrow>
    session k (ends N a) = Some s \<Longrightarrow> unat (ss_recv_window_remaining s) + unat n < 2 ^ 64 \<Longrightarrow>
    net_step D rv N (put_line a e [] now ex ep N)"
| n_close: "endpoint_close D en k now ex (ends N a) = (Ok e, ep) \<Longrightarrow> send_counter (ends N a) \<noteq> -1 \<Longrightarrow>
    session k (ends N a) = Some s \<Longrightarrow> ss_handshake s = HsEstablished \<Longrightarrow>
    net_step D rv N (put_line a e [] now ex ep N)"
| n_reset: "endpoint_reset D en k now ex (ends N a) = (Ok e, ep) \<Longrightarrow> send_counter (ends N a) \<noteq> -1 \<Longrightarrow>
    net_step D rv N (put_line a e [] now ex ep N)"
| n_arrive: "lines N a = p # q \<Longrightarrow> timely (pk_sent p) (pk_expires p) now \<Longrightarrow>
    accept D en (pk_env p) (rv (\<not> a)) now (ends N (\<not> a)) = (Ok r, ep) \<Longrightarrow>
    send_counter (ends N (\<not> a)) \<noteq> -1 \<Longrightarrow>
    net_step D rv N ((take_line a (pk_cid p) q (Ok r) ep N)
      \<lparr>lines := (lines N)(a := q, \<not> a := lines N (\<not> a) @ answer now (Ok r) (send_counter (ends N (\<not> a))))\<rparr>)"

inductive net_reachable ::
    "'sk deps \<Rightarrow> (host \<Rightarrow> resolver) \<Rightarrow> (host \<Rightarrow> 'sk stream_endpoint) \<Rightarrow> 'sk network \<Rightarrow> bool" for D rv E where
  net_start: "net_reachable D rv E (net_init E)"
| net_next: "net_reachable D rv E N \<Longrightarrow> net_step D rv N N' \<Longrightarrow> net_reachable D rv E N'"

section \<open>One stream of the network\<close>

text \<open>The host of a side of the stream that host \<open>i\<close> opened.\<close>

fun host_at :: "host \<Rightarrow> side \<Rightarrow> host" where
  "host_at i Ini = i"
| "host_at i Rsp = (\<not> i)"

lemma host_at_peer [simp]: "host_at i (peer y) = (\<not> host_at i y)"
  by (cases y) simp_all

lemma host_at_eq_iff [simp]: "host_at i x = host_at i y \<longleftrightarrow> x = y"
  by (cases x; cases y) simp_all

lemma host_side: obtains y where "host_at i y = a"
  using that [of Ini] that [of Rsp] by (cases "i = a") auto

definition stream_line :: "bytes32 \<Rightarrow> packet list \<Rightarrow> wire list" where
  "stream_line k q = map pk_wire (filter (\<lambda>p. pk_cid p = k) q)"

lemma stream_line_simps [simp]:
  "stream_line k [] = []"
  "stream_line k (p # q) = (if pk_cid p = k then pk_wire p # stream_line k q else stream_line k q)"
  "stream_line k (q @ q') = stream_line k q @ stream_line k q'"
  by (simp_all add: stream_line_def)

definition view :: "host \<Rightarrow> bytes32 \<Rightarrow> 'sk network \<Rightarrow> pair_state" where
  "view i k N = \<lparr>
     sess = (\<lambda>y. session k (ends N (host_at i y))),
     chan = (\<lambda>y. stream_line k (lines N (host_at i y))),
     submitted = (\<lambda>y. sent_log N (host_at i y) k),
     delivered = (\<lambda>y. recv_log N (host_at i y) k),
     violated = refused N k\<rparr>"

section \<open>Transmitting\<close>

text \<open>
  What every transmitting call does: it seals a frame of one stream with the next counter, leaves
  that stream in state \<open>S\<close> and everything else alone.
\<close>

definition transmits ::
    "'sk deps \<Rightarrow> 'sk stream_endpoint \<Rightarrow> bytes32 \<Rightarrow> stream_header \<Rightarrow> bytes \<Rightarrow> u64 \<Rightarrow> u64 \<Rightarrow> dig_message_envelope
      \<Rightarrow> stream_session option \<Rightarrow> 'sk stream_endpoint \<Rightarrow> bool" where
  "transmits D ep k h d now ex e S ep' \<longleftrightarrow>
     (\<exists>en A A'. same_config ep A \<and> send_counter A = send_counter ep \<and>
        seal_frame D en k h d now ex A = (Ok e, A')) \<and>
     (\<exists>f s v. h = header f s v) \<and>
     same_config ep ep' \<and> send_counter ep' = send_counter ep + 1 \<and> guard ep' = guard ep \<and>
     (\<forall>j. session j ep' = (if j = k then S else session j ep))"

lemma transmits_seal:
  assumes sf: "seal_frame D en k h d now ex (ep\<lparr>sessions := m\<rparr>) = (Ok e, ep1)"
    and h: "h = header f s v" and ep': "ep' = ep1\<lparr>sessions := m'\<rparr>"
    and m': "\<And>j. hm_get m' j = (if j = k then S else session j ep)"
  shows "transmits D ep k h d now ex e S ep'"
proof -
  have "ep1 = ep\<lparr>sessions := m, send_counter := send_counter ep + 1\<rparr>"
    using seal_frame_state [of D en k h d now ex "ep\<lparr>sessions := m\<rparr>"] sf by simp
  moreover have "\<exists>en A A'. same_config ep A \<and> send_counter A = send_counter ep \<and>
      seal_frame D en k h d now ex A = (Ok e, A')"
    using sf by (intro exI [of _ en] exI [of _ "ep\<lparr>sessions := m\<rparr>"] exI [of _ ep1]) simp
  ultimately show ?thesis using h ep' m' by (auto simp: transmits_def session_def)
qed

lemma seal_frame_sessions: "seal_frame D en k h d now ex ep = (r, ep1) \<Longrightarrow> sessions ep1 = sessions ep"
  by (auto simp: seal_frame_def Let_def)

lemma on_session_Ok:
  "on_session k f ep = (Ok h, ep') \<longleftrightarrow>
     (\<exists>s s'. session k ep = Some s \<and> f s = (Ok h, s') \<and> ep' = ep\<lparr>sessions := hm_insert k s' (sessions ep)\<rparr>)"
  by (cases "hm_get (sessions ep) k")
    (auto simp: on_session_def session_mut_def session_def split: prod.splits)

text \<open>The calls, on the session they name.\<close>

lemma open_transmits:
  assumes "endpoint_open D en k w now ex ep = (Ok e, ep')"
  shows "transmits D ep k (header Open 0 w) [] now ex e (Some (initiator w)) ep'"
proof -
  have sf: "seal_frame D en k (header Open 0 w) [] now ex
      (ep\<lparr>sessions := hm_insert k (initiator w) (sessions ep)\<rparr>) = (Ok e, ep')"
    using assms by (auto simp: endpoint_open_def Let_def split: if_splits)
  show ?thesis
    by (rule transmits_seal [OF sf refl, where m' = "sessions ep'"])
      (use seal_frame_sessions [OF sf] in \<open>simp_all add: session_def\<close>)
qed

lemma session_op_transmits:
  assumes "and_then_st (on_session k f ep) (\<lambda>hdr. seal_frame D en k hdr d now ex) = (Ok e, ep')"
    and "\<And>s h s'. f s = (Ok h, s') \<Longrightarrow> \<exists>fr n v. h = header fr n v"
  obtains s h s' where "session k ep = Some s" "f s = (Ok h, s')"
    "transmits D ep k h d now ex e (Some s') ep'"
proof -
  obtain s h s' where s: "session k ep = Some s" "f s = (Ok h, s')"
    and sf: "seal_frame D en k h d now ex (ep\<lparr>sessions := hm_insert k s' (sessions ep)\<rparr>) = (Ok e, ep')"
    using assms(1) by (auto simp: and_then_st_Ok_iff on_session_Ok)
  obtain fr n v where h: "h = header fr n v" using assms(2) [OF s(2)] by blast
  have "transmits D ep k h d now ex e (Some s') ep'"
    by (rule transmits_seal [OF sf h, where m' = "sessions ep'"])
      (use seal_frame_sessions [OF sf] in \<open>simp_all add: session_def\<close>)
  with s show thesis by (rule that)
qed

lemma build_headers:
  "build_open_ack w s = (Ok h, s') \<Longrightarrow> \<exists>fr n v. h = header fr n v"
  "build_data s = (Ok h, s') \<Longrightarrow> \<exists>fr n v. h = header fr n v"
  "build_credit c s = (Ok h, s') \<Longrightarrow> \<exists>fr n v. h = header fr n v"
  by (auto simp: build_open_ack_def build_data_def build_credit_def Let_def split: if_splits)

lemma open_ack_transmits:
  assumes "open_ack D en k w now ex ep = (Ok e, ep')"
  obtains s h s' where "session k ep = Some s" "build_open_ack w s = (Ok h, s')"
    "transmits D ep k h [] now ex e (Some s') ep'"
  by (rule session_op_transmits [OF assms [unfolded open_ack_def] build_headers(1)])

lemma send_data_transmits:
  assumes "send_data D en k d now ex ep = (Ok e, ep')"
  obtains s h s' where "session k ep = Some s" "build_data s = (Ok h, s')"
    "transmits D ep k h d now ex e (Some s') ep'"
  by (rule session_op_transmits [OF assms [unfolded send_data_def] build_headers(2)])

lemma grant_credit_transmits:
  assumes "grant_credit D en k n now ex ep = (Ok e, ep')"
  obtains s h s' where "session k ep = Some s" "build_credit n s = (Ok h, s')"
    "transmits D ep k h [] now ex e (Some s') ep'"
  by (rule session_op_transmits [OF assms [unfolded grant_credit_def] build_headers(3)])

lemma close_transmits:
  assumes "endpoint_close D en k now ex ep = (Ok e, ep')"
  obtains s h s' where "session k ep = Some s" "build_close s = (Ok h, s')"
    "transmits D ep k h [] now ex e (retain s') ep'"
proof -
  obtain s h s' ep1 where s: "session k ep = Some s" "build_close s = (Ok h, s')"
    and sf: "seal_frame D en k h [] now ex (ep\<lparr>sessions := hm_insert k s' (sessions ep)\<rparr>) = (Ok e, ep1)"
    and ep': "ep' = drop_if_closed k ep1"
    using assms by (auto simp: endpoint_close_def and_then_st_Ok_iff on_session_Ok)
  have ep1: "sessions ep1 = hm_insert k s' (sessions ep)" using seal_frame_sessions [OF sf] by simp
  have h: "h = header Close 0 0" using s(2) by (auto simp: build_close_def split: if_splits)
  have "transmits D ep k h [] now ex e (retain s') ep'"
    by (rule transmits_seal [OF sf h, where m' = "sessions ep'"])
      (use ep1 in \<open>auto simp: ep' drop_if_closed_def retain_def session_def\<close>)
  with s show thesis by (rule that)
qed

lemma reset_transmits:
  assumes "endpoint_reset D en k now ex ep = (Ok e, ep')"
  obtains s h s' where "session k ep = Some s" "build_reset s = (h, s')"
    "transmits D ep k h [] now ex e None ep'"
proof -
  obtain s s' ep1 where s: "session k ep = Some s" "build_reset s = (header Reset 0 0, s')"
    and sf: "seal_frame D en k (header Reset 0 0) [] now ex
        (ep\<lparr>sessions := hm_insert k s' (sessions ep)\<rparr>) = (Ok e, ep1)"
    and ep': "ep' = ep1\<lparr>sessions := hm_remove k (sessions ep1)\<rparr>"
    using assms by (auto simp: endpoint_reset_def and_then_st_Ok_iff on_session_Ok build_reset_def)
  have ep1: "sessions ep1 = hm_insert k s' (sessions ep)" using seal_frame_sessions [OF sf] by simp
  have "transmits D ep k (header Reset 0 0) [] now ex e None ep'"
    by (rule transmits_seal [OF sf refl ep']) (use ep1 in \<open>auto simp: session_def\<close>)
  with s show thesis by (rule that)
qed

section \<open>Lines\<close>

text \<open>
  What is on a line was sealed by its host with increasing counters, all above those the other
  host has seen from it.
\<close>

definition sealed_packet :: "'sk deps \<Rightarrow> 'sk stream_endpoint \<Rightarrow> packet \<Rightarrow> bool" where
  "sealed_packet D A p \<longleftrightarrow> length (pk_payload p) \<le> MAX_DECOMPRESSED_BYTES \<and>
     (\<exists>en A1 A2 f s v. same_config A A1 \<and> send_counter A1 = pk_counter p \<and>
        seal_frame D en (pk_cid p) (header f s v) (pk_payload p) (pk_sent p) (pk_expires p) A1 = (Ok (pk_env p), A2))"

definition upcoming :: "packet list \<Rightarrow> u64 \<Rightarrow> nat list" where
  "upcoming q c = map (\<lambda>p. unat (pk_counter p)) q @ [unat c]"

definition line_ok :: "'sk deps \<Rightarrow> 'sk stream_endpoint \<Rightarrow> packet list \<Rightarrow> u64 \<Rightarrow> replay_guard \<Rightarrow> bool" where
  "line_ok D A q c g \<longleftrightarrow> (\<forall>p \<in> set q. sealed_packet D A p) \<and> sorted_wrt (<) (upcoming q c) \<and>
     (\<exists>F. guard_models g F \<and> (\<forall>n \<in> F (local_did A, local_epoch A). \<forall>m \<in> set (upcoming q c). n < m))"

lemma line_transmit:
  assumes "line_ok D A q c g" and "sealed_packet D A p" and "pk_counter p = c" and "c \<noteq> -1"
  shows "line_ok D A (q @ [p]) (c + 1) g"
proof -
  have u: "upcoming (q @ [p]) (c + 1) = upcoming q c @ [Suc (unat c)]"
    using assms(3,4) by (simp add: upcoming_def unat_Suc)
  obtain F where F: "guard_models g F" "\<forall>n \<in> F (local_did A, local_epoch A). \<forall>m \<in> set (upcoming q c). n < m"
    and so: "sorted_wrt (<) (upcoming q c)" "\<forall>p \<in> set q. sealed_packet D A p"
    using assms(1) by (auto simp: line_ok_def simp del: split_paired_All)
  have le: "m \<le> unat c" if "m \<in> set (upcoming q c)" for m
    using so(1) that by (auto simp: upcoming_def sorted_wrt_append)
  have "unat c \<in> set (upcoming q c)" by (simp add: upcoming_def)
  then have "\<forall>n \<in> F (local_did A, local_epoch A). \<forall>m \<in> set (upcoming (q @ [p]) (c + 1)). n < m"
    unfolding u using F(2) by (auto intro: less_SucI)
  moreover have "sorted_wrt (<) (upcoming (q @ [p]) (c + 1))"
    unfolding u using so(1) le by (auto simp: sorted_wrt_append intro: le_imp_less_Suc)
  ultimately show ?thesis using F(1) so(2) assms(2) unfolding line_ok_def by auto
qed

lemma transmits_fields:
  assumes "transmits D ep k h d now ex e S ep'"
  shows "env_stream e = Some h" "env_correlation_id e = k"
  using assms seal_frame_fields unfolding transmits_def by metis+

lemma transmits_packet:
  assumes "transmits D ep k h d now ex e S ep'" and "same_config A ep" and "length d \<le> MAX_DECOMPRESSED_BYTES"
  shows "sealed_packet D A \<lparr>pk_env = e, pk_payload = d, pk_counter = send_counter ep, pk_sent = now, pk_expires = ex\<rparr>"
proof -
  obtain en A1 A2 f s v where sf: "same_config ep A1" "send_counter A1 = send_counter ep"
      "seal_frame D en k h d now ex A1 = (Ok e, A2)" "h = header f s v"
    using assms(1) by (auto simp: transmits_def)
  have "same_config A A1" using assms(2) sf(1) by (simp add: same_config_def)
  then show ?thesis
    unfolding sealed_packet_def pk_cid_def using sf assms(3) transmits_fields(2) [OF assms(1)] by (simp, blast)
qed

lemma listens_config:
  assumes "listens D rv A B" "same_config A A'" "same_config B B'"
  shows "listens D rv A' B'"
  using assms by (simp add: listens_def same_config_def)

context sealing
begin

lemma line_arrive:
  assumes lo: "line_ok D A (p # q) c (guard B)" and li: "listens D rv A B"
    and t: "timely (pk_sent p) (pk_expires p) now"
  obtains g' m f s v where "accept D en (pk_env p) rv now B = accept_opened D en (pk_env p) m now (B\<lparr>guard := g'\<rparr>)"
    "line_ok D A q c g'" "om_sender m = peer_did B" "om_shape m = StreamFrame" "om_payload m = pk_payload p"
    "env_stream (pk_env p) = Some (header f s v)"
proof -
  let ?key = "(local_did A, local_epoch A)"
  obtain F where F: "guard_models (guard B) F" "\<forall>n \<in> F ?key. \<forall>m \<in> set (upcoming (p # q) c). n < m"
    and so: "sorted_wrt (<) (upcoming (p # q) c)" "\<forall>p \<in> set (p # q). sealed_packet D A p"
    using lo by (auto simp: line_ok_def simp del: split_paired_All)
  obtain en1 A1 A2 f s v where sp: "length (pk_payload p) \<le> MAX_DECOMPRESSED_BYTES" "same_config A A1"
      "send_counter A1 = pk_counter p"
      "seal_frame D en1 (pk_cid p) (header f s v) (pk_payload p) (pk_sent p) (pk_expires p) A1 = (Ok (pk_env p), A2)"
    using so(2) by (auto simp: sealed_packet_def)
  have key: "(local_did A1, local_epoch A1) = ?key" using sp(2) by (simp add: same_config_def)
  have "finite (F ?key)" using guard_modelsD(3) [OF F(1), of ?key]
    by (cases "hm_get (guard B) ?key") (auto simp: represents_def)
  then have "F ?key = {} \<or> Max (F ?key) < unat (pk_counter p)"
    using F(2) by (cases "F ?key = {}") (auto simp: upcoming_def)
  then have acc: "accepts (F (local_did A1, local_epoch A1)) (unat (send_counter A1))"
    unfolding key using F(2) sp(3) by (auto simp: accepts_def upcoming_def intro: trans_less_add1)
  have li1: "listens D rv A1 B" by (rule listens_config [OF li sp(2) same_config_refl])
  show thesis
  proof (rule accept_sealed [OF sp(4) li1 F(1) t acc sp(1), where en' = en])
    fix g' F' m
    assume a: "accept D en (pk_env p) rv now B = accept_opened D en (pk_env p) m now (B\<lparr>guard := g'\<rparr>)"
      and g: "guard_models g' F'"
        "F' (local_did A1, local_epoch A1) = insert (unat (send_counter A1)) (F (local_did A1, local_epoch A1))"
      and m: "om_sender m = peer_did B" "om_shape m = StreamFrame" "om_payload m = pk_payload p"
        "env_stream (pk_env p) = Some (header f s v)"
    have "\<forall>n \<in> F' ?key. \<forall>m \<in> set (upcoming q c). n < m"
      using g(2) F(2) so(1) sp(3) unfolding key by (auto simp: upcoming_def)
    then have "line_ok D A q c g'" using g(1) so unfolding line_ok_def by (auto simp: upcoming_def)
    with a m show thesis by (intro that)
  qed
qed

end

section \<open>Views\<close>

lemma log_sent_Nil [simp]: "log_sent a k [] N = N"
  by (simp add: log_sent_def)

lemma log_sent_fields [simp]:
  "ends (log_sent a k ds N) = ends N" "lines (log_sent a k ds N) = lines N" "origin (log_sent a k ds N) = origin N"
  by (simp_all add: log_sent_def)

lemma view_put_other:
  assumes "transmits D (ends N a) k h d now ex e S ep" and "j \<noteq> k"
  shows "view i j (log_sent a k ds (put_line a e d now ex ep N)) = view i j N"
  using assms transmits_fields [OF assms(1)]
  by (auto simp: view_def put_line_def log_sent_def pk_cid_def transmits_def fun_eq_iff)

lemma view_put:
  assumes "transmits D (ends N (host_at i y)) k h d now ex e S ep"
  shows "view i k (log_sent (host_at i y) k ds (put_line (host_at i y) e d now ex ep N))
    = (transmit y (h, d) S (view i k N))
        \<lparr>submitted := (submitted (view i k N))(y := submitted (view i k N) y @ ds)\<rparr>"
  using assms transmits_fields [OF assms]
  by (auto simp: view_def put_line_def log_sent_def transmit_def pk_cid_def pk_wire_def transmits_def fun_eq_iff)

definition idle_pair :: pair_state where
  "idle_pair = \<lparr>sess = (\<lambda>_. None), chan = (\<lambda>_. []), submitted = (\<lambda>_. []), delivered = (\<lambda>_. []), violated = False\<rparr>"

definition stream_ok :: "'sk network \<Rightarrow> bytes32 \<Rightarrow> bool" where
  "stream_ok N k \<longleftrightarrow>
     (case origin N k of None \<Rightarrow> \<forall>i. view i k N = idle_pair | Some (i, w) \<Rightarrow> pair_reachable w (view i k N))"

definition hosts_ok :: "'sk deps \<Rightarrow> (host \<Rightarrow> 'sk stream_endpoint) \<Rightarrow> 'sk network \<Rightarrow> bool" where
  "hosts_ok D E N \<longleftrightarrow> (\<forall>a. same_config (E a) (ends N a) \<and>
     line_ok D (E a) (lines N a) (send_counter (ends N a)) (guard (ends N (\<not> a))))"

definition net_inv :: "'sk deps \<Rightarrow> (host \<Rightarrow> 'sk stream_endpoint) \<Rightarrow> 'sk network \<Rightarrow> bool" where
  "net_inv D E N \<longleftrightarrow> hosts_ok D E N \<and> (\<forall>k. stream_ok N k)"

lemma stream_ok_frame:
  assumes "stream_ok N k" and "origin N' k = origin N k" and "\<And>i. view i k N' = view i k N"
  shows "stream_ok N' k"
  using assms by (auto simp: stream_ok_def split: option.splits)

text \<open>A stream with a session at some host has been opened.\<close>

lemma stream_known:
  assumes "stream_ok N k" and "session k (ends N a) = Some s"
  obtains i w y where "origin N k = Some (i, w)" "a = host_at i y" "pair_reachable w (view i k N)"
    "sess (view i k N) y = Some s"
proof (cases "origin N k")
  case None
  then have "view a k N = idle_pair" using assms(1) by (simp add: stream_ok_def)
  then have "sess (view a k N) Ini = None" by (simp add: idle_pair_def)
  then show thesis using assms(2) by (simp add: view_def)
next
  case (Some x)
  then obtain i w where x: "origin N k = Some (i, w)" by (cases x) simp
  obtain y where y: "host_at i y = a" by (rule host_side)
  show thesis
    by (rule that [OF x y [symmetric]]) (use assms x y in \<open>simp_all add: stream_ok_def, simp add: view_def\<close>)
qed

lemma hosts_put:
  assumes ok: "hosts_ok D E N" and tr: "transmits D (ends N a) k h d now ex e S ep"
    and c: "send_counter (ends N a) \<noteq> -1" and d: "length d \<le> MAX_DECOMPRESSED_BYTES"
  shows "hosts_ok D E (log_sent a k ds (put_line a e d now ex ep N))"
  unfolding hosts_ok_def log_sent_fields
proof (intro allI conjI)
  fix b
  have N: "same_config (E b) (ends N b)" "line_ok D (E b) (lines N b) (send_counter (ends N b)) (guard (ends N (\<not> b)))"
    for b using ok by (auto simp: hosts_ok_def)
  show "same_config (E b) (ends (put_line a e d now ex ep N) b)"
    using N(1) [of b] tr by (cases "b = a") (auto simp: put_line_def transmits_def same_config_def)
  show "line_ok D (E b) (lines (put_line a e d now ex ep N) b) (send_counter (ends (put_line a e d now ex ep N) b))
      (guard (ends (put_line a e d now ex ep N) (\<not> b)))"
  proof (cases "b = a")
    case True
    have "line_ok D (E a) (lines N a @ [\<lparr>pk_env = e, pk_payload = d, pk_counter = send_counter (ends N a),
        pk_sent = now, pk_expires = ex\<rparr>]) (send_counter (ends N a) + 1) (guard (ends N (\<not> a)))"
      by (rule line_transmit [OF N(2) transmits_packet [OF tr N(1) d] _ c]) simp
    then show ?thesis using tr True by (simp add: put_line_def transmits_def)
  next
    case False
    then have "(\<not> b) = a" by blast
    then show ?thesis using N(2) [of b] tr False by (auto simp: put_line_def transmits_def)
  qed
qed

text \<open>A call on an open stream is a step of its pair.\<close>

lemma net_put:
  assumes inv: "net_inv D E N" and tr: "transmits D (ends N a) k h d now ex e S ep"
    and c: "send_counter (ends N a) \<noteq> -1" and d: "length d \<le> MAX_DECOMPRESSED_BYTES"
    and s: "session k (ends N a) = Some s"
    and st: "\<And>p y. sess p y = Some s \<Longrightarrow> pair_step p ((transmit y (h, d) S p)
        \<lparr>submitted := (submitted p)(y := submitted p y @ ds)\<rparr>)"
  shows "net_inv D E (log_sent a k ds (put_line a e d now ex ep N))" (is "net_inv D E ?N")
  unfolding net_inv_def
proof (intro conjI allI)
  show "hosts_ok D E ?N" using inv hosts_put [OF _ tr c d] by (simp add: net_inv_def)
  fix j
  have j: "stream_ok N j" using inv by (simp add: net_inv_def)
  have o: "origin ?N = origin N" by (simp add: put_line_def)
  show "stream_ok ?N j"
  proof (cases "j = k")
    case True
    from stream_known [OF j [unfolded True] s] obtain i w y where y: "origin N k = Some (i, w)" "a = host_at i y"
      "pair_reachable w (view i k N)" "sess (view i k N) y = Some s" .
    have "pair_reachable w (view i k ?N)"
      using pair_reachable.step [OF y(3) st [OF y(4)]] view_put [OF tr [unfolded y(2)]] y(2) by simp
    then show ?thesis using y(1) True o by (simp add: stream_ok_def)
  next
    case False
    show ?thesis by (rule stream_ok_frame [OF j]) (use o view_put_other [OF tr False] in simp_all)
  qed
qed

lemma net_put_quiet:
  assumes "net_inv D E N" and "transmits D (ends N a) k h [] now ex e S ep"
    and "send_counter (ends N a) \<noteq> -1" and "session k (ends N a) = Some s"
    and "\<And>p y. sess p y = Some s \<Longrightarrow> pair_step p (transmit y (h, []) S p)"
  shows "net_inv D E (put_line a e [] now ex ep N)"
  using net_put [OF assms(1,2,3) _ assms(4), of "[]"] assms(5) by (simp add: transmit_submitted [simplified])

lemma net_open:
  assumes inv: "net_inv D E N" and tr: "transmits D (ends N a) k (header Open 0 w) [] now ex e (Some (initiator w)) ep"
    and c: "send_counter (ends N a) \<noteq> -1" and new: "origin N k = None"
  shows "net_inv D E ((put_line a e [] now ex ep N)\<lparr>origin := (origin N)(k \<mapsto> (a, w))\<rparr>)" (is "net_inv D E ?N")
  unfolding net_inv_def
proof (intro conjI allI)
  show "hosts_ok D E ?N"
    using inv hosts_put [OF _ tr c, of E "[]"] by (simp add: net_inv_def hosts_ok_def)
  fix j
  have j: "stream_ok N j" using inv by (simp add: net_inv_def)
  have v: "view i j ?N = view i j (put_line a e [] now ex ep N)" for i by (simp add: view_def)
  show "stream_ok ?N j"
  proof (cases "j = k")
    case True
    have idle: "view a k N = idle_pair" using j True new by (simp add: stream_ok_def)
    have "view a k ?N = pair_init w"
      using view_put [of D N a Ini, unfolded host_at.simps, OF tr, of "[]"] v idle True
      by (auto simp: idle_pair_def transmit_def pair_init_def fun_eq_iff)
    then show ?thesis using True by (simp add: stream_ok_def pair_reachable.start)
  next
    case False
    show ?thesis
      by (rule stream_ok_frame [OF j]) (use False v view_put_other [OF tr False, of _ "[]"] in simp_all)
  qed
qed

section \<open>Arrivals\<close>

text \<open>No frame of an honest stream is refused.\<close>

lemma honest_route:
  assumes "pair_reachable w p" and "chan p y = m # q" and "route_frame (fst m) (sess p (peer y)) = (r, S)"
  shows "r \<noteq> Violation c"
  using pair_invD(4) [OF inv_deliver [OF pair_inv_reachable [OF assms(1)] assms(2)]]
  by (auto simp: receive_eq [OF assms(3)])

fun reported :: "routed \<Rightarrow> bytes \<Rightarrow> stream_accept \<Rightarrow> bool" where
  "reported Opened d r \<longleftrightarrow> r = Event EvOpened"
| "reported (Happened a) d r \<longleftrightarrow> r = Event (to_event a d)"
| "reported Ignored d r \<longleftrightarrow> (\<exists>c. r = Dropped c)"
| "reported (Violation c) d r \<longleftrightarrow> False"

lemma reported_log:
  assumes "reported rr d r"
  shows "(case Ok r :: stream_accept res of Ok (Event (EvData d)) \<Rightarrow> [d] | _ \<Rightarrow> []) = (if rr = Happened AccData then [d] else [])"
    "\<not> (\<exists>f m. r = ResetWith f (StreamProtocol m))" "\<nexists>c. rr = Violation c" "answer now (Ok r) n = []"
  using assms by (cases rr; (cases "case rr of Happened a \<Rightarrow> a | _ \<Rightarrow> AccReset")?; auto)+

lemma all_side: "(\<forall>z. P z) \<longleftrightarrow> P Ini \<and> P Rsp"
  by (metis side.exhaust)

lemma view_take:
  assumes "lines N (host_at i y) = p # q" and "pk_cid p = k" and "reported rr (pk_payload p) r"
    and "route_frame (fst (pk_wire p)) (session k (ends N (\<not> host_at i y))) = (rr, S)"
    and "\<And>j. session j ep = (if j = k then S else session j (ends N (\<not> host_at i y)))"
  shows "view i k (take_line (host_at i y) k q (Ok r) ep N) = receive y (pk_wire p) (stream_line k q) (view i k N)"
proof -
  have rt: "route_frame (fst (pk_wire p)) (sess (view i k N) (peer y)) = (rr, S)" using assms(4) by (simp add: view_def)
  note log = reported_log(1-3) [OF assms(3)]
  show ?thesis
    unfolding receive_eq [OF rt]
    using assms(1,2,5) log by (cases y) (simp_all add: view_def take_line_def fun_eq_iff all_side pk_wire_def)
qed

lemma view_take_other:
  assumes "lines N a = p # q" and "pk_cid p = k" and "j \<noteq> k"
    and "\<And>j. session j ep = (if j = k then S else session j (ends N (\<not> a)))"
  shows "view i j (take_line a k q r ep N) = view i j N"
  using assms by (simp add: view_def take_line_def fun_eq_iff all_side)

lemma stream_of_packet:
  assumes "stream_ok N k" and "lines N a = p # q" and "pk_cid p = k"
  obtains i w y where "origin N k = Some (i, w)" "a = host_at i y" "pair_reachable w (view i k N)"
    "chan (view i k N) y = pk_wire p # stream_line k q"
proof (cases "origin N k")
  case None
  then have "view a k N = idle_pair" using assms(1) by (simp add: stream_ok_def)
  then have "chan (view a k N) Ini = []" by (simp add: idle_pair_def)
  then show thesis using assms(2,3) by (simp add: view_def)
next
  case (Some x)
  then obtain i w where x: "origin N k = Some (i, w)" by (cases x) simp
  obtain y where y: "host_at i y = a" by (rule host_side)
  show thesis
    by (rule that [OF x y [symmetric]]) (use assms x y in \<open>simp_all add: stream_ok_def, simp add: view_def\<close>)
qed

lemma net_take:
  assumes inv: "net_inv D E N" and l: "lines N a = p # q" and k: "pk_cid p = k"
    and ep: "same_config (ends N (\<not> a)) ep" "send_counter ep = send_counter (ends N (\<not> a))"
      "line_ok D (E a) q (send_counter (ends N a)) (guard ep)"
      "\<And>j. session j ep = (if j = k then S else session j (ends N (\<not> a)))"
    and rt: "route_frame (fst (pk_wire p)) (session k (ends N (\<not> a))) = (rr, S)"
    and rp: "reported rr (pk_payload p) r"
  shows "net_inv D E (take_line a k q (Ok r) ep N)" (is "net_inv D E ?N")
  unfolding net_inv_def
proof (intro conjI allI)
  have N: "same_config (E b) (ends N b)" "line_ok D (E b) (lines N b) (send_counter (ends N b)) (guard (ends N (\<not> b)))"
    for b using inv by (auto simp: net_inv_def hosts_ok_def)
  show "hosts_ok D E ?N"
    unfolding hosts_ok_def
  proof
    fix b
    show "same_config (E b) (ends ?N b) \<and> line_ok D (E b) (lines ?N b) (send_counter (ends ?N b)) (guard (ends ?N (\<not> b)))"
    proof (cases "b = a")
      case True
      then show ?thesis using N(1) [of a] ep(3) by (simp add: take_line_def)
    next
      case False
      then have b: "b = (\<not> a)" by blast
      have "same_config (E b) ep" using N(1) [of b] ep(1) b by (simp add: same_config_def)
      then show ?thesis using N(2) [of b] ep(2) b by (simp add: take_line_def)
    qed
  qed
  fix j
  have j: "stream_ok N j" using inv by (simp add: net_inv_def)
  show "stream_ok ?N j"
  proof (cases "j = k")
    case True
    from stream_of_packet [OF j [unfolded True] l k] obtain i w y where y: "origin N k = Some (i, w)"
      "a = host_at i y" "pair_reachable w (view i k N)" "chan (view i k N) y = pk_wire p # stream_line k q" .
    have "pair_reachable w (view i k ?N)"
      using pair_reachable.step [OF y(3) pair_step.deliver [OF y(4)]]
        view_take [OF l [unfolded y(2)] k rp rt [unfolded y(2)] ep(4) [unfolded y(2)]] y(2) by simp
    then show ?thesis using y(1) True by (simp add: stream_ok_def take_line_def)
  next
    case False
    show ?thesis
      by (rule stream_ok_frame [OF j]) (simp add: take_line_def, rule view_take_other [OF l k False ep(4)])
  qed
qed

text \<open>The receiver's registry below its cap.\<close>

lemma accept_opened_counter:
  assumes "accept_opened D en e m now ep = (Ok r, ep')" and "\<nexists>f c. r = ResetWith f c"
  shows "send_counter ep' = send_counter ep"
  using assms
  by (auto simp: accept_opened_def accept_open_def Let_def reset_response_Ok
      split: if_splits option.splits prod.splits result.splits)

lemma reported_no_reset: "reported rr d r \<Longrightarrow> \<nexists>f c. r = ResetWith f c"
  by (cases rr) auto

text \<open>A frame opened by the receiver, in a state of the network where its stream is honest.\<close>

lemma net_route:
  assumes inv: "net_inv D E N" and l: "lines N a = p # q"
  obtains rr S where "route_frame (fst (pk_wire p)) (session (pk_cid p) (ends N (\<not> a))) = (rr, S)"
    "\<nexists>c. rr = Violation c"
proof -
  have "stream_ok N (pk_cid p)" using inv by (simp add: net_inv_def)
  from stream_of_packet [OF this l refl] obtain i w y where y: "a = host_at i y"
    "pair_reachable w (view i (pk_cid p) N)"
    "chan (view i (pk_cid p) N) y = pk_wire p # stream_line (pk_cid p) q" by metis
  obtain rr S where rt: "route_frame (fst (pk_wire p)) (session (pk_cid p) (ends N (\<not> a))) = (rr, S)"
    by fastforce
  have "sess (view i (pk_cid p) N) (peer y) = session (pk_cid p) (ends N (\<not> a))" using y(1) by (simp add: view_def)
  then show thesis using honest_route [OF y(2,3)] rt by (intro that [OF rt]) simp
qed

lemma arrive_routed:
  assumes inv: "net_inv D E N" and l: "lines N a = p # q"
    and m: "om_sender m = peer_did (ends N (\<not> a))" "om_shape m = StreamFrame" "om_payload m = pk_payload p"
      "env_stream (pk_env p) = Some (header f s v)"
    and cap: "f = Open \<Longrightarrow> stream_count (ends N (\<not> a)) < max_concurrent (ends N (\<not> a))"
  obtains rr S r ep where
    "accept_opened D en (pk_env p) m now ((ends N (\<not> a))\<lparr>guard := g\<rparr>) = (Ok r, ep)"
    "route_frame (fst (pk_wire p)) (session (pk_cid p) (ends N (\<not> a))) = (rr, S)"
    "reported rr (pk_payload p) r" "send_counter ep = send_counter (ends N (\<not> a))"
    "same_config (ends N (\<not> a)) ep" "guard ep = g"
    "\<And>j. session j ep = (if j = pk_cid p then S else session j (ends N (\<not> a)))"
proof -
  let ?B = "(ends N (\<not> a))\<lparr>guard := g\<rparr>"
  obtain rr S where rt: "route_frame (fst (pk_wire p)) (session (pk_cid p) (ends N (\<not> a))) = (rr, S)"
    "\<nexists>c. rr = Violation c" by (rule net_route [OF inv l])
  obtain r0 ep where ao: "accept_opened D en (pk_env p) m now ?B = (r0, ep)" by fastforce
  have w: "pk_wire p = (header f s v, pk_payload p)" using m(4) by (simp add: pk_wire_def)
  have B: "session j ?B = session j (ends N (\<not> a))" "stream_count ?B = stream_count (ends N (\<not> a))" for j
    by (simp_all add: session_def stream_count_def)
  note route = accept_opened_route [where ep = ?B and e = "pk_env p" and h = "header f s v" and f = f and r = rr
        and S = S and m = m and D = D and en = en and now = now, unfolded ao]
  have j: "session j ep = (if j = pk_cid p then S else session j (ends N (\<not> a)))" for j
    using route(1) m cap rt(1) w B by (simp add: pk_cid_def)
  have "outcome_of rr (pk_payload p) r0" using route(2) m cap rt(1) w B by (simp add: pk_cid_def)
  then obtain r where r: "r0 = Ok r" "reported rr (pk_payload p) r"
    using rt(2) by (cases rr) auto
  have c: "send_counter ep = send_counter (ends N (\<not> a))"
    using accept_opened_counter [OF ao [unfolded r(1)]] reported_no_reset [OF r(2)] by simp
  have "same_config (ends N (\<not> a)) ep" "guard ep = g"
    using same_config_opened [of "ends N (\<not> a)" ?B D en "pk_env p" m now]
      accept_opened_keeps(1) [of D en "pk_env p" m now ?B] ao by simp_all
  then show thesis using that [OF ao [unfolded r(1)] rt(1) r(2) c _ _ j] by blast
qed

text \<open>At the cap an OPEN is answered by a RESET: the pair's responder is created and resets.\<close>

lemma net_arrive_cap:
  assumes inv: "net_inv D E N" and l: "lines N a = p # q"
    and g: "line_ok D (E a) q (send_counter (ends N a)) g"
    and m: "om_sender m = peer_did (ends N (\<not> a))" "om_shape m = StreamFrame"
      "env_stream (pk_env p) = Some (header Open s v)"
    and ao: "accept_opened D en (pk_env p) m now ((ends N (\<not> a))\<lparr>guard := g\<rparr>) = (Ok r, ep)"
    and cap: "max_concurrent (ends N (\<not> a)) \<le> stream_count (ends N (\<not> a))"
    and c: "send_counter (ends N (\<not> a)) \<noteq> -1"
  shows "\<exists>fr n. r = ResetWith fr (StreamLimit n) \<and>
    net_inv D E (put_line (\<not> a) fr [] now 0 ep (take_line a (pk_cid p) q (Ok (Event EvOpened))
      ((ends N (\<not> a))\<lparr>guard := g, sessions := hm_insert (pk_cid p) (responder v) (sessions (ends N (\<not> a)))\<rparr>) N))"
proof -
  let ?k = "pk_cid p" let ?B = "ends N (\<not> a)"
  let ?B1 = "?B\<lparr>guard := g, sessions := hm_insert ?k (responder v) (sessions ?B)\<rparr>"
  let ?N1 = "take_line a ?k q (Ok (Event EvOpened)) ?B1 N"
  have w: "fst (pk_wire p) = header Open s v" using m(3) by (simp add: pk_wire_def)
  have none: "session ?k ?B = None"
    by (rule net_route [OF inv l]) (use w in \<open>auto simp: route_frame_def split: option.splits\<close>)
  have rt: "route_frame (fst (pk_wire p)) (session ?k ?B) = (Opened, Some (responder v))"
    using none w by (simp add: route_frame_def)
  have N1: "net_inv D E ?N1"
    by (rule net_take [OF inv l refl _ _ _ _ rt]) (use g in \<open>simp_all add: session_def\<close>)
  obtain fr where r: "r = ResetWith fr (StreamLimit (max_concurrent ?B))"
    and sf: "seal_frame D en ?k (header Reset 0 0) [] now 0 (?B\<lparr>guard := g, sessions := hm_remove ?k (sessions ?B)\<rparr>) = (Ok fr, ep)"
    using ao m none cap
    by (auto simp: accept_opened_def accept_open_def Let_def reset_response_Ok session_def stream_count_def
        hm_remove_absent pk_cid_def split: if_splits)
  have "transmits D ?B1 ?k (header Reset 0 0) [] now 0 fr None ep"
  proof (rule transmits_seal)
    show "seal_frame D en ?k (header Reset 0 0) [] now 0 (?B1\<lparr>sessions := hm_remove ?k (sessions ?B)\<rparr>) = (Ok fr, ep)"
      using sf by simp
    show "hm_get (sessions ep) j = (if j = ?k then None else session j ?B1)" for j
      using seal_frame_sessions [OF sf] by (simp add: session_def)
  qed simp_all
  then have "net_inv D E (put_line (\<not> a) fr [] now 0 ep ?N1)"
    by (intro net_put_quiet [OF N1, where s = "responder v" and k = ?k and S = None])
      (use c in \<open>auto simp: take_line_def session_def build_reset_def intro!: pair_step.reset\<close>)
  with r show ?thesis by blast
qed

section \<open>Every step of the network\<close>

definition fresh_peers :: "'sk deps \<Rightarrow> (host \<Rightarrow> resolver) \<Rightarrow> (host \<Rightarrow> 'sk stream_endpoint) \<Rightarrow> bool" where
  "fresh_peers D rv E \<longleftrightarrow>
     (\<forall>a. listens D (rv (\<not> a)) (E a) (E (\<not> a)) \<and> sessions (E a) = hm_new \<and> guard (E a) = guard_new)"

lemma net_inv_init:
  assumes "fresh_peers D rv E"
  shows "net_inv D E (net_init E)"
proof -
  have "line_ok D (E a) [] (send_counter (E a)) (guard (E (\<not> a)))" for a
    using assms guard_models_new
    by (auto simp: fresh_peers_def line_ok_def upcoming_def simp del: split_paired_All intro!: exI [of _ "\<lambda>_. {}"])
  then show ?thesis
    using assms
    by (simp add: net_inv_def hosts_ok_def stream_ok_def net_init_def view_def idle_pair_def fresh_peers_def
        session_def fun_eq_iff)
qed

context sealing
begin

lemma net_open_packet:
  assumes inv: "net_inv D E N" and fp: "fresh_peers D rv E" and l: "lines N a = p # q"
    and t: "timely (pk_sent p) (pk_expires p) now"
  obtains g m f s v where "accept D en (pk_env p) (rv (\<not> a)) now (ends N (\<not> a))
      = accept_opened D en (pk_env p) m now ((ends N (\<not> a))\<lparr>guard := g\<rparr>)"
    "line_ok D (E a) q (send_counter (ends N a)) g"
    "om_sender m = peer_did (ends N (\<not> a))" "om_shape m = StreamFrame" "om_payload m = pk_payload p"
    "env_stream (pk_env p) = Some (header f s v)"
proof -
  have N: "same_config (E b) (ends N b)" "line_ok D (E b) (lines N b) (send_counter (ends N b)) (guard (ends N (\<not> b)))"
    for b using inv by (auto simp: net_inv_def hosts_ok_def)
  have "listens D (rv (\<not> a)) (E a) (E (\<not> a))" using fp by (simp add: fresh_peers_def)
  then have li: "listens D (rv (\<not> a)) (E a) (ends N (\<not> a))" by (rule listens_config [OF _ same_config_refl N(1)])
  show thesis by (rule line_arrive [OF N(2) [of a, unfolded l] li t, where en = en]) (rule that)
qed

text \<open>Below the cap the head of a line is accepted, and the view moves as the pair's delivery.\<close>

lemma net_accepts:
  assumes inv: "net_inv D E N" and fp: "fresh_peers D rv E" and l: "lines N a = p # q"
    and t: "timely (pk_sent p) (pk_expires p) now"
    and cap: "frame_kind (pk_wire p) = Some Open \<Longrightarrow> stream_count (ends N (\<not> a)) < max_concurrent (ends N (\<not> a))"
  obtains r ep rr S where "accept D en (pk_env p) (rv (\<not> a)) now (ends N (\<not> a)) = (Ok r, ep)"
    "route_frame (fst (pk_wire p)) (session (pk_cid p) (ends N (\<not> a))) = (rr, S)"
    "reported rr (pk_payload p) r" "send_counter ep = send_counter (ends N (\<not> a))"
    "\<And>j. session j ep = (if j = pk_cid p then S else session j (ends N (\<not> a)))"
    "net_inv D E (take_line a (pk_cid p) q (Ok r) ep N)"
proof (rule net_open_packet [OF inv fp l t, where en = en])
  fix g m f s v
  assume ac: "accept D en (pk_env p) (rv (\<not> a)) now (ends N (\<not> a))
      = accept_opened D en (pk_env p) m now ((ends N (\<not> a))\<lparr>guard := g\<rparr>)"
    and g: "line_ok D (E a) q (send_counter (ends N a)) g"
    and m: "om_sender m = peer_did (ends N (\<not> a))" "om_shape m = StreamFrame" "om_payload m = pk_payload p"
      "env_stream (pk_env p) = Some (header f s v)"
  have cap': "stream_count (ends N (\<not> a)) < max_concurrent (ends N (\<not> a))" if "f = Open"
    using cap m(4) that by (simp add: frame_kind_def pk_wire_def)
  show thesis
  proof (rule arrive_routed [OF inv l m cap', where en = en and now = now and g = g])
    fix rr S r ep
    assume x: "accept_opened D en (pk_env p) m now ((ends N (\<not> a))\<lparr>guard := g\<rparr>) = (Ok r, ep)"
      "route_frame (fst (pk_wire p)) (session (pk_cid p) (ends N (\<not> a))) = (rr, S)"
      "reported rr (pk_payload p) r" "send_counter ep = send_counter (ends N (\<not> a))"
      "same_config (ends N (\<not> a)) ep" "guard ep = g"
      and j: "\<And>j. session j ep = (if j = pk_cid p then S else session j (ends N (\<not> a)))"
    have "net_inv D E (take_line a (pk_cid p) q (Ok r) ep N)"
      using net_take [OF inv l refl x(5,4) _ j x(2,3)] g x(6) by simp
    then show thesis using that [OF _ x(2,3,4) j] ac x(1) by simp
  qed
qed

lemma take_line_quiet:
  assumes "answer now (Ok r) n = []"
  shows "(take_line a k q (Ok r) ep N)\<lparr>lines := (lines N)(a := q, \<not> a := lines N (\<not> a) @ answer now (Ok r) n)\<rparr>
    = take_line a k q (Ok r) ep N"
proof -
  have "(lines N)(a := q, \<not> a := lines N (\<not> a)) = (lines N)(a := q)" by auto
  then show ?thesis using assms by (simp add: take_line_def)
qed

lemma net_inv_arrive:
  assumes inv: "net_inv D E N" and fp: "fresh_peers D rv E" and l: "lines N a = p # q"
    and t: "timely (pk_sent p) (pk_expires p) now"
    and ac: "accept D en (pk_env p) (rv (\<not> a)) now (ends N (\<not> a)) = (Ok r, ep)"
    and c: "send_counter (ends N (\<not> a)) \<noteq> -1"
  shows "net_inv D E ((take_line a (pk_cid p) q (Ok r) ep N)
      \<lparr>lines := (lines N)(a := q, \<not> a := lines N (\<not> a) @ answer now (Ok r) (send_counter (ends N (\<not> a))))\<rparr>)"
    (is "net_inv D E ?N")
proof (cases "frame_kind (pk_wire p) = Some Open \<and> max_concurrent (ends N (\<not> a)) \<le> stream_count (ends N (\<not> a))")
  case False
  then obtain rr where rp: "reported rr (pk_payload p) r"
    and inv': "net_inv D E (take_line a (pk_cid p) q (Ok r) ep N)"
    by (auto intro: net_accepts [OF inv fp l t, where en = en] simp: ac not_le)
  show ?thesis unfolding take_line_quiet [OF reported_log(4) [OF rp]] by (rule inv')
next
  case True
  show ?thesis
  proof (rule net_open_packet [OF inv fp l t, where en = en])
    fix g m f s v
    assume ao: "accept D en (pk_env p) (rv (\<not> a)) now (ends N (\<not> a))
        = accept_opened D en (pk_env p) m now ((ends N (\<not> a))\<lparr>guard := g\<rparr>)"
      and g: "line_ok D (E a) q (send_counter (ends N a)) g"
      and m: "om_sender m = peer_did (ends N (\<not> a))" "om_shape m = StreamFrame"
        "env_stream (pk_env p) = Some (header f s v)"
    have "f = Open" using True m(3) by (simp add: frame_kind_def pk_wire_def)
    then obtain fr n where r: "r = ResetWith fr (StreamLimit n)"
      and inv': "net_inv D E (put_line (\<not> a) fr [] now 0 ep (take_line a (pk_cid p) q (Ok (Event EvOpened))
        ((ends N (\<not> a))\<lparr>guard := g, sessions := hm_insert (pk_cid p) (responder v) (sessions (ends N (\<not> a)))\<rparr>) N))"
      using net_arrive_cap [OF inv l g m(1,2) _ ao [symmetric, unfolded ac] _ c] m(3) True by blast
    then show ?thesis by (simp add: r put_line_def take_line_def)
  qed
qed

lemma net_inv_step:
  assumes "net_step D rv N N'" and inv: "net_inv D E N" and fp: "fresh_peers D rv E"
  shows "net_inv D E N'"
  using assms(1)
proof cases
  case (n_open en k w now ex a e ep)
  then show ?thesis using net_open [OF inv open_transmits] by simp
next
  case (n_open_ack en k w now ex a e ep)
  from n_open_ack(2) show ?thesis
  proof (rule open_ack_transmits)
    fix s h s' assume "session k (ends N a) = Some s" "build_open_ack w s = (Ok h, s')"
      "transmits D (ends N a) k h [] now ex e (Some s') ep"
    then show ?thesis using n_open_ack by (auto intro!: net_put_quiet [OF inv] pair_step.open_ack)
  qed
next
  case (n_data en k d now ex a e ep)
  from n_data(2) show ?thesis
  proof (rule send_data_transmits)
    fix s h s' assume "session k (ends N a) = Some s" "build_data s = (Ok h, s')"
      "transmits D (ends N a) k h d now ex e (Some s') ep"
    then show ?thesis using n_data by (auto intro!: net_put [OF inv] pair_step.data)
  qed
next
  case (n_credit en k n now ex a e ep s0)
  from n_credit(2) show ?thesis
  proof (rule grant_credit_transmits)
    fix s h s' assume "session k (ends N a) = Some s" "build_credit n s = (Ok h, s')"
      "transmits D (ends N a) k h [] now ex e (Some s') ep"
    then show ?thesis using n_credit by (auto intro!: net_put_quiet [OF inv] pair_step.credit)
  qed
next
  case (n_close en k now ex a e ep s0)
  from n_close(2) show ?thesis
  proof (rule close_transmits)
    fix s h s' assume "session k (ends N a) = Some s" "build_close s = (Ok h, s')"
      "transmits D (ends N a) k h [] now ex e (retain s') ep"
    then show ?thesis using n_close by (auto intro!: net_put_quiet [OF inv] pair_step.close)
  qed
next
  case (n_reset en k now ex a e ep)
  from n_reset(2) show ?thesis
  proof (rule reset_transmits)
    fix s h s' assume "session k (ends N a) = Some s" "build_reset s = (h, s')"
      "transmits D (ends N a) k h [] now ex e None ep"
    then show ?thesis using n_reset by (auto intro!: net_put_quiet [OF inv] pair_step.reset)
  qed
next
  case (n_arrive a p q now en r ep)
  then show ?thesis using net_inv_arrive [OF inv fp n_arrive(2,3,4,5)] by simp
qed

lemma net_inv_reachable: "net_reachable D rv E N \<Longrightarrow> fresh_peers D rv E \<Longrightarrow> net_inv D E N"
  by (induction rule: net_reachable.induct) (auto intro: net_inv_init net_inv_step)

lemma net_deliver:
  assumes rn: "net_reachable D rv E N" and fp: "fresh_peers D rv E" and l: "lines N a = p # q"
    and t: "timely (pk_sent p) (pk_expires p) now" and c: "send_counter (ends N (\<not> a)) \<noteq> -1"
    and cap: "frame_kind (pk_wire p) = Some Open \<Longrightarrow> stream_count (ends N (\<not> a)) < max_concurrent (ends N (\<not> a))"
  obtains N' where "net_reachable D rv E N'" "lines N' = (lines N)(a := q)" "origin N' = origin N"
    "\<And>b. send_counter (ends N' b) = send_counter (ends N b)"
    "\<And>i y. a = host_at i y \<Longrightarrow>
       view i (pk_cid p) N' = receive y (pk_wire p) (stream_line (pk_cid p) q) (view i (pk_cid p) N)"
proof (rule net_accepts [OF net_inv_reachable [OF rn fp] fp l t cap])
  fix r ep rr S
  assume ac: "accept D (Inl []) (pk_env p) (rv (\<not> a)) now (ends N (\<not> a)) = (Ok r, ep)"
    and rt: "route_frame (fst (pk_wire p)) (session (pk_cid p) (ends N (\<not> a))) = (rr, S)"
    and rp: "reported rr (pk_payload p) r" and sc: "send_counter ep = send_counter (ends N (\<not> a))"
    and j: "\<And>j. session j ep = (if j = pk_cid p then S else session j (ends N (\<not> a)))"
  let ?N = "take_line a (pk_cid p) q (Ok r) ep N"
  have rch: "net_reachable D rv E ?N"
    using net_next [OF rn n_arrive [where rv = rv and a = a, OF l t ac c]] unfolding take_line_quiet [OF reported_log(4) [OF rp]] .
  have vw: "view i (pk_cid p) ?N = receive y (pk_wire p) (stream_line (pk_cid p) q) (view i (pk_cid p) N)"
    if "a = host_at i y" for i y
    using view_take [OF l [unfolded that] refl rp rt [unfolded that] j [unfolded that]] that by simp
  show thesis by (rule that [OF rch _ _ _ vw]) (auto simp: take_line_def sc)
qed

end

section \<open>A sample network\<close>

definition sample_ends :: "host \<Rightarrow> u8 stream_endpoint" where
  "sample_ends a = (if a then alice else bob)"

definition sample_rv :: "host \<Rightarrow> resolver" where
  "sample_rv a = (if a then (\<lambda>s ep. if s = array_of_byte 2 \<and> ep = 0 then Some (array_of_byte 5) else None) else sample_resolver)"

lemma sample_fresh_peers: "fresh_peers sum_deps sample_rv sample_ends"
proof -
  have "peer_did alice = array_of_byte 2" "local_epoch bob = 0" "guard alice = guard_new"
    by (simp_all add: alice_def bob_def endpoint_new_def)
  then show ?thesis
    by (auto simp: fresh_peers_def sample_ends_def sample_rv_def listens_def sum_deps_def sum_crypto_def
        sample_resolver_def)
qed

text \<open>A state of the sample network on its one stream, with few envelopes sealed so far.\<close>

definition sample_packet :: "packet \<Rightarrow> bool" where
  "sample_packet k \<longleftrightarrow> pk_cid k = sample_cid \<and> pk_sent k = 1000 \<and> pk_expires k = 5000"

definition sample_net :: "u8 network \<Rightarrow> pair_state \<Rightarrow> nat \<Rightarrow> bool" where
  "sample_net N p n \<longleftrightarrow> net_reachable sum_deps sample_rv sample_ends N \<and>
     origin N sample_cid = Some (True, 4) \<and> view True sample_cid N = p \<and>
     (\<forall>a. unat (send_counter (ends N a)) \<le> n) \<and>
     (\<forall>a. list_all sample_packet (lines N a))"

lemma sample_counter: "unat (c :: u64) \<le> n \<Longrightarrow> n < 100 \<Longrightarrow> c \<noteq> -1"
  by (auto simp: unsigned_minus_1_eq_mask mask_eq_exp_minus_1)

lemma sample_net_deliver:
  assumes s: "sample_net N p n" "n < 100" and l: "lines N a = k # q" and a: "a = host_at True y"
    and w: "frame_kind (pk_wire k) = Some Open \<Longrightarrow> stream_count (ends N (\<not> a)) < max_concurrent (ends N (\<not> a))"
  shows "\<exists>N'. sample_net N' (receive y (pk_wire k) (stream_line sample_cid q) p) n \<and> lines N' = (lines N)(a := q)"
proof -
  have N: "net_reachable sum_deps sample_rv sample_ends N" "origin N sample_cid = Some (True, 4)"
    "view True sample_cid N = p" "unat (send_counter (ends N b)) \<le> n" "list_all sample_packet (lines N b)" for b
    using s(1) by (simp_all add: sample_net_def)
  have k: "pk_cid k = sample_cid" "pk_sent k = 1000" "pk_expires k = 5000" "list_all sample_packet q"
    using N(5) [of a] l by (simp_all add: sample_packet_def)
  have c: "send_counter (ends N (\<not> a)) \<noteq> -1" using N(4) s(2) by (rule sample_counter)
  show ?thesis
  proof (rule sum.net_deliver [OF _ sample_fresh_peers l _ c, where now = 2000])
    show "net_reachable sum_deps sample_rv sample_ends N" by (rule N)
    show "timely (pk_sent k) (pk_expires k) 2000" using k by simp
    fix N' assume "net_reachable sum_deps sample_rv sample_ends N'" "lines N' = (lines N)(a := q)"
      "origin N' = origin N" "\<And>b. send_counter (ends N' b) = send_counter (ends N b)"
      "\<And>i y. a = host_at i y \<Longrightarrow> view i (pk_cid k) N' = receive y (pk_wire k) (stream_line (pk_cid k) q) (view i (pk_cid k) N)"
    then show ?thesis using N k a by (intro exI [of _ N']) (simp add: sample_net_def)
  qed (use w in auto)
qed

lemma sample_net_put:
  assumes s: "sample_net N p n" and a: "a = host_at True y"
    and tr: "transmits sum_deps (ends N a) sample_cid h d 1000 5000 e S ep"
    and st: "net_step sum_deps sample_rv N (log_sent a sample_cid ds (put_line a e d 1000 5000 ep N))"
    and c: "send_counter (ends N a) \<noteq> -1"
  shows "\<exists>N' k. sample_net N' ((transmit y (h, d) S p)\<lparr>submitted := (submitted p)(y := submitted p y @ ds)\<rparr>) (Suc n) \<and>
    lines N' = (lines N)(a := lines N a @ [k]) \<and> pk_wire k = (h, d)"
proof -
  let ?k = "\<lparr>pk_env = e, pk_payload = d, pk_counter = send_counter (ends N a), pk_sent = 1000, pk_expires = 5000\<rparr>"
  let ?N = "log_sent a sample_cid ds (put_line a e d 1000 5000 ep N)"
  have N: "net_reachable sum_deps sample_rv sample_ends N" "origin N sample_cid = Some (True, 4)"
    "view True sample_cid N = p" "unat (send_counter (ends N b)) \<le> n"
    "list_all sample_packet (lines N b)" for b
    using s by (simp_all add: sample_net_def)
  have v: "view True sample_cid ?N = (transmit y (h, d) S p)\<lparr>submitted := (submitted p)(y := submitted p y @ ds)\<rparr>"
    using view_put [OF tr [unfolded a], of ds] N(3) a by simp
  have k: "sample_packet ?k" "pk_wire ?k = (h, d)"
    using transmits_fields [OF tr] by (simp_all add: sample_packet_def pk_cid_def pk_wire_def)
  have "send_counter ep = send_counter (ends N a) + 1" using tr by (simp add: transmits_def)
  then have u: "unat (send_counter (ends ?N b)) \<le> Suc n" for b
    using N(4) [of a] N(4) [of b] unat_Suc [OF c] by (cases "b = a") (simp_all add: put_line_def le_SucI)
  have "sample_net ?N ((transmit y (h, d) S p)\<lparr>submitted := (submitted p)(y := submitted p y @ ds)\<rparr>) (Suc n)"
    unfolding sample_net_def using net_next [OF N(1) st] N(2,5) v k u by (simp add: put_line_def)
  then show ?thesis using k by (intro exI [of _ ?N] exI [of _ ?k]) (simp add: put_line_def)
qed

lemma sample_net_seal:
  assumes "sample_net N p n" and "length d < 64"
  shows "\<exists>e. seal_frame sum_deps sample_entropy cid h d now ex ((ends N a)\<lparr>sessions := m\<rparr>)
    = (Ok e, (ends N a)\<lparr>sessions := m, send_counter := send_counter (ends N a) + 1\<rparr>)"
proof -
  have "net_inv sum_deps sample_ends N"
    using assms(1) sum.net_inv_reachable sample_fresh_peers by (auto simp: sample_net_def)
  then have "same_config (sample_ends a) (ends N a)" by (simp add: net_inv_def hosts_ok_def)
  then have "\<exists>k. peer_pub (ends N a) = array_of_byte k" by (auto simp: same_config_def sample_ends_def)
  then show ?thesis using sum_seal_frame [OF assms(2), of "(ends N a)\<lparr>sessions := m\<rparr>"] by auto
qed

lemma sample_net_opening:
  "\<exists>N k. sample_net N (pair_init 4) 1 \<and> lines N = (\<lambda>a. if a then [k] else []) \<and> pk_wire k = (header Open 0 4, []) \<and>
     ends N False = bob"
proof (rule sample_open_call)
  let ?A = "alice\<lparr>sessions := hm_insert sample_cid (initiator 4) hm_new, send_counter := 1\<rparr>"
  fix e
  assume o': "endpoint_open sum_deps sample_entropy sample_cid 4 1000 5000 alice = (Ok e, ?A)"
  let ?k = "\<lparr>pk_env = e, pk_payload = [], pk_counter = 0, pk_sent = 1000, pk_expires = 5000\<rparr>"
  let ?N = "(put_line True e [] 1000 5000 ?A (net_init sample_ends))\<lparr>origin := (\<lambda>_. None)(sample_cid \<mapsto> (True, 4))\<rparr>"
  have "net_step sum_deps sample_rv (net_init sample_ends) ?N"
    using net_step.n_open [where D = sum_deps and rv = sample_rv and N = "net_init sample_ends" and a = True and k = sample_cid] o'
    by (simp add: net_init_def sample_ends_def)
  then have r: "net_reachable sum_deps sample_rv sample_ends ?N" by (rule net_next [OF net_start])
  have tr: "transmits sum_deps alice sample_cid (header Open 0 4) [] 1000 5000 e (Some (initiator 4)) ?A"
    by (rule open_transmits [OF o'])
  have k: "pk_cid ?k = sample_cid" "pk_wire ?k = (header Open 0 4, [])"
    using transmits_fields [OF tr] by (simp_all add: pk_cid_def pk_wire_def)
  have v: "view True sample_cid ?N = pair_init 4"
    using k by (auto simp: view_def put_line_def net_init_def sample_ends_def pair_init_def session_def fun_eq_iff all_side)
  show ?thesis
    using r k v
    by (intro exI [of _ ?N] exI [of _ ?k]) (auto simp: sample_net_def sample_packet_def put_line_def net_init_def sample_ends_def bob_def endpoint_new_def)
qed

lemma sample_net_ack:
  assumes s: "sample_net N p n" "n < 100" and p: "sess p Rsp = Some t" "build_open_ack w t = (Ok h, t')"
  shows "\<exists>N' k. sample_net N' (transmit Rsp (h, []) (Some t') p) (Suc n) \<and>
    lines N' = (lines N)(False := lines N False @ [k]) \<and> pk_wire k = (h, [])"
proof -
  let ?B = "ends N False"
  have t: "session sample_cid ?B = Some t" and c: "send_counter ?B \<noteq> -1"
    using s p sample_counter [of "send_counter ?B" n] by (auto simp: sample_net_def view_def)
  from sample_net_seal [OF s(1), of "[]"] obtain e ep where a: "open_ack sum_deps sample_entropy sample_cid w 1000 5000 ?B = (Ok e, ep)"
    using t p(2) by (fastforce simp: open_ack_def on_session_def session_mut_def session_def)
  then obtain s1 h1 t1 where "session sample_cid ?B = Some s1" "build_open_ack w s1 = (Ok h1, t1)"
      "transmits sum_deps ?B sample_cid h1 [] 1000 5000 e (Some t1) ep" by (rule open_ack_transmits)
  then have tr: "transmits sum_deps ?B sample_cid h [] 1000 5000 e (Some t') ep" using t p(2) by simp
  show ?thesis
    using sample_net_put [OF s(1) _ tr, of Rsp "[]"] net_step.n_open_ack [OF a c] c
    by (simp add: transmit_submitted [simplified])
qed

lemma sample_net_data:
  assumes s: "sample_net N p n" "n < 100" and p: "sess p Ini = Some t" "build_data t = (Ok h, t')" and d: "length d < 64"
  shows "\<exists>N' k. sample_net N' ((transmit Ini (h, d) (Some t') p)\<lparr>submitted := (submitted p)(Ini := submitted p Ini @ [d])\<rparr>) (Suc n) \<and>
    lines N' = (lines N)(True := lines N True @ [k]) \<and> pk_wire k = (h, d)"
proof -
  let ?A = "ends N True"
  have t: "session sample_cid ?A = Some t" and c: "send_counter ?A \<noteq> -1"
    using s p sample_counter [of "send_counter ?A" n] by (auto simp: sample_net_def view_def)
  from sample_net_seal [OF s(1) d] obtain e ep where a: "send_data sum_deps sample_entropy sample_cid d 1000 5000 ?A = (Ok e, ep)"
    using t p(2) by (fastforce simp: send_data_def on_session_def session_mut_def session_def)
  then obtain s1 h1 t1 where "session sample_cid ?A = Some s1" "build_data s1 = (Ok h1, t1)"
      "transmits sum_deps ?A sample_cid h1 d 1000 5000 e (Some t1) ep" by (rule send_data_transmits)
  then have tr: "transmits sum_deps ?A sample_cid h d 1000 5000 e (Some t') ep" using t p(2) by simp
  show ?thesis
    using sample_net_put [OF s(1) _ tr, of Ini "[d]"] net_step.n_data [OF a c] c d by (simp add: const_defs)
qed

lemma sample_net_sending:
  "\<exists>N k. sample_net N (sample_state (Some (sample_sender 1 1)) (Some (sample_receiver 2 0)) [(header Data 0 0, hello)] [] [hello] []) 3 \<and>
     lines N = (\<lambda>_. [])(True := [k]) \<and> pk_wire k = (header Data 0 0, hello)"
proof -
  obtain N0 k0 where 0: "sample_net N0 (pair_init 4) 1" "lines N0 = (\<lambda>a. if a then [k0] else [])"
      "pk_wire k0 = (header Open 0 4, [])" "ends N0 False = bob"
    using sample_net_opening by blast
  obtain N1 where 1: "sample_net N1 (sample_state (Some (initiator 4)) (Some (responder 4)) [] [] [] []) 1"
      "lines N1 = (\<lambda>_. [])"
    using sample_net_deliver [OF 0(1), of True k0 "[]" Ini] 0(2-4)
    by (auto simp: stream_count_def sample_moves hm_len_def hm_new_def fun_eq_iff)
  obtain N2 k2 where 2: "sample_net N2 (sample_state (Some (initiator 4)) (Some (sample_receiver 2 0)) [] [(header OpenAck 0 2, [])] [] []) 2"
      "lines N2 = (\<lambda>_. [])(False := [k2])" "pk_wire k2 = (header OpenAck 0 2, [])"
    using sample_net_ack [OF 1(1) _ _ sample_builds(1)] 1(2) by (auto simp: sample_moves numeral_2_eq_2)
  obtain N3 where 3: "sample_net N3 (sample_state (Some (sample_sender 2 0)) (Some (sample_receiver 2 0)) [] [] [] []) 2"
      "lines N3 = (\<lambda>_. [])"
    using sample_net_deliver [OF 2(1), of False k2 "[]" Rsp] 2(2,3) by (auto simp: sample_moves fun_eq_iff)
  show ?thesis
    using sample_net_data [OF 3(1) _ _ sample_builds(2), of hello] 3(2)
    by (auto simp: sample_moves hello_def numeral_3_eq_3 numeral_2_eq_2)
qed

lemma sample_net_exchange: "\<exists>N. sample_net N sample_exchange 3"
proof -
  obtain N k where N: "sample_net N (sample_state (Some (sample_sender 1 1)) (Some (sample_receiver 2 0)) [(header Data 0 0, hello)] [] [hello] []) 3"
      "lines N = (\<lambda>_. [])(True := [k])" "pk_wire k = (header Data 0 0, hello)"
    using sample_net_sending by blast
  show ?thesis
    using sample_net_deliver [OF N(1), of True k "[]" Ini] N(2,3) by (auto simp: sample_moves sample_exchange_def)
qed

section \<open>Properties\<close>

text \<open>
  C7: two endpoints implement the pair of state machines on every stream. In every run of two
  freshly built endpoints that exchange sealed envelopes over ordered lines, each of the streams
  running between them, taken by itself, is in a state that the pair of pure sessions reaches;
  an OPEN refused at the cap is a responder that resets at once.
\<close>
theorem network_refines_pair:
  assumes "sealing D" and "fresh_peers D rv E" and "net_reachable D rv E N" and "origin N k = Some (i, w)"
  shows "pair_reachable w (view i k N)"
  using sealing.net_inv_reachable [OF assms(1,3,2)] assms(4) by (auto simp: net_inv_def stream_ok_def dest: spec [of _ k])

theorem network_refines_pair_witness:
  "\<exists>N. net_reachable sum_deps sample_rv sample_ends N \<and> view True sample_cid N = sample_exchange \<and>
     pair_reachable 4 (view True sample_cid N)"
proof -
  obtain N where "sample_net N sample_exchange 3" using sample_net_exchange by blast
  then show ?thesis
    using network_refines_pair [OF sum.sealing_axioms sample_fresh_peers, of N sample_cid True 4]
    by (auto simp: sample_net_def)
qed

text \<open>
  C5: delivery from end to end. Whatever the two hosts do on however many streams, no frame is
  answered as a protocol violation, and on every stream the chunks one host was handed are, in
  order and unchanged, a prefix of the chunks the other one sent, all of them once no data is on
  the way to a live end.
\<close>
theorem network_delivers:
  assumes "sealing D" and "fresh_peers D rv E" and "net_reachable D rv E N"
  shows "\<not> refused N k \<and> prefix (recv_log N (\<not> a) k) (sent_log N a k) \<and>
    (session k (ends N (\<not> a)) \<noteq> None \<and> payloads (stream_line k (lines N a)) = [] \<longrightarrow>
       recv_log N (\<not> a) k = sent_log N a k)"
proof -
  have ok: "stream_ok N k" using sealing.net_inv_reachable [OF assms(1,3,2)] by (simp add: net_inv_def)
  show ?thesis
  proof (cases "origin N k")
    case None
    then have v: "view a k N = idle_pair" using ok by (simp add: stream_ok_def)
    have "refused N k = violated (view a k N)" "recv_log N (\<not> a) k = delivered (view a k N) Rsp"
      "sent_log N a k = submitted (view a k N) Ini" by (simp_all add: view_def)
    then show ?thesis unfolding v by (simp add: idle_pair_def)
  next
    case (Some x)
    then obtain i w where "pair_reachable w (view i k N)" using ok by (cases x) (auto simp: stream_ok_def)
    then have inv: "pair_inv w (view i k N)" by (rule pair_inv_reachable)
    obtain y where y: "host_at i y = a" by (rule host_side)
    show ?thesis
      using pair_invD(4) [OF inv] link_log [OF linkD [OF pair_invD(2) [OF inv, of y]]] y by (auto simp: view_def)
  qed
qed

theorem network_delivers_witness:
  "\<exists>N. net_reachable sum_deps sample_rv sample_ends N \<and> recv_log N False sample_cid = [hello] \<and>
     recv_log N False sample_cid = sent_log N True sample_cid \<and> \<not> refused N sample_cid"
proof -
  obtain N where N: "sample_net N sample_exchange 3" using sample_net_exchange by blast
  then have v: "view True sample_cid N = sample_exchange" and r: "net_reachable sum_deps sample_rv sample_ends N"
    by (simp_all add: sample_net_def)
  have "recv_log N False sample_cid = delivered (view True sample_cid N) Rsp"
    "session sample_cid (ends N False) = sess (view True sample_cid N) Rsp"
    "stream_line sample_cid (lines N True) = chan (view True sample_cid N) Ini" by (simp_all add: view_def)
  then show ?thesis
    using network_delivers [OF sum.sealing_axioms sample_fresh_peers r, of sample_cid True] r
    unfolding v by (intro exI [of _ N]) (simp add: sample_exchange_def)
qed

text \<open>What the peer of a sender is told of a frame.\<close>

fun told_of :: "stream_frame \<Rightarrow> stream_header \<Rightarrow> bytes \<Rightarrow> stream_event" where
  "told_of Open h d = EvOpened"
| "told_of OpenAck h d = EvEstablished"
| "told_of Data h d = EvData d"
| "told_of Credit h d = EvCreditGranted (u64_from (hdr_window h))"
| "told_of Close h d = EvRemoteClosed"
| "told_of CloseAck h d = EvCloseAcked"
| "told_of Reset h d = EvPeerReset"

lemma route_told:
  assumes rt: "route_frame h S = (rr, S')" and f: "frame_from_u8 (hdr_frame h) = Some f" and v: "\<nexists>c. rr = Violation c"
    and rp: "reported rr d r"
  shows "if f = Open \<or> S \<noteq> None then r = Event (told_of f h d) else \<exists>c. r = Dropped c"
proof (cases "f = Open \<or> f = Reset \<or> S = None")
  case True
  then show ?thesis using rt f v rp by (auto simp: route_frame_def split: option.splits if_splits)
next
  case False
  then obtain s where s: "S = Some s" "f \<noteq> Open" "f \<noteq> Reset" by auto
  obtain a s' where o': "on_recv f h s = (Ok a, s')" "rr = Happened a"
    using rt f v s by (auto simp: route_frame_def split: prod.splits result.splits)
  have "to_event a d = told_of f h d" using o'(1) s by (cases f) (auto simp: on_recv_def split: if_splits)
  then show ?thesis using rp o'(2) s by simp
qed

text \<open>
  C9: an honest envelope is accepted for what it is. The envelope that has waited longest on a line,
  arriving in time, makes the other host report what the frame says: an OPEN, as long as the host is
  below its cap, that a stream is opened; and on a stream that is live there, an OPEN_ACK that it is
  established, a chunk exactly the payload that was sent, a CREDIT its window, a CLOSE, CLOSE_ACK or
  RESET that event. A frame of a stream that is not live there is dropped. It is never answered with
  a RESET and touches no other stream.
\<close>
theorem network_accepts:
  assumes "sealing D" and "fresh_peers D rv E" and "net_reachable D rv E N" and "lines N a = p # q"
    and "timely (pk_sent p) (pk_expires p) now"
    and "frame_kind (pk_wire p) = Some Open \<longrightarrow> stream_count (ends N (\<not> a)) < max_concurrent (ends N (\<not> a))"
  shows "\<exists>f r ep. frame_kind (pk_wire p) = Some f \<and>
    accept D en (pk_env p) (rv (\<not> a)) now (ends N (\<not> a)) = (Ok r, ep) \<and>
    (if f = Open \<or> session (pk_cid p) (ends N (\<not> a)) \<noteq> None
     then r = Event (told_of f (fst (pk_wire p)) (pk_payload p)) else \<exists>c. r = Dropped c) \<and>
    (\<forall>k. k \<noteq> pk_cid p \<longrightarrow> session k ep = session k (ends N (\<not> a)))"
proof -
  have inv: "net_inv D E N" by (rule sealing.net_inv_reachable [OF assms(1,3,2)])
  obtain f where f: "frame_kind (pk_wire p) = Some f"
    by (rule sealing.net_open_packet [OF assms(1) inv assms(2,4,5)]) (simp add: frame_kind_def pk_wire_def)
  obtain rr S where v: "route_frame (fst (pk_wire p)) (session (pk_cid p) (ends N (\<not> a))) = (rr, S)" "\<nexists>c. rr = Violation c"
    by (rule net_route [OF inv assms(4)])
  obtain r ep rr' S' where r: "accept D en (pk_env p) (rv (\<not> a)) now (ends N (\<not> a)) = (Ok r, ep)"
    "route_frame (fst (pk_wire p)) (session (pk_cid p) (ends N (\<not> a))) = (rr', S')"
    "reported rr' (pk_payload p) r" "\<And>j. session j ep = (if j = pk_cid p then S' else session j (ends N (\<not> a)))"
    using sealing.net_accepts [OF assms(1) inv assms(2,4,5), where en = en] assms(6) by metis
  have "rr' = rr" using v(1) r(2) by simp
  then show ?thesis
    using route_told [OF r(2) f [unfolded frame_kind_def] _ r(3)] v(2) r(1,4) f
    by (intro exI [of _ f] exI [of _ r] exI [of _ ep]) simp
qed

theorem network_accepts_witness:
  "\<exists>N p ep. net_reachable sum_deps sample_rv sample_ends N \<and> lines N True = [p] \<and>
     accept sum_deps sample_entropy (pk_env p) (sample_rv False) 2000 (ends N False) = (Ok (Event (EvData hello)), ep)"
proof -
  obtain N k where N: "sample_net N (sample_state (Some (sample_sender 1 1)) (Some (sample_receiver 2 0)) [(header Data 0 0, hello)] [] [hello] []) 3"
      "lines N = (\<lambda>_. [])(True := [k])" "pk_wire k = (header Data 0 0, hello)"
    using sample_net_sending by blast
  have r: "net_reachable sum_deps sample_rv sample_ends N" and k: "sample_packet k"
    and v: "view True sample_cid N = sample_state (Some (sample_sender 1 1)) (Some (sample_receiver 2 0)) [(header Data 0 0, hello)] [] [hello] []"
    using N by (auto simp: sample_net_def dest: spec [of _ True])
  have "session sample_cid (ends N False) = sess (view True sample_cid N) Rsp" by (simp add: view_def)
  then have "session sample_cid (ends N False) \<noteq> None" unfolding v by simp
  moreover have "pk_payload k = hello" using N(3) by (simp add: pk_wire_def)
  ultimately show ?thesis
    using network_accepts [OF sum.sealing_axioms sample_fresh_peers r, of True k "[]" 2000 sample_entropy] N(2,3) k r
    by (auto simp: sample_packet_def frame_kind_def pk_cid_def)
qed

end
