(* ===== verification/Stream_Adversary.thy ===== *)
theory Stream_Adversary
  imports Stream_Network
begin

text \<open>
  Two \<open>StreamEndpoint\<close>s of \<open>src/stream.rs\<close> in the hands of the network. The hosts call any
  operation at any time, successfully or not; whoever carries the envelopes drops, delays,
  reorders and repeats them at will, and hands either host envelopes of its own making at any
  clock reading. What it cannot do is sign for a host: a signature that verifies under a host's key
  was made by that host. This is asked of the signature primitive on the bytes inside an envelope,
  not of what the receiver makes of it, so the receiver's own checks have to earn the rest; and the
  fields outside the signature (the flow-control window, the ciphertext) remain the network's to
  choose.
\<close>

section \<open>The system\<close>

text \<open>An envelope that opened and whose authenticated sender is the endpoint's peer.\<close>

record taking =
  tk_env :: dig_message_envelope
  tk_msg :: opened_message
  tk_out :: endpoint_out

record 'sk world =
  w_ends :: "host \<Rightarrow> 'sk stream_endpoint"
  w_sealed :: "host \<Rightarrow> packet list" \<comment> \<open>everything the host has transmitted, the oldest first\<close>
  w_taken :: "host \<Rightarrow> taking list"
  w_opener :: "bytes32 \<Rightarrow> host option"

definition world_init :: "(host \<Rightarrow> 'sk stream_endpoint) \<Rightarrow> 'sk world" where
  "world_init E = \<lparr>w_ends = E, w_sealed = (\<lambda>_. []), w_taken = (\<lambda>_. []), w_opener = (\<lambda>_. None)\<rparr>"

fun chunk :: "endpoint_op \<Rightarrow> bytes" where
  "chunk (DoSend k d) = d"
| "chunk _ = []"

fun validity :: "endpoint_op \<Rightarrow> u64 \<Rightarrow> u64" where
  "validity (DoAccept e rv) ex = 0"
| "validity _ ex = ex"

fun packets :: "call \<Rightarrow> u64 \<Rightarrow> endpoint_out \<Rightarrow> packet list" where
  "packets (op, en, now, ex) c out = map (\<lambda>e. \<lparr>pk_env = e, pk_payload = chunk op, pk_counter = c,
     pk_sent = now, pk_expires = validity op ex\<rparr>) (transmitted out)"

fun takings :: "'sk deps \<Rightarrow> call \<Rightarrow> 'sk stream_endpoint \<Rightarrow> endpoint_out \<Rightarrow> taking list" where
  "takings D (DoAccept e rv, en, now, ex) ep out =
     (case fst (open_message D (identity_sk ep) e rv (guard ep) now) of
        Ok m \<Rightarrow> if om_sender m = peer_did ep then [\<lparr>tk_env = e, tk_msg = m, tk_out = out\<rparr>] else []
      | _ \<Rightarrow> [])"
| "takings D _ ep out = []"

fun opening_of :: "call \<Rightarrow> host \<Rightarrow> (bytes32 \<Rightarrow> host option) \<Rightarrow> bytes32 \<Rightarrow> host option" where
  "opening_of (DoOpen k w, r) a f = f(k \<mapsto> a)"
| "opening_of _ a f = f"

definition perform :: "'sk deps \<Rightarrow> host \<Rightarrow> call \<Rightarrow> 'sk world \<Rightarrow> 'sk world" where
  "perform D a x W =
     (case endpoint_step D x (w_ends W a) of (out, ep) \<Rightarrow>
        \<lparr>w_ends = (w_ends W)(a := ep),
         w_sealed = (w_sealed W)(a := w_sealed W a @ packets x (send_counter (w_ends W a)) out),
         w_taken = (w_taken W)(a := w_taken W a @ takings D x (w_ends W a) out),
         w_opener = opening_of x a (w_opener W)\<rparr>)"

text \<open>The transcript a host signed when it sealed a packet whose payload was compressed to \<open>c\<close>.\<close>

definition signed_transcript :: "packet \<Rightarrow> compressed_payload \<Rightarrow> transcript_fields" where
  "signed_transcript p c = \<lparr>
     tf_version = env_version (pk_env p),
     tf_message_type = env_message_type (pk_env p),
     tf_flags = env_flags (pk_env p),
     tf_correlation_id = env_correlation_id (pk_env p),
     tf_sender = env_sender (pk_env p),
     tf_recipient = env_recipient (pk_env p),
     tf_sender_epoch = env_sender_epoch (pk_env p),
     tf_counter = pk_counter p,
     tf_timestamp_ms = pk_sent p,
     tf_expires_at = pk_expires p,
     tf_stream = env_stream (pk_env p),
     tf_kem_enc = kem_enc (env_sealed (pk_env p)),
     tf_compression = cp_compression c,
     tf_uncompressed_len = cp_uncompressed_len c,
     tf_compressed_payload = cp_bytes c\<rparr>"

text \<open>
  The verified transcript is one that the host signed for \<open>p\<close>, and the hash of the two payloads
  does not collide.
\<close>

definition signed_for :: "'sk deps \<Rightarrow> packet \<Rightarrow> dig_message_envelope \<Rightarrow> inner_message \<Rightarrow> bool" where
  "signed_for D p e inner \<longleftrightarrow> (\<exists>c. compress_payload (zstd D) (pk_payload p) = Ok c \<and>
     signing_bytes (crypto D) (opened_transcript e inner) = signing_bytes (crypto D) (signed_transcript p c) \<and>
     (sha256 (crypto D) (im_payload inner) = sha256 (crypto D) (cp_bytes c) \<longrightarrow> im_payload inner = cp_bytes c))"

text \<open>
  The network cannot sign, and signatures do not carry over: if the signature inside an envelope
  verifies under the host's public key \<open>pub\<close> for the bytes the receiver would check, then the host
  has signed these bytes, for one of its packets \<open>ps\<close>. This asks nothing of the receiver: what the
  envelope holds is what it decrypts to, whether or not the receiver checks any of it.
\<close>

definition unforged :: "'sk deps \<Rightarrow> packet list \<Rightarrow> bytes48 \<Rightarrow> 'sk \<Rightarrow> dig_message_envelope \<Rightarrow> bool" where
  "unforged D ps pub rsk e \<longleftrightarrow>
     (\<forall>inner. presented D rsk pub e inner \<longrightarrow>
        verify_signature (crypto D) pub (signing_bytes (crypto D) (opened_transcript e inner)) (im_sender_sig inner)
        \<longrightarrow> (\<exists>p \<in> set ps. signed_for D p e inner))"

text \<open>A resolver that has no key but \<open>pk\<close> for an identity.\<close>

definition only_key :: "resolver \<Rightarrow> bytes32 \<Rightarrow> bytes48 \<Rightarrow> bool" where
  "only_key rv did pk \<longleftrightarrow> (\<forall>n pub. rv did n = Some pub \<longrightarrow> pub = pk)"

text \<open>The public key of an endpoint's identity.\<close>

definition own_pub :: "'sk deps \<Rightarrow> 'sk stream_endpoint \<Rightarrow> bytes48" where
  "own_pub D ep = public_key_bytes (crypto D) (identity_sk ep)"

text \<open>
  The calls a host may make: any, as long as its counter is not at the end of its range, opening
  each correlation id at most once between the two of them (the ids are random), with resolvers
  that know no more senders and epochs than the anti-replay table can hold and have no other key
  for the peer than its own.
\<close>

fun permitted :: "'sk deps \<Rightarrow> (host \<Rightarrow> sender_key set) \<Rightarrow> 'sk world \<Rightarrow> host \<Rightarrow> call \<Rightarrow> bool" where
  "permitted D K W a (op, en, now, ex) \<longleftrightarrow> send_counter (w_ends W a) \<noteq> -1 \<and>
     (case op of
        DoOpen k w \<Rightarrow> w_opener W k = None
      | DoAccept e rv \<Rightarrow> (\<forall>s n. rv s n \<noteq> None \<longrightarrow> (s, n) \<in> K a) \<and>
          only_key rv (peer_did (w_ends W a)) (own_pub D (w_ends W (\<not> a))) \<and>
          unforged D (w_sealed W (\<not> a)) (own_pub D (w_ends W (\<not> a))) (identity_sk (w_ends W a)) e
      | _ \<Rightarrow> True)"

inductive adv_reachable ::
    "'sk deps \<Rightarrow> (host \<Rightarrow> sender_key set) \<Rightarrow> (host \<Rightarrow> 'sk stream_endpoint) \<Rightarrow> 'sk world \<Rightarrow> bool" for D K E where
  adv_start: "adv_reachable D K E (world_init E)"
| adv_next: "adv_reachable D K E W \<Longrightarrow> permitted D K W a x \<Longrightarrow> adv_reachable D K E (perform D a x W)"

text \<open>Two freshly built endpoints for each other.\<close>

definition parties :: "(host \<Rightarrow> sender_key set) \<Rightarrow> (host \<Rightarrow> 'sk stream_endpoint) \<Rightarrow> bool" where
  "parties K E \<longleftrightarrow> (\<forall>a. peer_did (E a) = local_did (E (\<not> a)) \<and> sessions (E a) = hm_new \<and> guard (E a) = guard_new \<and>
     finite (K a) \<and> card (K a) \<le> MAX_TRACKED_SENDERS)"

section \<open>What the two hosts agree on\<close>

text \<open>A taken envelope against the packet it stems from.\<close>

definition agrees :: "packet \<Rightarrow> taking \<Rightarrow> bool" where
  "agrees p t \<longleftrightarrow>
     env_correlation_id (tk_env t) = pk_cid p \<and> env_message_type (tk_env t) = env_message_type (pk_env p) \<and>
     env_recipient (tk_env t) = env_recipient (pk_env p) \<and> env_flags (tk_env t) = env_flags (pk_env p) \<and>
     frame_and_seq (env_stream (tk_env t)) = frame_and_seq (env_stream (pk_env p)) \<and>
     env_sender_epoch (tk_env t) = env_sender_epoch (pk_env p) \<and>
     om_counter (tk_msg t) = pk_counter p \<and> om_timestamp_ms (tk_msg t) = pk_sent p \<and>
     om_expires_at (tk_msg t) = pk_expires p \<and> om_payload (tk_msg t) = pk_payload p"


context sealing
begin

lemma taken_agrees:
  assumes om: "open_message D (identity_sk ep) e rv g now = (Ok m, g')" and peer: "om_sender m = peer_did ep"
    and key: "only_key rv (peer_did ep) pk" and gen: "unforged D ps pk (identity_sk ep) e"
  obtains p where "p \<in> set ps" "agrees p \<lparr>tk_env = e, tk_msg = m, tk_out = out\<rparr>"
proof -
  obtain shape inner where oi: "open_inner D (identity_sk ep) e rv now = Ok (shape, inner)"
    and dec: "decompress_payload (zstd D) (im_compression inner) (im_payload inner) (im_uncompressed_len inner)
       = Ok (om_payload m)"
    and m: "m = \<lparr>om_message_type = im_message_type inner, om_correlation_id = im_correlation_id inner,
          om_shape = shape, om_sender = env_sender e, om_sender_epoch = env_sender_epoch e,
          om_counter = im_counter inner, om_timestamp_ms = im_timestamp_ms inner,
          om_expires_at = im_expires_at inner, om_payload = om_payload m\<rparr>"
    using om by (rule open_message_OkE)
  have m': "om_sender m = env_sender e" "om_counter m = im_counter inner" "om_timestamp_ms m = im_timestamp_ms inner"
    "om_expires_at m = im_expires_at inner" by (subst m, simp)+
  have "presented D (identity_sk ep) pk e inner"
    "verify_signature (crypto D) pk (signing_bytes (crypto D) (opened_transcript e inner)) (im_sender_sig inner)"
    by (rule open_inner_presented [OF oi]; use key peer m'(1) in \<open>simp add: only_key_def\<close>)+
  then obtain p c where p: "p \<in> set ps" and c: "compress_payload (zstd D) (pk_payload p) = Ok c"
    and tr: "same_transcript (crypto D) (opened_transcript e inner) (signed_transcript p c)"
    and coll: "sha256 (crypto D) (im_payload inner) = sha256 (crypto D) (cp_bytes c) \<longrightarrow> im_payload inner = cp_bytes c"
    using gen unfolding unforged_def signed_for_def signing_bytes_eq_iff by metis
  have eq: "im_compression inner = cp_compression c" "im_uncompressed_len inner = cp_uncompressed_len c"
    "im_payload inner = cp_bytes c"
    using tr coll by (simp_all add: same_transcript_def opened_transcript_def signed_transcript_def)
  have "unat (im_uncompressed_len inner) \<le> MAX_DECOMPRESSED_BYTES"
    using om oi by (auto simp: open_message_def split: result.splits if_splits prod.splits)
  then have "length (pk_payload p) \<le> MAX_DECOMPRESSED_BYTES" using compress_declared [OF c] eq by simp
  then have "om_payload m = pk_payload p" using zstd.compress_round_trip [OF c] dec eq by simp
  then have "agrees p \<lparr>tk_env = e, tk_msg = m, tk_out = out\<rparr>"
    using tr m' by (simp add: agrees_def same_transcript_def opened_transcript_def signed_transcript_def pk_cid_def)
  with p show thesis by (rule that)
qed

end


section \<open>One call, outside the sessions\<close>

lemma packets_fields:
  assumes "endpoint_step D x ep = (out, ep')" and "p \<in> set (packets x (send_counter ep) out)"
  shows "packets x (send_counter ep) out = [p]" "pk_counter p = send_counter ep"
    "send_counter ep' = send_counter ep + 1" "env_sender_epoch (pk_env p) = local_epoch ep"
    "env_stream (pk_env p) \<noteq> None"
proof -
  obtain op en now ex where x: "x = (op, en, now, ex)" by (cases x)
  obtain e where e: "transmitted out = [e]" "sealed_by D ep (send_counter ep) e" "send_counter ep' = send_counter ep + 1"
    using endpoint_step_counted [of D ep x] assms x by (auto simp: counted_def)
  obtain en' q esk where q: "seal_with_ephemeral D q esk = Ok e" "sp_sender_epoch q = local_epoch ep" "sp_stream q \<noteq> None"
    using e(2) by (auto simp: sealed_by_def elim: seal_message_OkE)
  have "env_sender_epoch e = local_epoch ep" "env_stream e \<noteq> None"
    using seal_with_ephemeral_fields [OF q(1)] q(2,3) by (auto simp: sealed_for_def)
  then show "packets x (send_counter ep) out = [p]" "pk_counter p = send_counter ep"
    "send_counter ep' = send_counter ep + 1" "env_sender_epoch (pk_env p) = local_epoch ep"
    "env_stream (pk_env p) \<noteq> None"
    using assms(2) e x by auto
qed

lemma counter_mono:
  assumes "endpoint_step D x ep = (out, ep')" and "send_counter ep \<noteq> -1"
  shows "unat (send_counter ep) \<le> unat (send_counter ep')"
  using endpoint_step_counted [of D ep x] assms unat_Suc [of "send_counter ep"] by (auto simp: counted_def)

section \<open>The invariant of authentication\<close>

text \<open>What host \<open>b\<close> takes against what the other host has sealed.\<close>

definition auth_inv :: "(host \<Rightarrow> sender_key set) \<Rightarrow> (host \<Rightarrow> 'sk stream_endpoint) \<Rightarrow> 'sk world \<Rightarrow> host \<Rightarrow> bool" where
  "auth_inv K E W b \<longleftrightarrow> same_config (E b) (w_ends W b) \<and>
     (\<forall>p \<in> set (w_sealed W b). unat (pk_counter p) < unat (send_counter (w_ends W b)) \<and>
        env_sender_epoch (pk_env p) = local_epoch (E b) \<and> env_stream (pk_env p) \<noteq> None) \<and>
     distinct (map pk_counter (w_sealed W b)) \<and>
     (\<exists>F. guard_models (guard (w_ends W b)) F \<and> dom (hm_get (guard (w_ends W b))) \<subseteq> K b \<and>
        (\<forall>t \<in> set (w_taken W b). unat (om_counter (tk_msg t)) \<in> F (peer_did (E b), local_epoch (E (\<not> b))))) \<and>
     (\<forall>t \<in> set (w_taken W b). \<exists>p \<in> set (w_sealed W (\<not> b)). agrees p t) \<and>
     distinct (map (om_counter \<circ> tk_msg) (w_taken W b))"

lemma auth_invD:
  assumes "auth_inv K E W b"
  shows "same_config (E b) (w_ends W b)"
    "p \<in> set (w_sealed W b) \<Longrightarrow> unat (pk_counter p) < unat (send_counter (w_ends W b)) \<and>
       env_sender_epoch (pk_env p) = local_epoch (E b) \<and> env_stream (pk_env p) \<noteq> None"
    "distinct (map pk_counter (w_sealed W b))"
    "\<forall>t \<in> set (w_taken W b). \<exists>p \<in> set (w_sealed W (\<not> b)). agrees p t"
    "distinct (map (om_counter \<circ> tk_msg) (w_taken W b))"
  using assms unfolding auth_inv_def by blast+

lemma perform_same:
  assumes "endpoint_step D x (w_ends W a) = (out, ep)"
  shows "w_ends (perform D a x W) a = ep"
    "w_sealed (perform D a x W) a = w_sealed W a @ packets x (send_counter (w_ends W a)) out"
    "w_taken (perform D a x W) a = w_taken W a @ takings D x (w_ends W a) out"
    "w_opener (perform D a x W) = opening_of x a (w_opener W)"
  using assms by (simp_all add: perform_def)

lemma perform_other [simp]:
  assumes "b \<noteq> a"
  shows "w_ends (perform D a x W) b = w_ends W b" "w_sealed (perform D a x W) b = w_sealed W b"
    "w_taken (perform D a x W) b = w_taken W b"
  using assms by (simp_all add: perform_def split: prod.split)

lemma takings_cases:
  assumes "t \<in> set (takings D x ep out)"
  obtains e rv en now ex m where "x = (DoAccept e rv, en, now, ex)" "takings D x ep out = [t]"
    "fst (open_message D (identity_sk ep) e rv (guard ep) now) = Ok m" "om_sender m = peer_did ep"
    "t = \<lparr>tk_env = e, tk_msg = m, tk_out = out\<rparr>"
proof (cases x rule: call_cases)
  case (accept_call e rv en now ex)
  show thesis
    by (cases "fst (open_message D (identity_sk ep) e rv (guard ep) now)";
        rule that [OF accept_call]; use assms accept_call in \<open>auto split: if_splits\<close>)
qed (use assms in simp_all)

context sealing
begin

lemma auth_inv_init: "parties K E \<Longrightarrow> auth_inv K E (world_init E) b"
  by (auto simp: auth_inv_def world_init_def parties_def dom_def intro!: exI [of _ "\<lambda>_. {}"])
    (simp add: guard_new_def)

text \<open>What is taken newly was sealed by the peer.\<close>

lemma new_taking:
  assumes t: "t \<in> set (takings D x B out)" and x: "x = (DoAccept e rv, en, now, ex)"
    and key: "only_key rv (peer_did B) pk" and gen: "unforged D ps pk (identity_sk B) e"
  obtains m p where "takings D x B out = [t]" "t = \<lparr>tk_env = e, tk_msg = m, tk_out = out\<rparr>"
    "fst (open_message D (identity_sk B) e rv (guard B) now) = Ok m" "om_sender m = peer_did B"
    "p \<in> set ps" "agrees p t" "om_sender_epoch m = env_sender_epoch (pk_env p)"
proof -
  obtain m where m: "takings D x B out = [t]" "fst (open_message D (identity_sk B) e rv (guard B) now) = Ok m"
      "om_sender m = peer_did B" "t = \<lparr>tk_env = e, tk_msg = m, tk_out = out\<rparr>"
    using t x by (cases "fst (open_message D (identity_sk B) e rv (guard B) now)") (auto split: if_splits)
  then obtain g where om: "open_message D (identity_sk B) e rv (guard B) now = (Ok m, g)"
    by (cases "open_message D (identity_sk B) e rv (guard B) now") simp
  obtain p where p: "p \<in> set ps" "agrees p \<lparr>tk_env = e, tk_msg = m, tk_out = out\<rparr>"
    using taken_agrees [OF om m(3) key gen] by blast
  have "om_sender_epoch m = env_sender_epoch e"
    using om by (rule open_message_OkE) (metis opened_message.select_convs(5))
  then show thesis using m p by (intro that [of m p]) (simp_all add: agrees_def)
qed

text \<open>The receiver after a permitted call: its guard has seen everything taken, nothing twice.\<close>

text \<open>The one call that takes an envelope: what it takes is new, and sealed by the peer.\<close>

lemma accept_takes:
  assumes x: "x = (DoAccept e rv, en, now, ex)" and st: "endpoint_step D x B = (out, ep)"
    and F: "guard_models (guard B) F" "dom (hm_get (guard B)) \<subseteq> K" and K: "finite K" "card K \<le> MAX_TRACKED_SENDERS"
    and rv: "\<And>s n. rv s n \<noteq> None \<Longrightarrow> (s, n) \<in> K" 
    and key: "only_key rv (peer_did B) pk" and gen: "unforged D ps pk (identity_sk B) e"
    and epoch: "\<And>p. p \<in> set ps \<Longrightarrow> env_sender_epoch (pk_env p) = n"
  obtains F' where "guard_models (guard ep) F'" "dom (hm_get (guard ep)) \<subseteq> K" "\<And>k. F k \<subseteq> F' k"
    "\<And>t. t \<in> set (takings D x B out) \<Longrightarrow>
       takings D x B out = [t] \<and> unat (om_counter (tk_msg t)) \<in> F' (peer_did B, n) \<and>
       unat (om_counter (tk_msg t)) \<notin> F (peer_did B, n) \<and> (\<exists>p \<in> set ps. agrees p t)"
proof -
  obtain r g where om: "open_message D (identity_sk B) e rv (guard B) now = (r, g)" by fastforce
  have g: "guard ep = g" using step_guard [OF st [unfolded x]] om by simp
  obtain F' where F': "guard_models g F'" "dom (hm_get g) \<subseteq> K" "\<And>k. F k \<subseteq> F' k"
      "\<And>m. r = Ok m \<Longrightarrow> unat (om_counter m) \<in> F' (om_sender m, om_sender_epoch m)"
      "\<And>m. r = Ok m \<Longrightarrow> unat (om_counter m) \<notin> F (om_sender m, om_sender_epoch m)"
    by (rule guard_admits [OF F(1) K F(2) rv om]) (assumption, erule that, blast+)
  show thesis
  proof (rule that [of F'], unfold g)
    fix t assume t: "t \<in> set (takings D x B out)"
    show "takings D x B out = [t] \<and> unat (om_counter (tk_msg t)) \<in> F' (peer_did B, n) \<and>
       unat (om_counter (tk_msg t)) \<notin> F (peer_did B, n) \<and> (\<exists>p \<in> set ps. agrees p t)"
    proof (rule new_taking [OF t x key gen])
      fix m p
      assume *: "takings D x B out = [t]" "t = \<lparr>tk_env = e, tk_msg = m, tk_out = out\<rparr>"
        "fst (open_message D (identity_sk B) e rv (guard B) now) = Ok m" "om_sender m = peer_did B"
        "p \<in> set ps" "agrees p t" "om_sender_epoch m = env_sender_epoch (pk_env p)"
      then have "r = Ok m" "(om_sender m, om_sender_epoch m) = (peer_did B, n)" using om epoch by auto
      then show ?thesis using * F'(4,5) [of m] by auto
    qed
  qed (fact F')+
qed

lemma auth_taken:
  assumes inv: "auth_inv K E W b" and pa: "parties K E" and per: "permitted D K W b x"
    and st: "endpoint_step D x (w_ends W b) = (out, ep)"
    and epoch: "\<And>p. p \<in> set (w_sealed W (\<not> b)) \<Longrightarrow> env_sender_epoch (pk_env p) = local_epoch (E (\<not> b))"
  obtains F' where "guard_models (guard ep) F'" "dom (hm_get (guard ep)) \<subseteq> K b"
    "\<And>t. t \<in> set (w_taken W b @ takings D x (w_ends W b) out) \<Longrightarrow>
       unat (om_counter (tk_msg t)) \<in> F' (peer_did (E b), local_epoch (E (\<not> b))) \<and> (\<exists>p \<in> set (w_sealed W (\<not> b)). agrees p t)"
    "distinct (map (om_counter \<circ> tk_msg) (w_taken W b @ takings D x (w_ends W b) out))"
proof -
  let ?B = "w_ends W b" and ?key = "(peer_did (E b), local_epoch (E (\<not> b)))"
  obtain F where F: "guard_models (guard ?B) F" "dom (hm_get (guard ?B)) \<subseteq> K b"
      "\<And>t. t \<in> set (w_taken W b) \<Longrightarrow> unat (om_counter (tk_msg t)) \<in> F ?key"
    and old: "\<And>t. t \<in> set (w_taken W b) \<Longrightarrow> \<exists>p \<in> set (w_sealed W (\<not> b)). agrees p t"
      "distinct (map (om_counter \<circ> tk_msg) (w_taken W b))" and did: "peer_did ?B = peer_did (E b)"
    using inv by (auto simp: auth_inv_def same_config_def simp del: split_paired_All)
  have K: "finite (K b)" "card (K b) \<le> MAX_TRACKED_SENDERS" using pa by (simp_all add: parties_def)
  show thesis
  proof (cases x rule: call_cases)
    case x: (accept_call e rv en now ex)
    have rv: "\<And>s n. rv s n \<noteq> None \<Longrightarrow> (s, n) \<in> K b" and gen: "unforged D (w_sealed W (\<not> b)) (own_pub D (w_ends W (\<not> b))) (identity_sk ?B) e"
      and key: "only_key rv (peer_did ?B) (own_pub D (w_ends W (\<not> b)))"
      using per x by auto
    obtain F' where F': "guard_models (guard ep) F'" "dom (hm_get (guard ep)) \<subseteq> K b" "\<And>k. F k \<subseteq> F' k"
      and new: "\<And>t. t \<in> set (takings D x ?B out) \<Longrightarrow> takings D x ?B out = [t] \<and>
         unat (om_counter (tk_msg t)) \<in> F' ?key \<and> unat (om_counter (tk_msg t)) \<notin> F ?key \<and>
         (\<exists>p \<in> set (w_sealed W (\<not> b)). agrees p t)"
      by (rule accept_takes [OF x st F(1,2) K rv key gen epoch, unfolded did]) (assumption, assumption, erule that, blast+)
    show thesis
    proof (rule that [OF F'(1,2)])
      show "unat (om_counter (tk_msg t)) \<in> F' ?key \<and> (\<exists>p \<in> set (w_sealed W (\<not> b)). agrees p t)"
        if "t \<in> set (w_taken W b @ takings D x ?B out)" for t
        using that F(3) [of t] old(1) [of t] F'(3) [of ?key] new [of t] by auto
      show "distinct (map (om_counter \<circ> tk_msg) (w_taken W b @ takings D x ?B out))"
      proof (cases "takings D x ?B out")
        case (Cons t ts)
        then have "takings D x ?B out = [t]" "unat (om_counter (tk_msg t)) \<notin> F ?key" using new [of t] by auto
        then show ?thesis using old(2) F(3) by auto
      qed (use old(2) in simp)
    qed
  qed (use step_guard [of D _ _ _ _ ?B out ep] st F old in \<open>auto intro!: that [of F] simp del: endpoint_step.simps split_paired_All\<close>)
qed

lemma auth_step:
  assumes inv: "\<And>b. auth_inv K E W b" and pa: "parties K E" and per: "permitted D K W a x"
  shows "auth_inv K E (perform D a x W) b"
proof -
  obtain out ep where st: "endpoint_step D x (w_ends W a) = (out, ep)" by fastforce
  note new = perform_same [OF st]
  have old: "same_config (E c) (w_ends W c)" "distinct (map pk_counter (w_sealed W c))"
      "p \<in> set (w_sealed W c) \<Longrightarrow> unat (pk_counter p) < unat (send_counter (w_ends W c)) \<and> env_sender_epoch (pk_env p) = local_epoch (E c) \<and>
        env_stream (pk_env p) \<noteq> None"
    for c p using inv [of c] by (auto simp: auth_inv_def)
  have c: "send_counter (w_ends W a) \<noteq> -1" using per by (cases x) auto
  have conf: "same_config (E a) ep" by (rule step_config [OF st old(1)])
  show ?thesis
  proof (cases "b = a")
    case True
    have ps: "unat (pk_counter p) < unat (send_counter ep) \<and> env_sender_epoch (pk_env p) = local_epoch (E a) \<and>
        env_stream (pk_env p) \<noteq> None"
      if "p \<in> set (w_sealed W a @ packets x (send_counter (w_ends W a)) out)" for p
      using that old(1) [of a] old(3) [of p a] packets_fields [OF st, of p] counter_mono [OF st c] unat_Suc [OF c]
      by (auto simp: same_config_def)
    have d: "distinct (map pk_counter (w_sealed W a @ packets x (send_counter (w_ends W a)) out))"
    proof (cases "packets x (send_counter (w_ends W a)) out")
      case (Cons p q)
      then have "packets x (send_counter (w_ends W a)) out = [p]" "pk_counter p = send_counter (w_ends W a)"
        using packets_fields [OF st, of p] by auto
      then show ?thesis using old(2) [of a] old(3) [of _ a] by fastforce
    qed (use old(2) in simp)
    have na: "(\<not> a) \<noteq> a" by simp
    show ?thesis
    proof (rule auth_taken [OF inv pa per st])
      fix F'
      assume "guard_models (guard ep) F'" "dom (hm_get (guard ep)) \<subseteq> K a"
        "\<And>t. t \<in> set (w_taken W a @ takings D x (w_ends W a) out) \<Longrightarrow>
           unat (om_counter (tk_msg t)) \<in> F' (peer_did (E a), local_epoch (E (\<not> a))) \<and> (\<exists>p \<in> set (w_sealed W (\<not> a)). agrees p t)"
        "distinct (map (om_counter \<circ> tk_msg) (w_taken W a @ takings D x (w_ends W a) out))"
      then show ?thesis
        unfolding True auth_inv_def new perform_other [OF na] using conf ps d by blast
    qed (use old(3) in blast)
  next
    case False
    then have na: "(\<not> b) = a" by blast
    show ?thesis
      using inv [of b] unfolding auth_inv_def na new perform_other [OF False] by auto
  qed
qed

lemma auth_reachable:
  assumes "adv_reachable D K E W" and "parties K E"
  shows "auth_inv K E W b"
  using assms(1)
proof (induction arbitrary: b rule: adv_reachable.induct)
  case adv_start
  show ?case by (rule auth_inv_init [OF assms(2)])
next
  case (adv_next W a x)
  show ?case by (rule auth_step [OF adv_next.IH assms(2) adv_next.hyps(2)])
qed

end

section \<open>One call, on one stream\<close>

definition kind_of :: "dig_message_envelope \<Rightarrow> stream_frame option" where
  "kind_of e = Option.bind (env_stream e) (\<lambda>h. frame_from_u8 (hdr_frame h))"

definition seq_of :: "dig_message_envelope \<Rightarrow> nat" where
  "seq_of e = (case env_stream e of None \<Rightarrow> 0 | Some h \<Rightarrow> unat (hdr_seq h))"

definition chunks_of :: "bytes32 \<Rightarrow> packet list \<Rightarrow> (nat \<times> bytes) list" where
  "chunks_of k ps = map (\<lambda>p. (seq_of (pk_env p), pk_payload p))
     (filter (\<lambda>p. pk_cid p = k \<and> kind_of (pk_env p) = Some Data) ps)"

fun delivery :: "endpoint_out \<Rightarrow> bytes list" where
  "delivery (Inbound (Ok (Event (EvData d)))) = [d]"
| "delivery _ = []"

definition deliveries :: "bytes32 \<Rightarrow> taking list \<Rightarrow> bytes list" where
  "deliveries k ts = concat (map (\<lambda>t. if env_correlation_id (tk_env t) = k then delivery (tk_out t) else []) ts)"

definition took_open :: "bytes32 \<Rightarrow> taking \<Rightarrow> bool" where
  "took_open k t \<longleftrightarrow> env_correlation_id (tk_env t) = k \<and> kind_of (tk_env t) = Some Open \<and>
     tk_out t = Inbound (Ok (Event EvOpened))"

lemma chunks_of_simps [simp]: "chunks_of k [] = []" "chunks_of k (ps @ qs) = chunks_of k ps @ chunks_of k qs"
  by (simp_all add: chunks_of_def)

lemma deliveries_simps [simp]: "deliveries k [] = []" "deliveries k (ts @ us) = deliveries k ts @ deliveries k us"
  by (simp_all add: deliveries_def)

text \<open>
  What a call does to one stream: to its session, its log of chunks and of deliveries. The flag says
  that the call has spent a counter.
\<close>

definition numbers :: "stream_session \<Rightarrow> u64 \<times> u64" where
  "numbers s = (ss_send_seq s, ss_recv_seq s)"

inductive change :: "bool \<Rightarrow> stream_session option \<Rightarrow> (nat \<times> bytes) list \<Rightarrow> bytes list \<Rightarrow> stream_session option \<Rightarrow> bool" where
  gone: "change b S [] [] None"
| still: "numbers s' = numbers s \<Longrightarrow> change b (Some s) [] [] (Some s')"
| born: "numbers s' = (0, 0) \<Longrightarrow> change b None [] [] (Some s')"
| sends: "S' = None \<or> S' = Some s' \<Longrightarrow> numbers s' = (ss_send_seq s + 1, ss_recv_seq s) \<Longrightarrow>
    L = [] \<or> L = [(unat (ss_send_seq s), d)] \<Longrightarrow> change True (Some s) L [] S'"
| delivers: "S' = None \<or> S' = Some s' \<Longrightarrow> numbers s' = (ss_send_seq s, ss_recv_seq s + 1) \<Longrightarrow>
    change b (Some s) [] [d] S'"

lemma change_same: "change b S [] [] S"
  by (cases S) (auto intro: change.intros)

lemma change_flag: "change False S L G S' \<Longrightarrow> change b S L G S'"
  by (auto elim!: change.cases intro: change.intros)

text \<open>The calls that run an operation \<open>f\<close> of a session and seal its header.\<close>

definition session_call ::
    "bytes32 \<Rightarrow> (stream_session \<Rightarrow> stream_header res \<times> stream_session) \<Rightarrow> 'sk stream_endpoint
      \<Rightarrow> endpoint_out \<Rightarrow> 'sk stream_endpoint \<Rightarrow> bool" where
  "session_call cid f ep out ep' \<longleftrightarrow> (\<forall>k. k \<noteq> cid \<longrightarrow> session k ep' = session k ep) \<and>
     session cid ep' \<in> {None, map_option (snd \<circ> f) (session cid ep)} \<and> delivery out = [] \<and>
     (\<forall>s h. session cid ep = Some s \<and> fst (f s) = Ok h \<longrightarrow> send_counter ep' = send_counter ep + 1) \<and>
     (\<forall>e \<in> set (transmitted out). env_correlation_id e = cid \<and>
        (\<exists>s h. session cid ep = Some s \<and> fst (f s) = Ok h \<and> env_stream e = Some h))"

lemma session_call_seal:
  assumes r: "r = and_then_st (on_session cid f ep) (\<lambda>h ep1. and_then_st (seal_frame D en cid h d now ex ep1) (\<lambda>e ep2. (Ok e, post ep2)))"
    and post: "\<And>ep. session cid (post ep) \<in> {None, session cid ep}" "\<And>k ep. k \<noteq> cid \<Longrightarrow> session k (post ep) = session k ep"
      "\<And>ep. send_counter (post ep) = send_counter ep"
  shows "session_call cid f ep (Outbound (fst r)) (snd r)"
proof (cases "session cid ep")
  case None
  then show ?thesis using r by (simp add: on_session_def session_mut_def session_def session_call_def)
next
  case (Some s)
  let ?ep1 = "ep\<lparr>sessions := hm_insert cid (snd (f s)) (sessions ep)\<rparr>"
  have os: "on_session cid f ep = (fst (f s), ?ep1)"
    using Some by (simp add: on_session_def session_mut_def session_def case_prod_unfold)
  have fs: "f s = (fst (f s), snd (f s))" by simp
  show ?thesis
  proof (cases "fst (f s)")
    case (Ok h)
    let ?ep2 = "?ep1\<lparr>send_counter := send_counter ep + 1\<rparr>"
    obtain q where q: "seal_frame D en cid h d now ex ?ep1 = (q, ?ep2)"
      using seal_frame_state [of D en cid h d now ex ?ep1] by (cases "seal_frame D en cid h d now ex ?ep1") simp
    have s2: "session k ?ep2 = (if k = cid then Some (snd (f s)) else session k ep)" for k by (simp add: session_def)
    show ?thesis
    proof (cases q)
      case (Ok e)
      have "env_stream e = Some h" "env_correlation_id e = cid" using seal_frame_fields [OF q [unfolded Ok]] by auto
      then show ?thesis
        using r os Some q Ok \<open>fst (f s) = Ok h\<close> post(1,3) [of ?ep2] post(2) [of _ ?ep2] s2 by (simp add: session_call_def)
    qed (use r os Some q \<open>fst (f s) = Ok h\<close> s2 in \<open>simp_all add: session_call_def\<close>)
  qed (use r os Some in \<open>simp_all add: session_call_def\<close>)
qed

lemma session_call_plain:
  "session_call cid f ep (Outbound (fst (and_then_st (on_session cid f ep) (\<lambda>h. seal_frame D en cid h d now ex))))
     (snd (and_then_st (on_session cid f ep) (\<lambda>h. seal_frame D en cid h d now ex)))"
proof -
  have id: "and_then_st r (\<lambda>e ep2. (Ok e, ep2)) = r" for r :: "dig_message_envelope res \<times> 'a stream_endpoint"
    by (cases r; cases "fst r") auto
  show ?thesis
    by (rule session_call_seal [where post = "\<lambda>x. x" and d = d and now = now and ex = ex and en = en and D = D])
      (simp_all only: id, simp_all)
qed

lemma session_call_step:
  "apfst Outbound r = (out, ep') \<Longrightarrow> session_call cid f ep (Outbound (fst r)) (snd r) \<Longrightarrow> session_call cid f ep out ep'"
  by (cases r) simp

lemma session_calls:
  "endpoint_step D (DoOpenAck cid w, en, now, ex) ep = (out, ep') \<Longrightarrow> session_call cid (build_open_ack w) ep out ep'"
  "endpoint_step D (DoSend cid d, en, now, ex) ep = (out, ep') \<Longrightarrow> session_call cid build_data ep out ep'"
  "endpoint_step D (DoGrant cid n, en, now, ex) ep = (out, ep') \<Longrightarrow> session_call cid (build_credit n) ep out ep'"
  "endpoint_step D (DoClose cid, en, now, ex) ep = (out, ep') \<Longrightarrow> session_call cid build_close ep out ep'"
  "endpoint_step D (DoReset cid, en, now, ex) ep = (out, ep') \<Longrightarrow> session_call cid (\<lambda>s. apfst Ok (build_reset s)) ep out ep'"
proof -
  have close: "session_call cid build_close ep (Outbound (fst (endpoint_close D en cid now ex ep))) (snd (endpoint_close D en cid now ex ep))"
    by (rule session_call_seal [where post = "drop_if_closed cid", OF endpoint_close_def])
      (simp_all add: session_drop retain_def split: option.split)
  have reset: "session_call cid (\<lambda>s. apfst Ok (build_reset s)) ep (Outbound (fst (endpoint_reset D en cid now ex ep)))
      (snd (endpoint_reset D en cid now ex ep))"
    by (rule session_call_seal [where post = "\<lambda>x. x\<lparr>sessions := hm_remove cid (sessions x)\<rparr>", OF endpoint_reset_def])
      simp_all
  show "endpoint_step D (DoOpenAck cid w, en, now, ex) ep = (out, ep') \<Longrightarrow> session_call cid (build_open_ack w) ep out ep'"
    "endpoint_step D (DoSend cid d, en, now, ex) ep = (out, ep') \<Longrightarrow> session_call cid build_data ep out ep'"
    "endpoint_step D (DoGrant cid n, en, now, ex) ep = (out, ep') \<Longrightarrow> session_call cid (build_credit n) ep out ep'"
    unfolding endpoint_step.simps open_ack_def send_data_def grant_credit_def
    by (erule session_call_step, rule session_call_plain)+
  show "endpoint_step D (DoClose cid, en, now, ex) ep = (out, ep') \<Longrightarrow> session_call cid build_close ep out ep'"
    "endpoint_step D (DoReset cid, en, now, ex) ep = (out, ep') \<Longrightarrow> session_call cid (\<lambda>s. apfst Ok (build_reset s)) ep out ep'"
    unfolding endpoint_step.simps by (erule session_call_step, rule close, erule session_call_step, rule reset)
qed

text \<open>An inbound frame of the peer.\<close>

lemma reset_response_kind:
  "reset_response D en cid now c ep = (r, ep') \<Longrightarrow> f \<in> set (transmitted (Inbound r)) \<Longrightarrow> kind_of f = Some Reset"
  "reset_response D en cid now c ep = (r, ep') \<Longrightarrow> delivery (Inbound r) = [] \<and> r \<noteq> Ok (Event v)"
  using seal_frame_fields(1) [of D en cid "header Reset 0 0" "[]" now 0 ep]
  by (cases "seal_frame D en cid (header Reset 0 0) [] now 0 ep"; cases "fst (seal_frame D en cid (header Reset 0 0) [] now 0 ep)";
      auto simp: reset_response_def kind_of_def)+

inductive arrival :: "dig_message_envelope \<Rightarrow> bytes \<Rightarrow> stream_session option \<Rightarrow> stream_accept res \<Rightarrow> stream_session option \<Rightarrow> bool" where
  no_data: "change False S [] [] S' \<Longrightarrow> (S = None \<Longrightarrow> S' = None) \<Longrightarrow> delivery (Inbound r) = [] \<Longrightarrow>
    r \<noteq> Ok (Event EvOpened) \<Longrightarrow> arrival e d S r S'"
| opens: "kind_of e = Some Open \<Longrightarrow> arrival e d None (Ok (Event EvOpened)) (Some (responder w))"
| data: "kind_of e = Some Data \<Longrightarrow> seq_of e = unat (ss_recv_seq s) \<Longrightarrow> change False (Some s) [] [d] S' \<Longrightarrow>
    arrival e d (Some s) (Ok (Event (EvData d))) S'"

lemma on_recv_numbers:
  assumes "on_recv f h s = (Ok a, s')"
  shows "a = AccData \<and> f = Data \<and> hdr_seq h = ss_recv_seq s \<and> numbers s' = (ss_send_seq s, ss_recv_seq s + 1) \<or>
    a \<noteq> AccData \<and> numbers s' = numbers s"
  using assms by (cases f) (auto simp: on_recv_def numbers_def split: if_splits)

lemma change_retain: "change b S L G (Some s) \<Longrightarrow> S \<noteq> None \<Longrightarrow> change b S L G (retain s)"
  by (auto simp: retain_def numbers_def elim!: change.cases intro: change.intros)

text \<open>What the handling of a verified frame leaves: \<open>arrives\<close> puts the three facts together.\<close>

definition arrives :: "dig_message_envelope \<Rightarrow> opened_message \<Rightarrow> 'sk stream_endpoint
    \<Rightarrow> stream_accept res \<times> 'sk stream_endpoint \<Rightarrow> bool" where
  "arrives e m ep z \<longleftrightarrow> (case z of (r, ep') \<Rightarrow>
     (\<forall>k. k \<noteq> env_correlation_id e \<longrightarrow> session k ep' = session k ep) \<and>
     arrival e (om_payload m) (session (env_correlation_id e) ep) r (session (env_correlation_id e) ep') \<and>
     (\<forall>f \<in> set (transmitted (Inbound r)). kind_of f = Some Reset))"

lemma arrives_dropped: "arrives e m ep (Ok (Dropped c), ep)"
  by (auto simp: arrives_def intro: no_data change_same)

lemma arrives_reset:
  assumes "\<And>k. hm_get h k = (if k = env_correlation_id e then None else hm_get (sessions ep) k)"
  shows "arrives e m ep (reset_response D en (env_correlation_id e) now c (ep\<lparr>sessions := h\<rparr>))"
proof -
  obtain r1 ep1 where r1: "reset_response D en (env_correlation_id e) now c (ep\<lparr>sessions := h\<rparr>) = (r1, ep1)"
    by fastforce
  have "session k ep1 = (if k = env_correlation_id e then None else session k ep)" for k
    using session_reset_response [of k D en "env_correlation_id e" now c "ep\<lparr>sessions := h\<rparr>"] assms r1
    by (simp add: session_def)
  then show ?thesis
    using reset_response_kind [OF r1] by (auto simp: arrives_def r1 intro!: no_data gone)
qed

lemma on_recv_arrival:
  assumes "on_recv frame hdr s = (Ok a, s')" "env_stream e = Some hdr" "kind_of e = Some frame"
  shows "arrival e d (Some s) (Ok (Event (to_event a d))) (retain s')"
  using on_recv_numbers [OF assms(1)]
proof
  assume a: "a = AccData \<and> frame = Data \<and> hdr_seq hdr = ss_recv_seq s \<and> numbers s' = (ss_send_seq s, ss_recv_seq s + 1)"
  then have "change False (Some s) [] [d] (retain s')"
    using change_retain [OF delivers [where S' = "Some s'" and s' = s' and s = s and d = d]] by simp
  then show ?thesis using a assms(2,3) by (auto simp: seq_of_def intro!: data)
next
  assume a: "a \<noteq> AccData \<and> numbers s' = numbers s"
  then have "change False (Some s) [] [] (retain s')" using change_retain [OF still [where s' = s' and s = s]] by simp
  then show ?thesis using a by (cases a) (auto intro!: no_data)
qed

text \<open>A frame for a live stream, neither RESET nor OPEN.\<close>

lemma arrives_live:
  assumes peer: "om_sender m = peer_did ep" "om_shape m = StreamFrame"
    and h: "env_stream e = Some hdr" "frame_from_u8 (hdr_frame hdr) = Some frame" "kind_of e = Some frame"
    and live: "frame \<noteq> Reset" "frame \<noteq> Open" "session (env_correlation_id e) ep = Some s"
  shows "arrives e m ep (accept_opened D en e m now ep)"
proof -
  let ?cid = "env_correlation_id e"
  obtain tr s' where o': "on_recv frame hdr s = (tr, s')" by fastforce
  note unfold = accept_opened_def Let_def session_def hm_contains_key_def
  show ?thesis
  proof (cases tr)
    case (Ok a)
    let ?ep1 = "drop_if_closed ?cid (ep\<lparr>sessions := hm_insert ?cid s' (sessions ep)\<rparr>)"
    have res: "accept_opened D en e m now ep = (Ok (Event (to_event a (om_payload m))), ?ep1)"
      using peer h live o' Ok by (simp add: unfold)
    have S: "session k ?ep1 = (if k = ?cid then retain s' else session k ep)" for k by (simp add: session_drop)
    show ?thesis
      using res S live(3) on_recv_arrival [OF o' [unfolded Ok] h(1,3)] by (simp add: arrives_def)
  next
    case (Err c)
    show ?thesis
      using peer h live o' Err arrives_reset [of "hm_remove ?cid (hm_insert ?cid s' (sessions ep))" e ep m D en now c]
      by (simp add: unfold)
  next
    case (Panic c)
    then show ?thesis using on_recv_no_panic o' by blast
  qed
qed

lemma accept_opened_arrives: "arrives e m ep (accept_opened D en e m now ep)"
proof (cases "om_sender m = peer_did ep \<and> om_shape m = StreamFrame \<and> kind_of e \<noteq> None")
  case False
  then show ?thesis
    using arrives_dropped by (auto simp: accept_opened_def Let_def kind_of_def split: option.splits)
next
  case True
  let ?cid = "env_correlation_id e"
  obtain hdr frame where h: "env_stream e = Some hdr" "frame_from_u8 (hdr_frame hdr) = Some frame"
      "kind_of e = Some frame" using True by (auto simp: kind_of_def split: Option.bind_splits)
  consider "frame = Reset" | "frame = Open" | "frame \<noteq> Reset" "frame \<noteq> Open" "session ?cid ep = None"
    | s where "frame \<noteq> Reset" "frame \<noteq> Open" "session ?cid ep = Some s" by (cases "session ?cid ep") auto
  then show ?thesis
  proof cases
    case 1
    then show ?thesis
      using True h by (auto simp: arrives_def accept_opened_def Let_def session_def intro!: no_data gone)
  next
    case 2
    have rm: "arrives e m ep (reset_response D en ?cid now c (ep\<lparr>sessions := hm_remove ?cid (sessions ep)\<rparr>))" for c
      by (rule arrives_reset) simp
    show ?thesis
      using True h 2 rm [of "StreamProtocol ''duplicate OPEN for a live stream''"] rm [of "StreamLimit (max_concurrent ep)"]
        opens [of e "om_payload m" "hdr_window hdr"]
      by (cases "session ?cid ep") (simp_all add: arrives_def accept_opened_def accept_open_def Let_def session_def)
  next
    case 3
    then show ?thesis
      using True h arrives_dropped by (auto simp: accept_opened_def Let_def session_def hm_contains_key_def)
  next
    case 4
    then show ?thesis using True h arrives_live by blast
  qed
qed

lemma accept_opened_arrival:
  assumes "accept_opened D en e m now ep = (r, ep')"
  shows "k \<noteq> env_correlation_id e \<Longrightarrow> session k ep' = session k ep"
    and "arrival e (om_payload m) (session (env_correlation_id e) ep) r (session (env_correlation_id e) ep')"
    and "f \<in> set (transmitted (Inbound r)) \<Longrightarrow> kind_of f = Some Reset"
  using accept_opened_arrives [of e m ep D en now] assms by (auto simp: arrives_def)

text \<open>
  All that a call does to the stream \<open>k\<close>: it changes the session and the logs together; a session
  comes into being by our OPEN or by one that was taken; an OPEN is sealed by \<open>open\<close> only, and a
  delivery is the payload of a DATA frame with the number that the session expects.
\<close>

definition effect :: "bool \<Rightarrow> bytes32 \<Rightarrow> call \<Rightarrow> packet list \<Rightarrow> taking list \<Rightarrow> stream_session option \<Rightarrow> stream_session option \<Rightarrow> bool" where
  "effect b k x ps ts S S' \<longleftrightarrow> change b S (chunks_of k ps) (deliveries k ts) S' \<and>
     (S = None \<and> S' \<noteq> None \<longrightarrow> (\<exists>w r. x = (DoOpen k w, r)) \<or> (\<exists>t \<in> set ts. took_open k t)) \<and>
     (\<forall>p \<in> set ps. pk_cid p = k \<and> kind_of (pk_env p) = Some Open \<longrightarrow> (\<exists>w r. x = (DoOpen k w, r))) \<and>
     (\<forall>d \<in> set (deliveries k ts). \<exists>t \<in> set ts. \<exists>s. env_correlation_id (tk_env t) = k \<and> kind_of (tk_env t) = Some Data \<and>
        S = Some s \<and> seq_of (tk_env t) = unat (ss_recv_seq s) \<and> om_payload (tk_msg t) = d)"

lemma effectD:
  assumes "effect b k x ps ts S S'"
  shows "change b S (chunks_of k ps) (deliveries k ts) S'"
    "S = None \<Longrightarrow> S' \<noteq> None \<Longrightarrow> (\<exists>w r. x = (DoOpen k w, r)) \<or> (\<exists>t \<in> set ts. took_open k t)"
    "p \<in> set ps \<Longrightarrow> pk_cid p = k \<Longrightarrow> kind_of (pk_env p) = Some Open \<Longrightarrow> \<exists>w r. x = (DoOpen k w, r)"
    "d \<in> set (deliveries k ts) \<Longrightarrow> \<exists>t \<in> set ts. \<exists>s. env_correlation_id (tk_env t) = k \<and> kind_of (tk_env t) = Some Data \<and>
        S = Some s \<and> seq_of (tk_env t) = unat (ss_recv_seq s) \<and> om_payload (tk_msg t) = d"
  using assms unfolding effect_def by (blast, blast, blast, fastforce)

lemma effect_quiet:
  assumes "change b S [] [] S'" and "S = None \<Longrightarrow> S' = None"
    and "\<And>p. p \<in> set ps \<Longrightarrow> pk_cid p = k \<Longrightarrow> kind_of (pk_env p) \<notin> {Some Open, Some Data}"
  shows "effect b k x ps [] S S'"
  using assms by (auto simp: effect_def chunks_of_def filter_empty_conv)

lemma effect_session_call:
  assumes sc: "session_call cid f ep out ep'"
    and f: "\<And>s. numbers (snd (f s)) = numbers s" "\<And>s h. fst (f s) = Ok h \<Longrightarrow> frame_from_u8 (hdr_frame h) \<notin> {Some Open, Some Data}"
  shows "effect b k (op, en, now, ex) (packets (op, en, now, ex) c out) [] (session k ep) (session k ep')"
proof (rule effect_quiet)
  show "change b (session k ep) [] [] (session k ep')"
    using sc f(1) by (cases "k = cid"; cases "session cid ep") (auto simp: session_call_def change_same f(1) intro!: gone still)
  show "session k ep' = None" if "session k ep = None"
    using sc that by (cases "k = cid") (auto simp: session_call_def)
  show "kind_of (pk_env p) \<notin> {Some Open, Some Data}" if "p \<in> set (packets (op, en, now, ex) c out)" for p
    using sc that f(2) by (auto simp: session_call_def kind_of_def)
qed

lemma effect_send:
  assumes sc: "session_call cid build_data ep out ep'"
  shows "effect (send_counter ep' = send_counter ep + 1) k (DoSend cid d, en, now, ex) (packets (DoSend cid d, en, now, ex) c out) [] (session k ep) (session k ep')"
proof (cases "k = cid")
  case False
  then show ?thesis
    using sc by (intro effect_quiet) (auto simp: session_call_def change_same pk_cid_def)
next
  case k: True
  show ?thesis
  proof (cases "session cid ep")
    case None
    then show ?thesis using sc k by (intro effect_quiet) (auto simp: session_call_def intro: change.intros)
  next
    case (Some s)
    let ?s = "snd (build_data s)" and ?ps = "packets (DoSend cid d, en, now, ex) c out"
    have S': "session cid ep' = None \<or> session cid ep' = Some ?s" using sc Some by (auto simp: session_call_def)
    show ?thesis
    proof (cases "fst (build_data s)")
      case (Ok h)
      then have h: "h = header Data (ss_send_seq s) 0" "numbers ?s = (ss_send_seq s + 1, ss_recv_seq s)"
        by (auto simp: build_data_def Let_def numbers_def split: if_splits)
      have one: "transmitted out = [] \<or> (\<exists>e. transmitted out = [e])"
        by (cases out rule: transmitted.cases) simp_all
      have tr: "env_stream e = Some h \<and> env_correlation_id e = cid" if "e \<in> set (transmitted out)" for e
        using sc that Some Ok by (auto simp: session_call_def)
      have L: "chunks_of cid ?ps = [] \<or> chunks_of cid ?ps = [(unat (ss_send_seq s), d)]"
        using one tr h by (auto simp: chunks_of_def kind_of_def seq_of_def pk_cid_def)
      moreover have "send_counter ep' = send_counter ep + 1" using sc Some Ok by (auto simp: session_call_def)
      ultimately have "change (send_counter ep' = send_counter ep + 1) (Some s) (chunks_of cid ?ps) [] (session cid ep')"
        using sends [OF S' h(2)] by auto
      then show ?thesis
        using k Some tr h by (auto simp: effect_def kind_of_def)
    next
      case (Err c)
      then have "?s = s" by (auto simp: build_data_def Let_def split: if_splits)
      then show ?thesis using sc k Some Err S' by (intro effect_quiet) (auto simp: session_call_def intro: change.intros)
    qed (use build_no_panic(2) [of s] in simp)
  qed
qed

lemma effect_open:
  assumes "endpoint_step D (DoOpen cid w, en, now, ex) ep = (out, ep')"
  shows "effect b k (DoOpen cid w, en, now, ex) (packets (DoOpen cid w, en, now, ex) c out) [] (session k ep) (session k ep')"
proof (cases "hm_contains_key (sessions ep) cid \<or> hm_len (sessions ep) \<ge> max_concurrent ep")
  case True
  then obtain x where "out = Outbound (Err x)" "ep' = ep"
    using assms by (cases "hm_contains_key (sessions ep) cid") (auto simp: endpoint_open_def)
  then show ?thesis by (intro effect_quiet) (auto simp: change_same)
next
  case False
  let ?ep1 = "ep\<lparr>sessions := hm_insert cid (initiator w) (sessions ep)\<rparr>"
  obtain q where q: "seal_frame D en cid (header Open 0 w) [] now ex ?ep1 = (q, ep')" "out = Outbound q"
    using assms False by (cases "seal_frame D en cid (header Open 0 w) [] now ex ?ep1") (auto simp: endpoint_open_def)
  have S: "session k ep' = (if k = cid then Some (initiator w) else session k ep)" for k
    using seal_frame_sessions [OF q(1)] by (simp add: session_def)
  have none: "session cid ep = None" using False by (simp add: session_def hm_contains_key_def)
  have tr: "kind_of e = Some Open \<and> env_correlation_id e = cid" if "e \<in> set (transmitted out)" for e
    using that q seal_frame_fields(1,2) [of D en cid "header Open 0 w" "[]" now ex ?ep1 e ep']
    by (cases q) (auto simp: kind_of_def)
  have "chunks_of k (packets (DoOpen cid w, en, now, ex) c out) = []"
    using tr by (auto simp: chunks_of_def filter_empty_conv)
  moreover have "change b (session k ep) [] [] (session k ep')"
    using S none by (cases "k = cid") (auto simp: change_same numbers_def initiator_def intro!: born)
  ultimately show ?thesis using S tr by (auto simp: effect_def pk_cid_def split: if_splits)
qed

lemma effect_accept:
  assumes st: "endpoint_step D x ep = (out, ep')" and x: "x = (DoAccept e rv, en, now, ex)"
  shows "effect b k x (packets x c out) (takings D x ep out) (session k ep) (session k ep')"
proof -
  obtain r where r: "accept D en e rv now ep = (r, ep')" "out = Inbound r"
    using st x by (cases "accept D en e rv now ep") auto
  obtain q g where om: "open_message D (identity_sk ep) e rv (guard ep) now = (q, g)" by fastforce
  have S: "session k (ep\<lparr>guard := g\<rparr>) = session k ep" for k by (simp add: session_def)
  show ?thesis
  proof (cases "\<exists>m. q = Ok m \<and> om_sender m = peer_did ep")
    case False
    then have "ep' = ep\<lparr>guard := g\<rparr> \<and> transmitted out = [] \<and> takings D x ep out = []"
      using r om x by (cases q) (auto simp: accept_def accept_opened_def Let_def)
    then show ?thesis using S x by (auto simp: change_same intro!: effect_quiet)
  next
    case True
    then obtain m where m: "q = Ok m" "om_sender m = peer_did ep" by blast
    have ts: "takings D x ep out = [\<lparr>tk_env = e, tk_msg = m, tk_out = Inbound r\<rparr>]" using x om m r by simp
    have ao: "accept_opened D en e m now (ep\<lparr>guard := g\<rparr>) = (r, ep')" using r om m by (simp add: accept_def)
    note a = accept_opened_arrival [OF ao, unfolded S]
    have ps: "chunks_of k (packets x c out) = []" "\<forall>p \<in> set (packets x c out). kind_of (pk_env p) = Some Reset"
      using a(3) r(2) x by (auto simp: chunks_of_def filter_empty_conv)
    show ?thesis
    proof (cases "k = env_correlation_id e")
      case False
      then show ?thesis
        using a(1) [of k] ps unfolding ts by (auto simp: effect_def deliveries_def took_open_def change_same)
    next
      case True
      have "change b (session k ep) [] (delivery (Inbound r)) (session k ep')"
        using a(2) unfolding True
        by cases (auto simp: numbers_def responder_def intro!: born dest: change_flag)
      then show ?thesis
        using a(2) ps True unfolding ts
        by (auto simp: effect_def deliveries_def took_open_def elim!: arrival.cases)
    qed
  qed
qed

text \<open>The operations that seal neither an OPEN nor a chunk.\<close>

lemma quiet_builds:
  "numbers (snd (build_open_ack w s)) = numbers s" "numbers (snd (build_credit n s)) = numbers s"
  "numbers (snd (build_close s)) = numbers s" "numbers (snd (apfst Ok (build_reset s) :: stream_header res \<times> _)) = numbers s"
  by (simp_all add: session_ops numbers_def)

lemma quiet_headers:
  "fst (build_open_ack w s) = Ok h \<Longrightarrow> frame_from_u8 (hdr_frame h) \<notin> {Some Open, Some Data}"
  "fst (build_credit n s) = Ok h \<Longrightarrow> frame_from_u8 (hdr_frame h) \<notin> {Some Open, Some Data}"
  "fst (build_close s) = Ok h \<Longrightarrow> frame_from_u8 (hdr_frame h) \<notin> {Some Open, Some Data}"
  "fst (apfst Ok (build_reset s) :: stream_header res \<times> _) = Ok h \<Longrightarrow> frame_from_u8 (hdr_frame h) \<notin> {Some Open, Some Data}"
  by (auto simp: session_ops split: if_splits)

lemma step_effect:
  assumes st: "endpoint_step D x ep = (out, ep')"
  shows "effect (send_counter ep' = send_counter ep + 1) k x (packets x c out) (takings D x ep out) (session k ep) (session k ep')"
proof (cases x rule: call_cases)
  case x: (send_call cid d en now ex)
  show ?thesis
    unfolding x takings.simps by (rule effect_send [OF session_calls(2) [OF st [unfolded x]]])
next
  case x: (open_call cid w en now ex)
  show ?thesis
    unfolding x takings.simps by (rule effect_open [OF st [unfolded x]])
next
  case (accept_call e rv en now ex)
  show ?thesis by (rule effect_accept [OF st accept_call])
next
  case x: (ack_call cid w en now ex)
  show ?thesis
    unfolding x takings.simps
    by (rule effect_session_call [OF session_calls(1) [OF st [unfolded x]] quiet_builds(1) quiet_headers(1)])
next
  case x: (grant_call cid n en now ex)
  show ?thesis
    unfolding x takings.simps
    by (rule effect_session_call [OF session_calls(3) [OF st [unfolded x]] quiet_builds(2) quiet_headers(2)])
next
  case x: (close_call cid en now ex)
  show ?thesis
    unfolding x takings.simps
    by (rule effect_session_call [OF session_calls(4) [OF st [unfolded x]] quiet_builds(3) quiet_headers(3)])
next
  case x: (reset_call cid en now ex)
  show ?thesis
    unfolding x takings.simps
    by (rule effect_session_call [OF session_calls(5) [OF st [unfolded x]] quiet_builds(4) quiet_headers(4)])
qed

section \<open>The invariant of a stream\<close>

definition created :: "'sk world \<Rightarrow> host \<Rightarrow> bytes32 \<Rightarrow> bool" where
  "created W a k \<longleftrightarrow> w_opener W k = Some a \<or> (\<exists>t \<in> set (w_taken W a). took_open k t)"

definition opens_of :: "bytes32 \<Rightarrow> packet list \<Rightarrow> packet list" where
  "opens_of k ps = filter (\<lambda>p. pk_cid p = k \<and> kind_of (pk_env p) = Some Open) ps"

text \<open>The chunks of one host are numbered upwards, below the next number of its session.\<close>

definition numbered :: "nat \<Rightarrow> stream_session option \<Rightarrow> (nat \<times> bytes) list \<Rightarrow> bytes list \<Rightarrow> bool" where
  "numbered c S L G \<longleftrightarrow> sorted_wrt (<) (map fst L) \<and> (\<forall>n \<in> set (map fst L). n < c) \<and>
     (\<forall>s. S = Some s \<longrightarrow> (\<forall>n \<in> set (map fst L). n < unat (ss_send_seq s)) \<and> unat (ss_send_seq s) \<le> c \<and>
        unat (ss_recv_seq s) = length G)"

text \<open>What was delivered are the chunks with the numbers from 0.\<close>

definition chained :: "(nat \<times> bytes) list \<Rightarrow> bytes list \<Rightarrow> bool" where
  "chained L G \<longleftrightarrow> (\<forall>i < length G. (i, G ! i) \<in> set L)"

definition stream_inv :: "'sk world \<Rightarrow> bytes32 \<Rightarrow> host \<Rightarrow> bool" where
  "stream_inv W k a \<longleftrightarrow>
     numbered (unat (send_counter (w_ends W a))) (session k (w_ends W a)) (chunks_of k (w_sealed W a)) (deliveries k (w_taken W a)) \<and>
     chained (chunks_of k (w_sealed W (\<not> a))) (deliveries k (w_taken W a)) \<and>
     (\<not> created W a k \<longrightarrow> session k (w_ends W a) = None \<and> chunks_of k (w_sealed W a) = [] \<and> deliveries k (w_taken W a) = []) \<and>
     (opens_of k (w_sealed W a) \<noteq> [] \<longrightarrow> w_opener W k = Some a) \<and> length (opens_of k (w_sealed W a)) \<le> 1"

lemma chained_mono: "chained L G \<Longrightarrow> chained (L @ L') G"
  by (auto simp: chained_def)

lemma chained_append: "chained L G \<Longrightarrow> (length G, d) \<in> set L \<Longrightarrow> chained L (G @ [d])"
  by (auto simp: chained_def nth_append less_Suc_eq)

lemma numbered_change:
  fixes c c' :: u64
  assumes ch: "change b S l g S'" and nu: "numbered (unat c) S L G" and c: "c \<noteq> -1" "unat c \<le> unat c'" "b \<Longrightarrow> c' = c + 1"
    and new: "S = None \<Longrightarrow> S' \<noteq> None \<Longrightarrow> L = [] \<and> G = []"
    and g: "\<And>s d. S = Some s \<Longrightarrow> g = [d] \<Longrightarrow> unat (ss_recv_seq s) < 2 ^ 64 - 1"
  shows "numbered (unat c') S' (L @ l) (G @ g)"
  using ch
proof cases
  case gone
  then show ?thesis using nu c(2) by (auto simp: numbered_def)
next
  case (still s' s)
  then show ?thesis using nu c(2) by (fastforce simp: numbered_def numbers_def)
next
  case (born s')
  then show ?thesis using new nu by (simp add: numbered_def numbers_def)
next
  case (sends s' s d)
  have c': "unat c' = Suc (unat c)" using c(3) sends(1) unat_Suc [OF c(1)] by simp
  have le: "unat (ss_send_seq s) \<le> unat c" using nu sends(2) by (simp add: numbered_def)
  then have "ss_send_seq s \<noteq> -1" using c(1) by (metis antisym_conv word_le_nat_alt word_order.extremum)
  then have "unat (ss_send_seq s') = Suc (unat (ss_send_seq s))" using sends(5) by (simp add: numbers_def unat_Suc)
  then show ?thesis
    using nu sends c' le by (fastforce simp: numbered_def numbers_def sorted_wrt_append)
next
  case (delivers s' s d)
  have "unat (-1 :: u64) = 2 ^ 64 - 1" by (simp add: unsigned_minus_1_eq_mask mask_eq_exp_minus_1)
  then have "ss_recv_seq s \<noteq> -1" using g [OF delivers(1)] delivers(3) by auto
  then have "unat (ss_recv_seq s') = Suc (unat (ss_recv_seq s))" using delivers(5) by (simp add: numbers_def unat_Suc)
  then show ?thesis using nu delivers c(2) by (fastforce simp: numbered_def numbers_def)
qed

lemma agrees_kind:
  assumes "agrees p t" and "env_stream (pk_env p) \<noteq> None" and "kind_of (tk_env t) = Some f"
  shows "kind_of (pk_env p) = Some f" "seq_of (pk_env p) = seq_of (tk_env t)" "pk_cid p = env_correlation_id (tk_env t)"
  using assms by (auto simp: agrees_def kind_of_def seq_of_def frame_and_seq_def split: Option.bind_splits)

lemma opens_of_ConsD:
  "opens_of k ps = p # q \<Longrightarrow> p \<in> set ps \<and> pk_cid p = k \<and> kind_of (pk_env p) = Some Open"
  by (auto simp: opens_of_def filter_eq_Cons_iff)

lemma opening_of_cases: "opening_of x a f = f \<or> (\<exists>k w r. x = (DoOpen k w, r) \<and> opening_of x a f = f(k \<mapsto> a))"
  by (cases "(x, a, f)" rule: opening_of.cases) auto

lemma opening_of_known: "permitted D K W a x \<Longrightarrow> w_opener W k = Some b \<Longrightarrow> opening_of x a (w_opener W) k = Some b"
  using opening_of_cases [of x a "w_opener W"] by (cases x) auto

lemma permitted_open: "permitted D K W a (DoOpen k w, r) \<Longrightarrow> w_opener W k = None"
  by (cases r) auto

lemma at_most_one: "length xs \<le> 1 \<Longrightarrow> x \<in> set xs \<Longrightarrow> y \<in> set xs \<Longrightarrow> x = y"
  by (cases xs) auto

text \<open>A session that comes into being is the first of its stream at this host.\<close>

lemma stream_fresh:
  assumes auth: "\<And>b. auth_inv K E W b" "auth_inv K E (perform D a x W) a" and inv: "\<And>b. stream_inv W k b"
    and per: "permitted D K W a x" and st: "endpoint_step D x (w_ends W a) = (out, ep)"
    and S: "session k (w_ends W a) = None" "session k ep \<noteq> None"
  shows "\<not> created W a k"
proof -
  let ?ts = "takings D x (w_ends W a) out"
  note ef = step_effect [OF st, of k "send_counter (w_ends W a)"]
  have other: "(\<not> a) \<noteq> a" by simp
  have source: "\<exists>p \<in> set (opens_of k (w_sealed W (\<not> a))). agrees p t"
    if t: "t \<in> set (w_taken W a @ ?ts)" "took_open k t" for t
  proof -
    obtain p where p: "p \<in> set (w_sealed W (\<not> a))" "agrees p t"
      using auth(2) t(1) unfolding auth_inv_def perform_same [OF st] perform_other [OF other] by blast
    then have "env_stream (pk_env p) \<noteq> None" using auth(1) [of "\<not> a"] by (auto simp: auth_inv_def)
    then show ?thesis using agrees_kind [OF p(2), of Open] p t(2) by (auto simp: opens_of_def took_open_def)
  qed
  have opener: "w_opener W k = Some (\<not> a)" if "t \<in> set (w_taken W a @ ?ts)" "took_open k t" for t
    using source [OF that] inv [of "\<not> a"] by (auto simp: stream_inv_def)
  from effectD(2) [OF ef S] show ?thesis
  proof (elim disjE exE bexE)
    fix w r assume "x = (DoOpen k w, r)"
    then have "w_opener W k = None" using per permitted_open by blast
    then show ?thesis using opener by (auto simp: created_def)
  next
    fix t assume t: "t \<in> set ?ts" "took_open k t"
    have "\<not> took_open k t'" if t': "t' \<in> set (w_taken W a)" for t'
    proof
      assume to': "took_open k t'"
      obtain p p' where p: "p \<in> set (opens_of k (w_sealed W (\<not> a)))" "agrees p t"
          "p' \<in> set (opens_of k (w_sealed W (\<not> a)))" "agrees p' t'"
        using source t t' to' by (metis Un_iff set_append)
      have "p = p'" by (rule at_most_one [OF _ p(1,3)]) (use inv [of "\<not> a"] in \<open>simp add: stream_inv_def\<close>)
      then have "om_counter (tk_msg t) = om_counter (tk_msg t')" using p(2,4) by (simp add: agrees_def)
      moreover have "distinct (map (om_counter \<circ> tk_msg) (w_taken W a @ ?ts))"
        using auth(2) by (simp add: auth_inv_def perform_same [OF st])
      ultimately show False using t(1) t' by fastforce
    qed
    then show ?thesis using opener [of t] t by (auto simp: created_def)
  qed
qed

text \<open>A delivery is the chunk that the peer sealed under the number the session expects.\<close>

lemma delivery_source:
  assumes auth: "\<And>b. auth_inv K E W b" "auth_inv K E (perform D a x W) a"
    and st: "endpoint_step D x (w_ends W a) = (out, ep)"
    and d: "d \<in> set (deliveries k (takings D x (w_ends W a) out))"
  obtains s where "session k (w_ends W a) = Some s" "(unat (ss_recv_seq s), d) \<in> set (chunks_of k (w_sealed W (\<not> a)))"
proof -
  have other: "(\<not> a) \<noteq> a" by simp
  obtain t s where t: "t \<in> set (takings D x (w_ends W a) out)" "env_correlation_id (tk_env t) = k"
      "kind_of (tk_env t) = Some Data" "session k (w_ends W a) = Some s" "seq_of (tk_env t) = unat (ss_recv_seq s)"
      "om_payload (tk_msg t) = d"
    using effectD(4) [OF step_effect [OF st, of k "send_counter (w_ends W a)"] d] by blast
  obtain p where p: "p \<in> set (w_sealed W (\<not> a))" "agrees p t"
    using auth(2) t(1) unfolding auth_inv_def perform_same [OF st] perform_other [OF other]
    by (metis Un_iff set_append)
  then have "env_stream (pk_env p) \<noteq> None" using auth(1) [of "\<not> a"] by (auto simp: auth_inv_def)
  note kd = agrees_kind [OF p(2) this t(3)]
  have "pk_payload p = d" using p(2) t(6) by (simp add: agrees_def)
  then have "(unat (ss_recv_seq s), d) \<in> set (chunks_of k (w_sealed W (\<not> a)))"
    using p(1) kd t(2,5) unfolding chunks_of_def by (force simp: image_iff)
  with t(4) show thesis by (rule that)
qed

lemma change_delivers: "change b S L G S' \<Longrightarrow> G = [] \<or> (\<exists>d. G = [d])"
  by (auto elim: change.cases)

text \<open>One call of a host, seen from the stream \<open>k\<close> at its end: the five conjuncts of the invariant.\<close>

lemma step_numbered:
  assumes auth: "\<And>b. auth_inv K E W b" "auth_inv K E (perform D a x W) a" and inv: "\<And>b. stream_inv W k b"
    and per: "permitted D K W a x" and st: "endpoint_step D x (w_ends W a) = (out, ep)"
  shows "numbered (unat (send_counter ep)) (session k ep)
    (chunks_of k (w_sealed W a) @ chunks_of k (packets x (send_counter (w_ends W a)) out))
    (deliveries k (w_taken W a) @ deliveries k (takings D x (w_ends W a) out))"
proof (rule numbered_change [OF effectD(1) [OF step_effect [OF st]]])
  let ?c = "send_counter (w_ends W a)" and ?S = "session k (w_ends W a)" and ?ts = "takings D x (w_ends W a) out"
  show c: "?c \<noteq> -1" using per by (cases x) auto
  show "unat ?c \<le> unat (send_counter ep)" by (rule counter_mono [OF st c])
  show "numbered (unat ?c) ?S (chunks_of k (w_sealed W a)) (deliveries k (w_taken W a))"
    using inv [of a] by (simp add: stream_inv_def)
  show "chunks_of k (w_sealed W a) = [] \<and> deliveries k (w_taken W a) = []" if "?S = None" "session k ep \<noteq> None"
    using inv [of a] stream_fresh [OF auth inv per st that] by (auto simp: stream_inv_def)
  show "unat (ss_recv_seq s) < 2 ^ 64 - 1" if "?S = Some s" "deliveries k ?ts = [d]" for s d
  proof -
    have "d \<in> set (deliveries k ?ts)" using that by simp
    then obtain s' where "?S = Some s'" "(unat (ss_recv_seq s'), d) \<in> set (chunks_of k (w_sealed W (\<not> a)))"
      by (rule delivery_source [OF auth st])
    then have "unat (ss_recv_seq s) < unat (send_counter (w_ends W (\<not> a)))"
      using inv [of "\<not> a"] that by (fastforce simp: stream_inv_def numbered_def)
    also have "\<dots> \<le> 2 ^ 64 - 1" using unsigned_less [of "send_counter (w_ends W (\<not> a))", where 'a = nat] by simp
    finally show ?thesis .
  qed
qed

lemma step_chained:
  assumes auth: "\<And>b. auth_inv K E W b" "auth_inv K E (perform D a x W) a" and inv: "stream_inv W k a"
    and st: "endpoint_step D x (w_ends W a) = (out, ep)"
  shows "chained (chunks_of k (w_sealed W (\<not> a)))
    (deliveries k (w_taken W a) @ deliveries k (takings D x (w_ends W a) out))"
  using change_delivers [OF effectD(1) [OF step_effect [OF st, of k "send_counter (w_ends W a)"]]]
proof (elim disjE exE)
  have I: "chained (chunks_of k (w_sealed W (\<not> a))) (deliveries k (w_taken W a))"
    "numbered (unat (send_counter (w_ends W a))) (session k (w_ends W a)) (chunks_of k (w_sealed W a)) (deliveries k (w_taken W a))"
    using inv by (simp_all add: stream_inv_def)
  {
    fix d assume d: "deliveries k (takings D x (w_ends W a) out) = [d]"
    then have "d \<in> set (deliveries k (takings D x (w_ends W a) out))" by simp
    then obtain s where "session k (w_ends W a) = Some s" "(unat (ss_recv_seq s), d) \<in> set (chunks_of k (w_sealed W (\<not> a)))"
      by (rule delivery_source [OF auth st])
    then show ?thesis using d I chained_append by (simp add: numbered_def)
  }
  show ?thesis if "deliveries k (takings D x (w_ends W a) out) = []" using that I(1) by simp
qed

lemma step_unborn:
  assumes inv: "stream_inv W k a" and per: "permitted D K W a x" and st: "endpoint_step D x (w_ends W a) = (out, ep)"
    and un: "\<not> created (perform D a x W) a k"
  shows "session k ep = None"
    "chunks_of k (w_sealed W a) @ chunks_of k (packets x (send_counter (w_ends W a)) out) = []"
    "deliveries k (w_taken W a) @ deliveries k (takings D x (w_ends W a) out) = []"
proof -
  let ?ts = "takings D x (w_ends W a) out"
  note ef = step_effect [OF st, of k "send_counter (w_ends W a)"]
  have "\<not> created W a k" and still_none: "\<not> ((\<exists>w r. x = (DoOpen k w, r)) \<or> (\<exists>t \<in> set ?ts. took_open k t))"
    using un opening_of_known [OF per] unfolding created_def perform_same [OF st] by auto
  then have unborn: "session k (w_ends W a) = None \<and> chunks_of k (w_sealed W a) = [] \<and> deliveries k (w_taken W a) = []"
    using inv by (simp add: stream_inv_def)
  show none: "session k ep = None" by (rule ccontr) (use effectD(2) [OF ef] unborn still_none in simp)
  show "chunks_of k (w_sealed W a) @ chunks_of k (packets x (send_counter (w_ends W a)) out) = []"
    "deliveries k (w_taken W a) @ deliveries k ?ts = []"
    using effectD(1) [OF ef] unborn none by (auto elim: change.cases)
qed

lemma step_opener:
  assumes inv: "stream_inv W k a" and per: "permitted D K W a x" and st: "endpoint_step D x (w_ends W a) = (out, ep)"
    and some: "opens_of k (w_sealed W a @ packets x (send_counter (w_ends W a)) out) \<noteq> []"
  shows "w_opener (perform D a x W) k = Some a \<and>
    length (opens_of k (w_sealed W a @ packets x (send_counter (w_ends W a)) out)) \<le> 1"
proof (cases "opens_of k (packets x (send_counter (w_ends W a)) out)")
  case Nil
  then show ?thesis
    using some inv opening_of_known [OF per] by (simp add: stream_inv_def perform_same [OF st] opens_of_def)
next
  case (Cons p q)
  let ?ps = "packets x (send_counter (w_ends W a)) out"
  have p: "p \<in> set ?ps" "pk_cid p = k" "kind_of (pk_env p) = Some Open" using opens_of_ConsD [OF Cons] by simp_all
  obtain w r where x: "x = (DoOpen k w, r)" using effectD(3) [OF step_effect [OF st] p] by blast
  have "opens_of k (w_sealed W a) \<noteq> [] \<Longrightarrow> w_opener W k = Some a" using inv by (simp add: stream_inv_def)
  then have "opens_of k (w_sealed W a) = []" using x permitted_open per by fastforce
  moreover have "?ps = [p]" by (rule packets_fields(1) [OF st p(1)])
  moreover have "opening_of x a (w_opener W) k = Some a" unfolding x by simp
  ultimately show ?thesis unfolding perform_same [OF st] by (simp add: opens_of_def)
qed

lemma stream_step_actor:
  assumes auth: "\<And>b. auth_inv K E W b" "auth_inv K E (perform D a x W) a" and inv: "\<And>b. stream_inv W k b"
    and per: "permitted D K W a x"
  shows "stream_inv (perform D a x W) k a"
proof -
  obtain out ep where st: "endpoint_step D x (w_ends W a) = (out, ep)" by fastforce
  have other: "(\<not> a) \<noteq> a" by simp
  note nu = step_numbered [OF auth inv per st] and ch = step_chained [OF auth inv st]
    and un = step_unborn [OF inv per st] and op = step_opener [OF inv per st]
  show ?thesis
    using nu ch un op
    unfolding stream_inv_def perform_same [OF st] perform_other [OF other] chunks_of_simps deliveries_simps
    by (cases "opens_of k (w_sealed W a @ packets x (send_counter (w_ends W a)) out)") (auto simp: perform_same [OF st])
qed

lemma stream_step_peer:
  assumes inv: "stream_inv W k b" and per: "permitted D K W a x" and b: "b \<noteq> a"
  shows "stream_inv (perform D a x W) k b"
proof -
  have na: "(\<not> b) = a" using b by blast
  obtain out ep where st: "endpoint_step D x (w_ends W a) = (out, ep)" by fastforce
  have "w_opener (perform D a x W) k = Some b \<longleftrightarrow> w_opener W k = Some b"
    using opening_of_cases [of x a "w_opener W"]
  proof (elim disjE exE conjE)
    fix j w r assume x: "x = (DoOpen j w, r)" "opening_of x a (w_opener W) = (w_opener W)(j \<mapsto> a)"
    then have "w_opener W j = None" using per permitted_open by blast
    then show ?thesis using b unfolding perform_same [OF st] x(2) by (cases "k = j") simp_all
  qed (simp add: perform_same [OF st])
  then show ?thesis
    using inv unfolding stream_inv_def created_def na perform_other [OF b] perform_same [OF st]
    by (auto intro: chained_mono)
qed

context sealing
begin

lemma stream_reachable:
  assumes "adv_reachable D K E W" and pa: "parties K E"
  shows "stream_inv W k b"
  using assms(1)
proof (induction arbitrary: b rule: adv_reachable.induct)
  case adv_start
  show ?case
    using pa by (auto simp: stream_inv_def world_init_def numbered_def chained_def opens_of_def parties_def session_def)
next
  case (adv_next W a x)
  have auth: "auth_inv K E W c" "auth_inv K E (perform D a x W) c" for c
    using auth_reachable [OF _ pa] adv_next.hyps adv_reachable.adv_next by blast+
  show ?case
  proof (cases "b = a")
    case True
    show ?thesis unfolding True by (rule stream_step_actor [OF auth adv_next.IH adv_next.hyps(2)])
  next
    case False
    show ?thesis by (rule stream_step_peer [OF adv_next.IH adv_next.hyps(2) False])
  qed
qed

end

section \<open>From the invariants to the logs\<close>

text \<open>Numbers that ascend strictly and include all below \<open>n\<close> start with them.\<close>

lemma ascending_prefix:
  assumes "sorted_wrt (<) ns" and "{..<n} \<subseteq> set ns"
  shows "take n ns = [0..<n]"
proof -
  have "sorted ns" "distinct ns" using assms(1) by (simp_all add: strict_sorted_iff)
  have "i \<le> ns ! i" if "i < length ns" for i
    using that
  proof (induction i)
    case (Suc i)
    then have "ns ! i < ns ! Suc i" using assms(1) by (simp add: sorted_wrt_nth_less)
    then show ?case using Suc by simp
  qed simp
  note low = this
  have len: "n \<le> length ns"
    using card_mono [OF _ assms(2)] card_length [of ns] by simp
  have "ns ! i = i" if "i < n" for i
    using that
  proof (induction i rule: less_induct)
    case (less i)
    obtain j where j: "j < length ns" "ns ! j = i" using assms(2) less.prems by (auto simp: in_set_conv_nth subset_iff)
    then have "j \<le> i" using low by auto
    moreover have "j = i" if "j < i" using less.IH [OF that] less.prems that j by simp
    ultimately show ?case using j by (cases "j = i") auto
  qed
  then show ?thesis using len by (intro nth_equalityI) auto
qed

lemma chained_prefix:
  assumes "sorted_wrt (<) (map fst L)" and "chained L G"
  shows "prefix G (map snd L)"
proof -
  let ?n = "length G"
  have "{..<?n} \<subseteq> set (map fst L)" using assms(2) by (force simp: chained_def)
  from ascending_prefix [OF assms(1) this] have t: "take ?n (map fst L) = [0..<?n]" .
  have len: "?n \<le> length L" using arg_cong [OF t, of length] by simp
  have "distinct (map fst L)" using assms(1) by (simp add: strict_sorted_iff)
  have "map snd L ! i = G ! i" if i: "i < ?n" for i
  proof -
    have "fst (L ! i) = i" using arg_cong [OF t, of "\<lambda>xs. xs ! i"] i len by simp
    moreover have "(i, G ! i) \<in> set L" using assms(2) i by (simp add: chained_def)
    moreover have "L ! i \<in> set L" using i len by simp
    then have "(fst (L ! i), snd (L ! i)) \<in> set L" by simp
    ultimately have "snd (L ! i) = G ! i"
      using eq_key_imp_eq_value [OF \<open>distinct (map fst L)\<close>] by simp
    then show ?thesis using i len by simp
  qed
  then have "G = take ?n (map snd L)" using len by (intro nth_equalityI) auto
  then show ?thesis by (metis take_is_prefix)
qed

text \<open>A choice of packets, one for each taking.\<close>

lemma list_choice: "\<forall>t \<in> set ts. \<exists>p \<in> A. R p t \<Longrightarrow> \<exists>ps. list_all2 R ps ts \<and> set ps \<subseteq> A"
proof (induction ts)
  case (Cons t ts)
  then obtain p ps where "p \<in> A" "R p t" "list_all2 R ps ts" "set ps \<subseteq> A" by auto
  then show ?case by (intro exI [of _ "p # ps"]) simp
qed simp

lemma agreed_counters: "list_all2 agrees ps ts \<Longrightarrow> map pk_counter ps = map (om_counter \<circ> tk_msg) ts"
  by (induction rule: list_all2_induct) (simp_all add: agrees_def)

section \<open>Orderly runs among all runs\<close>

text \<open>What a host sealed for the other one forges nothing, however often it is handed over.\<close>

context sealing
begin

lemma presented_sealed:
  assumes seal: "seal_with_ephemeral D q esk = Ok e" and to: "addressed D rsk rv q"
    and p: "presented D rsk (public_key_bytes (crypto D) (sp_sender_sk q)) e inner"
  shows "\<exists>c sig. compress_payload (zstd D) (sp_payload q) = Ok c \<and> inner = inner_of q c sig"
  using seal
proof (rule seal_with_ephemeral_inner)
  fix c z okm sig aad b
  assume c: "compress_payload (zstd D) (sp_payload q) = Ok c"
    and z: "auth_encap_secret (crypto D) esk (sp_sender_sk q) (sp_recipient_pub q) = Ok z"
    and okm: "kdf (crypto D) z (kem_enc (env_sealed e)) (public_key_bytes (crypto D) (sp_sender_sk q))
        (sp_recipient_pub q) = Ok okm"
    and b: "to_bytes (inner_message_codec (chia D)) (inner_of q c sig) = Inr b"
    and aad: "header_bytes (chia D) e = Ok aad"
    and ct: "aead_seal (crypto D) okm aad b = Ok (ciphertext (env_sealed e))"
  have e: "sealed_for D q esk e" by (rule seal_with_ephemeral_fields [OF seal])
  have "auth_decap_secret (crypto D) rsk (public_key_bytes (crypto D) (sp_sender_sk q)) (kem_enc (env_sealed e)) = Ok z"
    using z to e crypto.encap_decap [of esk "sp_sender_sk q" rsk] by (simp add: addressed_def sealed_for_def)
  then have "plaintext_of D rsk (public_key_bytes (crypto D) (sp_sender_sk q)) e = Ok b"
    using okm to aad crypto.aead_open_seal [OF ct] by (simp add: plaintext_of_def addressed_def)
  then have "inner = inner_of q c sig" using p chia.inner_round_trip [OF b] by (simp add: presented_def)
  with c show ?thesis by blast
qed

lemma unforged_sealed:
  assumes sp: "sealed_packet D A p" and li: "listens D rv A B" and p: "p \<in> set ps"
  shows "unforged D ps (own_pub D A) (identity_sk B) (pk_env p)"
proof -
  obtain en A1 A2 f s v where A1: "same_config A A1" "send_counter A1 = pk_counter p"
    and sf: "seal_frame D en (pk_cid p) (header f s v) (pk_payload p) (pk_sent p) (pk_expires p) A1 = (Ok (pk_env p), A2)"
    using sp by (auto simp: sealed_packet_def)
  obtain q esk where q: "seal_with_ephemeral D q esk = Ok (pk_env p)" "sp_sender_sk q = identity_sk A1"
      "sp_sender q = local_did A1" "sp_sender_epoch q = local_epoch A1" "sp_recipient_pub q = peer_pub A1"
      "sp_counter q = pk_counter p" "sp_timestamp_ms q = pk_sent p" "sp_expires_at q = pk_expires p"
      "sp_payload q = pk_payload p"
    using sf A1(2) by (auto simp: seal_frame_def Let_def seal_message_def result_elims)
  have to: "addressed D (identity_sk B) rv q" using li q A1(1) by (simp add: addressed_def listens_def same_config_def)
  have pub: "own_pub D A = public_key_bytes (crypto D) (sp_sender_sk q)"
    using q(2) A1(1) by (simp add: own_pub_def same_config_def)
  have "signed_for D p (pk_env p) inner" if pr: "presented D (identity_sk B) (own_pub D A) (pk_env p) inner" for inner
  proof -
    obtain c sig where c: "compress_payload (zstd D) (pk_payload p) = Ok c" and inner: "inner = inner_of q c sig"
      using presented_sealed [OF q(1) to pr [unfolded pub]] q(9) by auto
    have "opened_transcript (pk_env p) inner = signed_transcript p c"
      using q by (simp add: inner opened_transcript_def signed_transcript_def)
    then show ?thesis unfolding signed_for_def using c by (intro exI [of _ c]) (simp add: inner)
  qed
  then show ?thesis using p by (auto simp: unforged_def)
qed

end

text \<open>A call of an orderly run: what it transmits goes on the line, what it delivers in the log.\<close>

definition orderly_call :: "'sk deps \<Rightarrow> 'sk network \<Rightarrow> 'sk network \<Rightarrow> host \<Rightarrow> call \<Rightarrow> bool" where
  "orderly_call D N N' a x \<longleftrightarrow> (\<exists>out ep. endpoint_step D x (ends N a) = (out, ep) \<and> ends N' = (ends N)(a := ep) \<and>
     (\<forall>b. set (lines N' b) \<subseteq> set (lines N b) \<union> (if b = a then set (packets x (send_counter (ends N a)) out) else {})) \<and>
     (\<forall>k. map_option fst (origin N' k) = opening_of x a (\<lambda>k. map_option fst (origin N k)) k) \<and>
     (\<forall>b k. recv_log N' b k = recv_log N b k @ (if b = a then deliveries k (takings D x (ends N a) out) else [])))"

lemma accept_delivery:
  assumes "accept D en e rv now ep = (r, ep')"
  shows "deliveries k (takings D (DoAccept e rv, en, now, ex) ep (Inbound r)) =
    (if k = env_correlation_id e then delivery (Inbound r) else [])"
proof (cases "\<exists>m. fst (open_message D (identity_sk ep) e rv (guard ep) now) = Ok m \<and> om_sender m = peer_did ep")
  case True
  then show ?thesis by (auto simp: deliveries_def)
next
  case False
  then have "delivery (Inbound r) = []"
    using assms by (cases "open_message D (identity_sk ep) e rv (guard ep) now"; cases "fst (open_message D (identity_sk ep) e rv (guard ep) now)")
      (auto simp: accept_def accept_opened_def Let_def)
  then show ?thesis using False by (auto split: result.split)
qed

lemma net_step_call:
  assumes "net_step D rv N N'"
  obtains a op en now ex where "orderly_call D N N' a (op, en, now, ex)" "send_counter (ends N a) \<noteq> -1"
    "\<And>k w. op = DoOpen k w \<Longrightarrow> origin N k = None"
    "\<And>e r. op = DoAccept e r \<Longrightarrow> r = rv a \<and> (\<exists>p \<in> set (lines N (\<not> a)). e = pk_env p)"
  using assms
proof cases
  case (n_open en k w now ex a e ep)
  show thesis
    by (rule that [of a "DoOpen k w" en now ex]) (use n_open in \<open>auto simp: orderly_call_def put_line_def\<close>)
next
  case (n_open_ack en k w now ex a e ep)
  show thesis
    by (rule that [of a "DoOpenAck k w" en now ex]) (use n_open_ack in \<open>auto simp: orderly_call_def put_line_def\<close>)
next
  case (n_data en k d now ex a e ep)
  show thesis
    by (rule that [of a "DoSend k d" en now ex]) (use n_data in \<open>auto simp: orderly_call_def put_line_def log_sent_def\<close>)
next
  case (n_credit en k n now ex a e ep s)
  show thesis
    by (rule that [of a "DoGrant k n" en now ex]) (use n_credit in \<open>auto simp: orderly_call_def put_line_def\<close>)
next
  case (n_close en k now ex a e ep s)
  show thesis
    by (rule that [of a "DoClose k" en now ex]) (use n_close in \<open>auto simp: orderly_call_def put_line_def\<close>)
next
  case (n_reset en k now ex a e ep)
  show thesis
    by (rule that [of a "DoReset k" en now ex]) (use n_reset in \<open>auto simp: orderly_call_def put_line_def\<close>)
next
  case (n_arrive a p q now en r ep)
  have d: "delivery (Inbound (Ok r)) = (case r of Event (EvData d) \<Rightarrow> [d] | _ \<Rightarrow> [])"
    by (simp split: stream_accept.split stream_event.split)
  have l: "set (answer now (Ok r) c) \<subseteq> set (packets (DoAccept (pk_env p) (rv (\<not> a)), en, now, 0) c (Inbound (Ok r)))" for c
    by (cases r) simp_all
  show thesis
  proof (rule that [of "\<not> a" "DoAccept (pk_env p) (rv (\<not> a))" en now 0])
    show "orderly_call D N N' (\<not> a) (DoAccept (pk_env p) (rv (\<not> a)), en, now, 0)"
      unfolding orderly_call_def
      by (rule exI [of _ "Inbound (Ok r)"], rule exI [of _ ep])
        (use n_arrive l accept_delivery [OF n_arrive(4)] in \<open>auto simp: take_line_def pk_cid_def d simp del: takings.simps packets.simps\<close>)
  qed (use n_arrive in auto)
qed

definition follows :: "'sk network \<Rightarrow> 'sk world \<Rightarrow> bool" where
  "follows N W \<longleftrightarrow> w_ends W = ends N \<and> (\<forall>a. set (lines N a) \<subseteq> set (w_sealed W a)) \<and>
     w_opener W = (\<lambda>k. map_option fst (origin N k)) \<and> (\<forall>b k. deliveries k (w_taken W b) = recv_log N b k)"

lemma follows_call:
  assumes "follows N W" and oc: "orderly_call D N N' a x"
  shows "follows N' (perform D a x W)"
proof -
  have W: "w_ends W = ends N" "\<And>b. set (lines N b) \<subseteq> set (w_sealed W b)"
    "w_opener W = (\<lambda>k. map_option fst (origin N k))" "\<And>b k. deliveries k (w_taken W b) = recv_log N b k"
    using assms(1) by (auto simp: follows_def)
  obtain out ep where st: "endpoint_step D x (ends N a) = (out, ep)" "ends N' = (ends N)(a := ep)"
      "\<And>b. set (lines N' b) \<subseteq> set (lines N b) \<union> (if b = a then set (packets x (send_counter (ends N a)) out) else {})"
      "\<And>k. map_option fst (origin N' k) = opening_of x a (\<lambda>k. map_option fst (origin N k)) k"
      "\<And>b k. recv_log N' b k = recv_log N b k @ (if b = a then deliveries k (takings D x (ends N a) out) else [])"
    using oc unfolding orderly_call_def by blast
  have l: "set (lines N' b) \<subseteq> set (w_sealed W b) \<union> (if b = a then set (packets x (send_counter (ends N a)) out) else {})" for b
    using W(2) [of b] st(3) [of b] by blast
  show ?thesis
    unfolding follows_def perform_def W(1) st(1,2) prod.case world.simps
  proof (intro conjI allI)
    show "set (lines N' b) \<subseteq> set (((w_sealed W)(a := w_sealed W a @ packets x (send_counter (ends N a)) out)) b)" for b
      using l [of b] by (cases "b = a") simp_all
    show "deliveries k (((w_taken W)(a := w_taken W a @ takings D x (ends N a) out)) b) = recv_log N' b k" for b k
      using st(5) [of b k] W(4) [of k b] by (cases "b = a") simp_all
  qed (simp_all add: W(3) st(4) fun_eq_iff)
qed

context sealing
begin

lemma orderly_run_possible:
  assumes "net_reachable D rv E N" and fp: "fresh_peers D rv E" and pa: "parties K E"
    and K: "\<And>b s n. rv b s n \<noteq> None \<Longrightarrow> (s, n) \<in> K b"
    and keys: "\<And>b. only_key (rv b) (peer_did (E b)) (own_pub D (E (\<not> b)))"
  shows "\<exists>W. adv_reachable D K E W \<and> follows N W"
  using assms(1)
proof (induction rule: net_reachable.induct)
  case net_start
  show ?case
    by (intro exI [of _ "world_init E"] conjI adv_start) (simp add: follows_def world_init_def net_init_def)
next
  case (net_next N N')
  from net_next.IH obtain W where W: "adv_reachable D K E W" "follows N W" by blast
  have inv: "net_inv D E N" by (rule net_inv_reachable [OF net_next.hyps(1) fp])
  show ?case
  proof (rule net_step_call [OF net_next.hyps(2)])
    fix a op en now ex
    assume c: "orderly_call D N N' a (op, en, now, ex)" "send_counter (ends N a) \<noteq> -1"
      "\<And>k w. op = DoOpen k w \<Longrightarrow> origin N k = None"
      "\<And>e r. op = DoAccept e r \<Longrightarrow> r = rv a \<and> (\<exists>p \<in> set (lines N (\<not> a)). e = pk_env p)"
    have gen: "unforged D (w_sealed W (\<not> a)) (own_pub D (w_ends W (\<not> a))) (identity_sk (w_ends W a)) e"
      "only_key r (peer_did (w_ends W a)) (own_pub D (w_ends W (\<not> a)))" if op: "op = DoAccept e r" for e r
    proof -
      obtain p where p: "p \<in> set (lines N (\<not> a))" "e = pk_env p" "r = rv a" using c(4) [OF op] by blast
      have "sealed_packet D (E (\<not> a)) p" using inv p(1) by (auto simp: net_inv_def hosts_ok_def line_ok_def)
      moreover have "listens D (rv a) (E (\<not> a)) (ends N a)"
        using fp inv listens_config [of D "rv a" "E (\<not> a)" "E a" "E (\<not> a)" "ends N a"]
        by (auto simp: fresh_peers_def net_inv_def hosts_ok_def dest: spec [of _ "\<not> a"])
      moreover have ends: "w_ends W = ends N" "set (lines N (\<not> a)) \<subseteq> set (w_sealed W (\<not> a))"
        using W(2) by (simp_all add: follows_def)
      moreover have conf: "same_config (E b) (ends N b)" for b using inv by (simp add: net_inv_def hosts_ok_def)
      ultimately show "unforged D (w_sealed W (\<not> a)) (own_pub D (w_ends W (\<not> a))) (identity_sk (w_ends W a)) e"
        using p unforged_sealed [of "E (\<not> a)" p "rv a" "ends N a" "w_sealed W (\<not> a)"] conf [of "\<not> a"]
        by (auto simp: own_pub_def same_config_def)
      show "only_key r (peer_did (w_ends W a)) (own_pub D (w_ends W (\<not> a)))"
        using keys [of a] conf [of a] conf [of "\<not> a"] p(3) ends(1) by (simp add: own_pub_def same_config_def)
    qed
    have "permitted D K W a (op, en, now, ex)"
      using W(2) c gen K by (auto simp: follows_def split: endpoint_op.split)
    then show ?thesis using adv_next [OF W(1)] follows_call [OF W(2) c(1)] by blast
  qed
qed

end

section \<open>A sample run\<close>

definition sample_known :: "host \<Rightarrow> sender_key set" where
  "sample_known a = {(if a then array_of_byte 2 else array_of_byte 1, 0)}"

lemma sample_parties: "parties sample_known sample_ends"
  by (simp add: parties_def sample_known_def sample_ends_def alice_def bob_def endpoint_new_def const_defs)

lemma sample_adversary:
  obtains W where "adv_reachable sum_deps sample_known sample_ends W" "deliveries sample_cid (w_taken W False) = [hello]"
proof -
  obtain N where N: "net_reachable sum_deps sample_rv sample_ends N" "view True sample_cid N = sample_exchange"
    using sample_net_exchange by (auto simp: sample_net_def)
  have "\<And>b s n. sample_rv b s n \<noteq> None \<Longrightarrow> (s, n) \<in> sample_known b"
    by (auto simp: sample_rv_def sample_known_def sample_resolver_def split: if_splits)
  moreover have "\<And>b. only_key (sample_rv b) (peer_did (sample_ends b)) (own_pub sum_deps (sample_ends (\<not> b)))"
    by (auto simp: only_key_def own_pub_def sample_rv_def sample_ends_def sample_resolver_def alice_def bob_def
        endpoint_new_def sum_deps_def sum_crypto_def split: if_splits)
  ultimately obtain W where W: "adv_reachable sum_deps sample_known sample_ends W" "follows N W"
    using sum.orderly_run_possible [OF N(1) sample_fresh_peers sample_parties] by blast
  have "recv_log N False sample_cid = delivered (view True sample_cid N) Rsp" by (simp add: view_def)
  then have "deliveries sample_cid (w_taken W False) = [hello]"
    using W(2) unfolding N(2) by (simp add: follows_def sample_exchange_def)
  with W(1) show thesis by (rule that)
qed

section \<open>Properties\<close>

text \<open>
  C4: injective agreement. Whatever the network does with the envelopes and whatever the hosts
  call, everything a host takes as coming from its peer stems from a packet that the peer sealed,
  a different one each time: it has that packet's stream, frame kind and number, counter, times,
  type, recipient, epoch and payload. So nothing is forged, altered, spliced into another stream
  or taken twice.
\<close>
theorem adversary_agreement:
  assumes "sealing D" and "parties K E" and "adv_reachable D K E W"
  shows "\<exists>ps. list_all2 agrees ps (w_taken W b) \<and> set ps \<subseteq> set (w_sealed W (\<not> b)) \<and> distinct (map pk_counter ps)"
proof -
  have inv: "auth_inv K E W b" by (rule sealing.auth_reachable [OF assms(1,3,2)])
  from list_choice [OF auth_invD(4) [OF this]] obtain ps where ps: "list_all2 agrees ps (w_taken W b)" "set ps \<subseteq> set (w_sealed W (\<not> b))"
    by blast
  then show ?thesis using auth_invD(5) [OF inv] agreed_counters [OF ps(1)] by (intro exI [of _ ps]) simp
qed

theorem adversary_agreement_witness:
  "\<exists>W ps. adv_reachable sum_deps sample_known sample_ends W \<and> w_taken W False \<noteq> [] \<and>
     list_all2 agrees ps (w_taken W False) \<and> set ps \<subseteq> set (w_sealed W True) \<and> distinct (map pk_counter ps)"
proof (rule sample_adversary)
  fix W
  assume W: "adv_reachable sum_deps sample_known sample_ends W" "deliveries sample_cid (w_taken W False) = [hello]"
  then have "w_taken W False \<noteq> []" by auto
  then show ?thesis
    using adversary_agreement [OF sum.sealing_axioms sample_parties W(1), of False] W(1) by auto
qed

text \<open>
  C3: the network cannot disturb the order of a stream. Under the same network, which drops,
  delays, reorders, repeats and injects at will, the chunks that a host is handed on a stream are
  a prefix of the chunks that the other host sealed on it: none is missing in between, none comes
  out of order, twice, altered or from another stream, whatever calls fail on the way.
\<close>
theorem adversary_prefix:
  assumes "sealing D" and "parties K E" and "adv_reachable D K E W"
  shows "prefix (deliveries k (w_taken W b)) (map snd (chunks_of k (w_sealed W (\<not> b))))"
proof (rule chained_prefix)
  have inv: "stream_inv W k c" for c by (rule sealing.stream_reachable [OF assms(1,3,2)])
  show "sorted_wrt (<) (map fst (chunks_of k (w_sealed W (\<not> b))))"
    using inv [of "\<not> b"] by (simp add: stream_inv_def numbered_def)
  show "chained (chunks_of k (w_sealed W (\<not> b))) (deliveries k (w_taken W b))"
    using inv [of b] by (simp add: stream_inv_def)
qed

theorem adversary_prefix_witness:
  "\<exists>W. adv_reachable sum_deps sample_known sample_ends W \<and> deliveries sample_cid (w_taken W False) = [hello] \<and>
     prefix [hello] (map snd (chunks_of sample_cid (w_sealed W True)))"
proof (rule sample_adversary)
  fix W
  assume W: "adv_reachable sum_deps sample_known sample_ends W" "deliveries sample_cid (w_taken W False) = [hello]"
  then show ?thesis
    using adversary_prefix [OF sum.sealing_axioms sample_parties W(1), of sample_cid False] by auto
qed

end
