(* ===== verification/Unit_Tests.thy ===== *)
theory Unit_Tests
  imports Stream_Session Replay_Guard Msg_Registry Chia_Format Msg_Compression
begin

text \<open>
  The crate's own unit tests of its pure components, carried over to the model: the state machine
  of \<open>src/stream.rs\<close>, the guard of \<open>src/replay.rs\<close>, the registry of \<open>src/registry.rs\<close> and the codec of
  \<open>src/envelope.rs\<close>. Each test is
  the conjunction of its assertions over the states its calls pass through; that all of them hold
  is evidence that the model does what the authors expect of the code.
\<close>

fun is_err :: "('a, 'e) result \<Rightarrow> bool" where
  "is_err (Err e) \<longleftrightarrow> True"
| "is_err _ \<longleftrightarrow> False"

fun is_ok :: "('a, 'e) result \<Rightarrow> bool" where
  "is_ok (Ok x) \<longleftrightarrow> True"
| "is_ok _ \<longleftrightarrow> False"

section \<open>The stream session\<close>

text \<open>A frame received with its own header.\<close>

definition recv :: "stream_frame \<Rightarrow> u64 \<Rightarrow> u32 \<Rightarrow> stream_session \<Rightarrow> accepted_frame res \<times> stream_session" where
  "recv f n w = on_recv f (header f n w)"

definition initiator_handshake_then_data :: bool where
  "initiator_handshake_then_data \<longleftrightarrow>
     (let s0 = initiator 4;
          (refused, s1) = build_data s0;
          (ack, s2) = recv OpenAck 0 2 s1;
          (d1, s3) = build_data s2;
          (d2, s4) = build_data s3;
          (d3, s5) = build_data s4
      in session_state s0 = StOpening \<and> is_err refused \<and> ack = Ok AccEstablished \<and> session_state s2 = StOpen \<and>
         send_credit s2 = 2 \<and> is_ok d1 \<and> is_ok d2 \<and> is_err d3)"

definition outbound_data_seq_increments :: bool where
  "outbound_data_seq_increments \<longleftrightarrow>
     (let (ack, s1) = recv OpenAck 0 3 (initiator 0);
          (d1, s2) = build_data s1;
          (d2, s3) = build_data s2;
          (d3, s4) = build_data s3
      in is_ok ack \<and> and_then d1 (Ok \<circ> hdr_seq) = Ok 0 \<and> and_then d2 (Ok \<circ> hdr_seq) = Ok 1 \<and>
         and_then d3 (Ok \<circ> hdr_seq) = Ok 2)"

definition responder_rejects_out_of_order_recv_seq :: bool where
  "responder_rejects_out_of_order_recv_seq \<longleftrightarrow>
     (let (ack, s1) = build_open_ack 4 (responder 0);
          (r1, s2) = recv Data 0 0 s1;
          (gap, s3) = recv Data 2 0 s2;
          (replay, s4) = recv Data 0 0 s3
      in is_ok ack \<and> r1 = Ok AccData \<and> is_err gap \<and> is_err replay)"

definition recv_credit_window_bounds_inbound_data :: bool where
  "recv_credit_window_bounds_inbound_data \<longleftrightarrow>
     (let (ack, s1) = build_open_ack 1 (responder 0);
          (r1, s2) = recv Data 0 0 s1;
          (r2, s3) = recv Data 1 0 s2
      in is_ok ack \<and> r1 = Ok AccData \<and> is_err r2)"

definition credit_frame_relieves_send_backpressure :: bool where
  "credit_frame_relieves_send_backpressure \<longleftrightarrow>
     (let (ack, s1) = recv OpenAck 0 1 (initiator 0);
          (d1, s2) = build_data s1;
          (d2, s3) = build_data s2;
          (c, s4) = recv Credit 0 2 s3;
          (d3, s5) = build_data s4;
          (d4, s6) = build_data s5;
          (d5, s7) = build_data s6
      in is_ok ack \<and> is_ok d1 \<and> is_err d2 \<and> c = Ok (AccCredit 2) \<and> is_ok d3 \<and> is_ok d4 \<and> is_err d5)"

definition bidirectional_half_close :: bool where
  "bidirectional_half_close \<longleftrightarrow>
     (let (ack, s1) = recv OpenAck 0 4 (initiator 4);
          (c, s2) = build_close s1;
          (d, s3) = build_data s2;
          (r, s4) = recv Data 0 0 s3;
          (rc, s5) = recv Close 0 0 s4
      in is_ok ack \<and> is_ok c \<and> session_state s2 = StHalfClosedLocal \<and> is_err d \<and> r = Ok AccData \<and>
         rc = Ok AccRemoteClosed \<and> session_state s5 = StClosed \<and> is_closed s5)"

definition reset_aborts_from_any_state :: bool where
  "reset_aborts_from_any_state \<longleftrightarrow>
     (let (r, s1) = recv Reset 0 0 (initiator 4);
          (d, s2) = recv Data 0 0 s1
      in r = Ok AccReset \<and> session_state s1 = StClosed \<and> is_err d)"

definition half_closed_remote_state_then_local_close :: bool where
  "half_closed_remote_state_then_local_close \<longleftrightarrow>
     (let (ack, s1) = recv OpenAck 0 4 (initiator 4);
          (rc, s2) = recv Close 0 0 s1;
          (d, s3) = build_data s2;
          (c, s4) = build_close s3
      in is_ok ack \<and> is_ok rc \<and> session_state s2 = StHalfClosedRemote \<and> is_ok d \<and> is_ok c \<and>
         session_state s4 = StClosed)"

lemmas session_tests =
  initiator_handshake_then_data_def outbound_data_seq_increments_def
  responder_rejects_out_of_order_recv_seq_def recv_credit_window_bounds_inbound_data_def
  credit_frame_relieves_send_backpressure_def bidirectional_half_close_def
  reset_aborts_from_any_state_def half_closed_remote_state_then_local_close_def

lemma session_tests_pass:
  "initiator_handshake_then_data" "outbound_data_seq_increments" "responder_rejects_out_of_order_recv_seq"
  "recv_credit_window_bounds_inbound_data" "credit_frame_relieves_send_backpressure"
  "bidirectional_half_close" "reset_aborts_from_any_state" "half_closed_remote_state_then_local_close"
  unfolding session_tests
  by (simp_all add: recv_def session_ops session_fresh session_state_def is_closed_def send_credit_def
      u64_from_def saturating_add_def Let_def)

section \<open>The replay guard\<close>

definition sender :: "u8 \<Rightarrow> bytes32" where
  "sender n = array_of_byte n"

definition NOW :: u64 where [const_defs]: "NOW = 1700000000000"

text \<open>
  A test is a sequence of admissions at a new guard, each with its expected verdict; \<open>iter\<close> is the
  iteration order of the table, on which no test depends.
\<close>

definition admissions :: "iteration \<Rightarrow> (request \<times> bool) list \<Rightarrow> bool" where
  "admissions iter tests =
     (case guard_run iter guard_new (map fst tests) of
        Ok (verdicts, _) \<Rightarrow> verdicts = map snd tests
      | _ \<Rightarrow> False)"

definition first_message_is_accepted :: "iteration \<Rightarrow> bool" where
  "first_message_is_accepted iter = admissions iter [((sender 1, 0, 0, NOW, NOW), True)]"

definition duplicate_counter_is_rejected :: "iteration \<Rightarrow> bool" where
  "duplicate_counter_is_rejected iter =
     admissions iter [((sender 1, 0, 5, NOW, NOW), True), ((sender 1, 0, 5, NOW, NOW), False)]"

definition monotonic_advance_accepts :: "iteration \<Rightarrow> bool" where
  "monotonic_advance_accepts iter =
     admissions iter (map (\<lambda>c. ((sender 1, 0, word_of_nat c, NOW, NOW), True)) [0..<100])"

definition in_window_reorder_accepts_then_rejects_replay :: "iteration \<Rightarrow> bool" where
  "in_window_reorder_accepts_then_rejects_replay iter =
     admissions iter
       [((sender 1, 0, 10, NOW, NOW), True),
        ((sender 1, 0, 7, NOW, NOW), True),
        ((sender 1, 0, 3, NOW, NOW), True),
        ((sender 1, 0, 7, NOW, NOW), False),
        ((sender 1, 0, 10, NOW, NOW), False)]"

definition counter_below_the_window_is_rejected :: "iteration \<Rightarrow> bool" where
  "counter_below_the_window_is_rejected iter =
     admissions iter
       [((sender 1, 0, word_of_nat REPLAY_WINDOW + 100, NOW, NOW), True),
        ((sender 1, 0, 1, NOW, NOW), False)]"

definition far_future_jump_clears_and_accepts :: "iteration \<Rightarrow> bool" where
  "far_future_jump_clears_and_accepts iter =
     (let far = 5 + word_of_nat REPLAY_WINDOW * 3
      in admissions iter
           [((sender 1, 0, 5, NOW, NOW), True),
            ((sender 1, 0, far, NOW, NOW), True),
            ((sender 1, 0, 5, NOW, NOW), False)])"

definition stale_timestamp_rejected :: "iteration \<Rightarrow> bool" where
  "stale_timestamp_rejected iter =
     admissions iter [((sender 1, 0, 0, NOW - FRESHNESS_WINDOW_MS - 1, NOW), False)]"

definition future_timestamp_beyond_window_rejected :: "iteration \<Rightarrow> bool" where
  "future_timestamp_beyond_window_rejected iter =
     admissions iter [((sender 1, 0, 0, NOW + FRESHNESS_WINDOW_MS + 1, NOW), False)]"

definition timestamp_at_window_edges_accepted :: "iteration \<Rightarrow> bool" where
  "timestamp_at_window_edges_accepted iter =
     admissions iter
       [((sender 1, 0, 0, NOW - FRESHNESS_WINDOW_MS, NOW), True),
        ((sender 2, 0, 0, NOW + FRESHNESS_WINDOW_MS, NOW), True)]"

definition distinct_senders_have_independent_counters :: "iteration \<Rightarrow> bool" where
  "distinct_senders_have_independent_counters iter =
     admissions iter [((sender 1, 0, 0, NOW, NOW), True), ((sender 2, 0, 0, NOW, NOW), True)]"

definition distinct_epochs_are_independent :: "iteration \<Rightarrow> bool" where
  "distinct_epochs_are_independent iter =
     admissions iter [((sender 1, 0, 0, NOW, NOW), True), ((sender 1, 1, 0, NOW, NOW), True)]"

definition self_pair_is_a_valid_independent_stream :: "iteration \<Rightarrow> bool" where
  "self_pair_is_a_valid_independent_stream iter =
     (let me = sender 7
      in admissions iter
           [((me, 0, 0, NOW, NOW), True), ((me, 0, 1, NOW, NOW), True), ((me, 0, 0, NOW, NOW), False)])"

definition per_sender_state_is_bounded_under_a_counter_flood :: "iteration \<Rightarrow> bool" where
  "per_sender_state_is_bounded_under_a_counter_flood iter =
     (case guard_run iter guard_new (map (\<lambda>c. (sender 1, 0, word_of_nat c, NOW, NOW)) [0..<10000]) of
        Ok (_, g) \<Rightarrow> tracked_senders g = 1
      | _ \<Rightarrow> False)"

text \<open>
  The tests are decided by the specification of the guard: its verdicts are those of the full
  histories, which are evaluated.
\<close>

lemma admissions_history:
  assumes "length tests \<le> MAX_TRACKED_SENDERS"
  shows "admissions iter tests \<longleftrightarrow> history_verdicts (\<lambda>_. {}) (map fst tests) = map snd tests"
proof -
  let ?K = "request_key ` set (map fst tests)"
  have "card ?K \<le> MAX_TRACKED_SENDERS"
    using assms card_image_le [of "set (map fst tests)" request_key] card_length [of "map fst tests"] by simp
  moreover have "dom (hm_get guard_new) \<subseteq> ?K" by (simp add: guard_new_def dom_def)
  ultimately obtain g where
    "guard_run iter guard_new (map fst tests) = Ok (history_verdicts (\<lambda>_. {}) (map fst tests), g)"
    using guard_run_refines [OF guard_models_new, of ?K "map fst tests" iter] by auto
  then show ?thesis by (simp add: admissions_def)
qed

lemma accepts_beyond: "finite H \<Longrightarrow> (\<And>h. h \<in> H \<Longrightarrow> h < c) \<Longrightarrow> accepts H c"
  using Max_in [of H] by (fastforce simp: accepts_def intro: trans_less_add1)

lemma history_verdicts_advancing:
  assumes "fresh ts now" "finite (F k)" "\<And>h. h \<in> F k \<Longrightarrow> h < m" "n \<le> 2 ^ 64"
  shows "history_verdicts F (map (\<lambda>c. (fst k, snd k, word_of_nat c, ts, now)) [m..<n]) = replicate (n - m) True"
  using assms(2-)
proof (induction "n - m" arbitrary: F m)
  case (Suc d)
  then have u: "unat (word_of_nat m :: u64) = m" by (simp add: unsigned_of_nat take_bit_nat_eq_self)
  have acc: "accepts (F k) m" using Suc.prems by (intro accepts_beyond)
  have "history_verdicts (F(k := remember (F k) m))
      (map (\<lambda>c. (fst k, snd k, word_of_nat c, ts, now)) [Suc m..<n]) = replicate (n - Suc m) True"
    using Suc.prems acc Suc.hyps(2) by (intro Suc.hyps(1)) (auto simp: remember_def intro: less_SucI)
  then show ?case
    using Suc.hyps(2) assms(1) acc u
    by (cases "n - m") (auto simp: upt_rec [of m n] Suc_diff_Suc simp flip: replicate_Suc)
qed simp

lemma remember_nonempty [simp]: "remember H c \<noteq> {}"
  by (auto simp: remember_def accepts_def)

lemma guard_run_one_sender:
  assumes "guard_models g F" "dom (hm_get g) \<subseteq> {k}" "rs \<noteq> []"
    "\<And>r. r \<in> set rs \<Longrightarrow> \<exists>c. r = (fst k, snd k, c, ts, now)" "fresh ts now"
  shows "\<exists>bs g'. guard_run iter g rs = Ok (bs, g') \<and> tracked_senders g' = 1"
  using assms(1-4)
proof (induction rs arbitrary: g F)
  case (Cons r rs)
  obtain c where r: "r = (fst k, snd k, c, ts, now)" using Cons.prems(4) [of r] by auto
  have room: "hm_contains_key g (fst k, snd k) \<or> hm_len g < MAX_TRACKED_SENDERS"
    using Cons.prems(2) by (intro guard_room [OF Cons.prems(1), of "{k}"]) (auto simp: const_defs)
  let ?F = "F(k := remember (F k) (unat c))"
  obtain b g1 where g1: "check_and_admit iter g (fst k) (snd k) c ts now = Ok (b, g1)" "guard_models g1 ?F"
    using check_and_admit_room [OF Cons.prems(1) room, of iter c ts now] assms(5) by auto
  have "dom (hm_get g1) \<subseteq> {k}" using check_and_admit_dom [OF Cons.prems(1) room g1(1)] Cons.prems(2) by auto
  moreover have "k \<in> dom (hm_get g1)"
    using guard_modelsD(3) [OF g1(2), of k] by (cases "hm_get g1 k") auto
  ultimately have d: "dom (hm_get g1) = {k}" by auto
  show ?case
  proof (cases rs)
    case Nil
    then show ?thesis
      using g1 d r by (simp add: tracked_senders_def hm.len_card guard_modelsD(1))
  next
    case (Cons r' rs')
    then have "\<exists>bs g'. guard_run iter g1 rs = Ok (bs, g') \<and> tracked_senders g' = 1"
      using Cons.IH [OF g1(2)] d Cons.prems(4) by auto
    then show ?thesis using g1 r by auto
  qed
qed simp

lemmas decided =
  admissions_history sender_def const_defs fresh_def Let_def saturating_sub_def saturating_add_def
  accepts_def remember_def

lemma replay_tests_pass:
  "first_message_is_accepted iter" "duplicate_counter_is_rejected iter"
  "in_window_reorder_accepts_then_rejects_replay iter" "counter_below_the_window_is_rejected iter"
  "far_future_jump_clears_and_accepts iter" "stale_timestamp_rejected iter"
  "future_timestamp_beyond_window_rejected iter" "timestamp_at_window_edges_accepted iter"
  "distinct_senders_have_independent_counters iter" "distinct_epochs_are_independent iter"
  "self_pair_is_a_valid_independent_stream iter"
  by (simp_all add: first_message_is_accepted_def duplicate_counter_is_rejected_def
      in_window_reorder_accepts_then_rejects_replay_def counter_below_the_window_is_rejected_def
      far_future_jump_clears_and_accepts_def stale_timestamp_rejected_def
      future_timestamp_beyond_window_rejected_def timestamp_at_window_edges_accepted_def
      distinct_senders_have_independent_counters_def distinct_epochs_are_independent_def
      self_pair_is_a_valid_independent_stream_def decided)

lemma fresh_now: "fresh NOW NOW"
  by (simp add: fresh_def Let_def saturating_sub_def saturating_add_def const_defs)

lemma replay_floods_pass:
  "monotonic_advance_accepts iter" "per_sender_state_is_bounded_under_a_counter_flood iter"
proof -
  have "history_verdicts (\<lambda>_. {}) (map (\<lambda>c. (sender 1, 0, word_of_nat c, NOW, NOW)) [0..<100]) = replicate 100 True"
    using history_verdicts_advancing [OF fresh_now, of "\<lambda>_. {}" "(sender 1, 0)" 0 100] by simp
  then show "monotonic_advance_accepts iter"
    by (simp add: monotonic_advance_accepts_def admissions_history const_defs comp_def map_replicate_const
        del: upt_rec_numeral)
  obtain bs g where
    "guard_run iter guard_new (map (\<lambda>c. (sender 1, 0, word_of_nat c, NOW, NOW)) [0..<10000]) = Ok (bs, g)"
    "tracked_senders g = 1"
    using guard_run_one_sender [OF guard_models_new, of "(sender 1, 0)"
        "map (\<lambda>c. (sender 1, 0, word_of_nat c, NOW, NOW)) [0..<10000]" NOW NOW iter] fresh_now
    by (auto simp: guard_new_def dom_def simp del: upt_rec_numeral)
  then show "per_sender_state_is_bounded_under_a_counter_flood iter"
    by (simp add: per_sender_state_is_bounded_under_a_counter_flood_def del: upt_rec_numeral)
qed

section \<open>The registry\<close>

text \<open>The payloads of the tests, with the codecs the derive macro generates for them.\<close>

record chat_text = body :: bytes

definition chat_text_codec :: "chat_text codec" where
  "chat_text_codec = struct_codec (\<lambda>b. \<lparr>body = b\<rparr>) body (chia_vec chia_format)"

definition ChatTextKind :: "chat_text message_kind" where
  "ChatTextKind = \<lparr>TYPE_ID = BAND_DIG_CHAT, payload_codec = chat_text_codec\<rparr>"

record ping = nonce :: u64

definition ping_codec :: "ping codec" where
  "ping_codec = struct_codec (\<lambda>n. \<lparr>nonce = n\<rparr>) nonce (chia_u64 chia_format)"

definition PingKind :: "ping message_kind" where
  "PingKind = \<lparr>TYPE_ID = BAND_PEER_RPC, payload_codec = ping_codec\<rparr>"

abbreviation "leftover \<equiv> chia_leftover chia_format"

text \<open>The handlers \<open>|_| Ok(())\<close> and the one that stores the length it saw.\<close>

definition ok_handler :: "'p \<Rightarrow> u32 \<Rightarrow> unit res \<times> u32" where
  "ok_handler p seen = (Ok (), seen)"

definition register_then_dispatch_decodes_and_routes_to_the_handler :: bool where
  "register_then_dispatch_decodes_and_routes_to_the_handler \<longleftrightarrow>
     (let (r, registry) = register leftover ChatTextKind
            (\<lambda>msg seen. (Ok (), word_of_nat (length (body msg)))) registry_new
      in r = Ok () \<and>
         (case to_bytes chat_text_codec \<lparr>body = [1, 2, 3, 4, 5]\<rparr> of
            Inl e \<Rightarrow> False
          | Inr payload \<Rightarrow> dispatch (TYPE_ID ChatTextKind) Request payload registry 0 = (Ok Handled, 5 :: u32)))"

definition unknown_type_request_returns_unsupported_type :: bool where
  "unknown_type_request_returns_unsupported_type \<longleftrightarrow>
     (let unknown = BAND_DIG_EMAIL + 0x42
      in fst (dispatch unknown Request [] registry_new ()) = Err (UnsupportedType unknown))"

definition unknown_type_stream_frame_returns_unsupported_type :: bool where
  "unknown_type_stream_frame_returns_unsupported_type \<longleftrightarrow>
     (let unknown = BAND_DIG_VIDEO + 7
      in fst (dispatch unknown StreamFrame [] registry_new ()) = Err (UnsupportedType unknown))"

definition unknown_type_one_shot_is_silently_dropped_not_an_error :: bool where
  "unknown_type_one_shot_is_silently_dropped_not_an_error \<longleftrightarrow>
     (let unknown = BAND_EXPERIMENTAL
      in fst (dispatch unknown OneShot [] registry_new ()) = Ok DroppedUnknown)"

definition unknown_type_response_is_silently_dropped :: bool where
  "unknown_type_response_is_silently_dropped \<longleftrightarrow>
     (let unknown = BAND_PRESENCE + 1
      in fst (dispatch unknown Response [] registry_new ()) = Ok DroppedUnknown)"

definition registering_a_new_type_never_disturbs_existing_registrations :: bool where
  "registering_a_new_type_never_disturbs_existing_registrations \<longleftrightarrow>
     (let (r1, registry1) = register leftover ChatTextKind ok_handler registry_new;
          (r2, registry2) = register leftover PingKind ok_handler registry1
      in r1 = Ok () \<and> contains (TYPE_ID ChatTextKind) registry1 \<and> r2 = Ok () \<and>
         registry_len registry2 = 2 \<and> contains (TYPE_ID ChatTextKind) registry2 \<and>
         contains (TYPE_ID PingKind) registry2)"

definition re_registering_the_same_id_is_refused_additive_only :: bool where
  "re_registering_the_same_id_is_refused_additive_only \<longleftrightarrow>
     (let (r1, registry1) = register leftover ChatTextKind ok_handler registry_new;
          (r2, registry2) = register leftover ChatTextKind ok_handler registry1
      in r1 = Ok () \<and> r2 = Err (DuplicateType (TYPE_ID ChatTextKind)) \<and> registry_len registry2 = 1)"

definition a_handler_decode_failure_propagates_and_never_panics :: bool where
  "a_handler_decode_failure_propagates_and_never_panics \<longleftrightarrow>
     (let (r, registry) = register leftover PingKind ok_handler registry_new
      in r = Ok () \<and>
         (case fst (dispatch (TYPE_ID PingKind) Request [1, 2, 3] registry 0) of
            Err (Codec e) \<Rightarrow> True
          | _ \<Rightarrow> False))"

definition a_handler_reported_error_propagates :: bool where
  "a_handler_reported_error_propagates \<longleftrightarrow>
     (let (r, registry) = register leftover PingKind (\<lambda>p seen. (Err (UnsupportedType 0), seen)) registry_new
      in r = Ok () \<and>
         (case to_bytes ping_codec \<lparr>nonce = 9\<rparr> of
            Inl e \<Rightarrow> False
          | Inr payload \<Rightarrow> is_err (fst (dispatch (TYPE_ID PingKind) OneShot payload registry ()))))"

definition every_reserved_band_classifies_at_its_boundaries :: bool where
  "every_reserved_band_classifies_at_its_boundaries \<longleftrightarrow>
     list_all (\<lambda>(id, expected). band id = expected)
       [(BAND_CORE, Core),
        (BAND_CORE + 0xFF, Core),
        (BAND_PEER_RPC, PeerRpc),
        (BAND_PEER_RPC + 0xFF, PeerRpc),
        (BAND_DIG_CHAT, DigChat),
        (BAND_DIG_CHAT + 0xFF, DigChat),
        (BAND_DIG_EMAIL, DigEmail),
        (BAND_DIG_VIDEO, DigVideo),
        (BAND_PRESENCE, Presence),
        (BAND_IPC, Ipc),
        (BAND_IPC + 0xFF, Ipc),
        (BAND_SOCIAL_GRAPH, SocialGraph),
        (BAND_SOCIAL_GRAPH + 0xFF, SocialGraph),
        (BAND_RELAY_CONTROL, RelayControl),
        (BAND_RELAY_CONTROL + 0xFF, RelayControl),
        (BAND_RELAY_MESH, RelayMesh),
        (BAND_RELAY_MESH + 0xFF, RelayMesh),
        (BAND_EXPERIMENTAL, Experimental),
        (0xFFFFFFFF, Experimental)]"

definition unallocated_ids_classify_as_reserved :: bool where
  "unallocated_ids_classify_as_reserved \<longleftrightarrow>
     list_all (\<lambda>id. band id = Reserved) [0x00000A00, 0x00001000, 0x00FFFFFF, 0x0FFFFFFF]"

definition named_core_type_constants_land_in_the_core_band :: bool where
  "named_core_type_constants_land_in_the_core_band \<longleftrightarrow>
     list_all (\<lambda>mt. band mt = Core) [CORE_HANDSHAKE, CORE_ACK, CORE_ERROR, CORE_KEEPALIVE]"

lemma band_tests_pass:
  "every_reserved_band_classifies_at_its_boundaries" "unallocated_ids_classify_as_reserved"
  "named_core_type_constants_land_in_the_core_band"
  by (simp_all add: every_reserved_band_classifies_at_its_boundaries_def
      unallocated_ids_classify_as_reserved_def named_core_type_constants_land_in_the_core_band_def
      band_unat const_defs)

lemma unknown_type_tests_pass:
  "unknown_type_request_returns_unsupported_type" "unknown_type_stream_frame_returns_unsupported_type"
  "unknown_type_one_shot_is_silently_dropped_not_an_error" "unknown_type_response_is_silently_dropped"
  by (simp_all add: unknown_type_request_returns_unsupported_type_def
      unknown_type_stream_frame_returns_unsupported_type_def
      unknown_type_one_shot_is_silently_dropped_not_an_error_def
      unknown_type_response_is_silently_dropped_def dispatch_def registry_new_def)

lemmas registered =
  register_def dispatch_def contains_def registry_len_def registry_new_def decode_and_handle_def
  ChatTextKind_def PingKind_def ok_handler_def hm_contains_key_def

lemma registration_tests_pass:
  "registering_a_new_type_never_disturbs_existing_registrations"
  "re_registering_the_same_id_is_refused_additive_only"
  by (simp_all add: registering_a_new_type_never_disturbs_existing_registrations_def
      re_registering_the_same_id_is_refused_additive_only_def registered Let_def const_defs
      hm_len_def hm_insert_def hm_get_def hm_new_def)

lemma valid_test_codecs: "valid_codec chat_text_codec" "valid_codec ping_codec"
  unfolding chat_text_codec_def ping_codec_def
  by (intro valid_struct_codec; simp add: valid_vec_codec valid_word_codec)+

lemma dispatch_tests_pass:
  "register_then_dispatch_decodes_and_routes_to_the_handler"
  "a_handler_decode_failure_propagates_and_never_panics" "a_handler_reported_error_propagates"
proof -
  obtain b where b: "to_bytes chat_text_codec \<lparr>body = [1, 2, 3, 4, 5]\<rparr> = Inr b"
    by (simp add: to_bytes_def chat_text_codec_def vec_codec_def)
  have "from_bytes l chat_text_codec b = Inr \<lparr>body = [1, 2, 3, 4, 5]\<rparr>" for l
    by (rule from_bytes_to_bytes [OF valid_test_codecs(1) b])
  then show "register_then_dispatch_decodes_and_routes_to_the_handler"
    by (simp add: register_then_dispatch_decodes_and_routes_to_the_handler_def registered b)
  show "a_handler_decode_failure_propagates_and_never_panics"
    by (simp add: a_handler_decode_failure_propagates_and_never_panics_def registered ping_codec_def
        from_bytes_def struct_codec_def word_codec_def)
  obtain c where c: "to_bytes ping_codec \<lparr>nonce = 9\<rparr> = Inr c"
    by (simp add: to_bytes_def ping_codec_def word_codec_def)
  have "from_bytes l ping_codec c = Inr \<lparr>nonce = 9\<rparr>" for l
    by (rule from_bytes_to_bytes [OF valid_test_codecs(2) c])
  then show "a_handler_reported_error_propagates"
    by (simp add: a_handler_reported_error_propagates_def registered c)
qed

section \<open>The envelope codec\<close>

definition sample :: "interaction_shape \<Rightarrow> stream_header option \<Rightarrow> dig_message_envelope" where
  "sample shape stream = \<lparr>
     env_version = ENVELOPE_VERSION,
     env_message_type = 0x00000201,
     env_flags = as_bits shape OR FLAG_SEALED,
     env_correlation_id = array_of_byte 1,
     env_sender = array_of_byte 2,
     env_recipient = array_of_byte 3,
     env_sender_epoch = 7,
     env_stream = stream,
     env_sealed = \<lparr>kem_enc = array_of_byte 4, ciphertext = [9, 8, 7, 6, 5]\<rparr>\<rparr>"

definition envelope_round_trips_for_every_shape :: bool where
  "envelope_round_trips_for_every_shape \<longleftrightarrow>
     list_all (\<lambda>(shape, stream).
         let env = sample shape stream
         in and_then (encode_envelope chia_format env) (decode_envelope chia_format) = Ok env)
       [(OneShot, None), (Request, None), (Response, None),
        (StreamFrame, Some \<lparr>hdr_frame = frame_as_u8 Data, hdr_seq = 42, hdr_window = 8\<rparr>)]"

definition encoding_is_byte_deterministic :: bool where
  "encoding_is_byte_deterministic \<longleftrightarrow>
     (let env = sample OneShot None
      in is_ok (encode_envelope chia_format env) \<and>
         encode_envelope chia_format env = encode_envelope chia_format env)"

definition inner_message_round_trips :: bool where
  "inner_message_round_trips \<longleftrightarrow>
     (let inner = \<lparr>im_message_type = 0x00000201, im_correlation_id = array_of_byte 1,
            im_compression = COMPRESSION_NONE, im_uncompressed_len = 5, im_counter = 11,
            im_timestamp_ms = 1700000000000, im_expires_at = 0, im_payload = [1, 2, 3, 4, 5],
            im_sender_sig = array_of_byte 0\<rparr>
      in case to_bytes (inner_message_codec chia_format) inner of
           Inl e \<Rightarrow> False
         | Inr bytes \<Rightarrow> from_bytes leftover (inner_message_codec chia_format) bytes = Inr inner)"

definition unknown_newer_version_is_rejected :: bool where
  "unknown_newer_version_is_rejected \<longleftrightarrow>
     (let env = (sample OneShot None)\<lparr>env_version := ENVELOPE_VERSION + 1\<rparr>
      in case to_bytes (envelope_codec chia_format) env of
           Inl e \<Rightarrow> False
         | Inr bytes \<Rightarrow> decode_envelope chia_format bytes = Err (UnsupportedVersion (ENVELOPE_VERSION + 1)))"

definition oversized_frame_is_rejected_before_decoding :: bool where
  "oversized_frame_is_rejected_before_decoding \<longleftrightarrow>
     decode_envelope chia_format (replicate (MAX_ENVELOPE_BYTES + 1) 0) =
       Err (EnvelopeTooLarge (MAX_ENVELOPE_BYTES + 1) MAX_ENVELOPE_BYTES)"

definition oversized_envelope_encode_is_rejected :: bool where
  "oversized_envelope_encode_is_rejected \<longleftrightarrow>
     (let env = sample OneShot None;
          big = env\<lparr>env_sealed := (env_sealed env)\<lparr>ciphertext := replicate (MAX_ENVELOPE_BYTES + 1) 0\<rparr>\<rparr>
      in case encode_envelope chia_format big of
           Err (EnvelopeTooLarge n cap) \<Rightarrow> True
         | _ \<Rightarrow> False)"

definition truncated_frame_is_rejected :: bool where
  "truncated_frame_is_rejected \<longleftrightarrow>
     (case encode_envelope chia_format (sample OneShot None) of
        Ok bytes \<Rightarrow>
          (case decode_envelope chia_format (take (length bytes div 2) bytes) of
             Err (Truncated e) \<Rightarrow> True
           | _ \<Rightarrow> False)
      | _ \<Rightarrow> False)"

definition header_bytes_excludes_the_sealed_region :: bool where
  "header_bytes_excludes_the_sealed_region \<longleftrightarrow>
     (let env = sample OneShot None
      in case (header_bytes chia_format env, to_bytes (envelope_codec chia_format) env) of
           (Ok hdr, Inr full) \<Rightarrow> take (length hdr) full = hdr \<and> length hdr < length full
         | _ \<Rightarrow> False)"

definition flags_shape_helpers_round_trip :: bool where
  "flags_shape_helpers_round_trip \<longleftrightarrow>
     list_all (\<lambda>shape.
         let flags = as_bits shape OR FLAG_SEALED
         in from_flags flags = Some shape \<and> flags AND FLAG_SEALED = FLAG_SEALED)
       [OneShot, Request, Response, StreamFrame]"

definition message_type_round_trips :: bool where
  "message_type_round_trips \<longleftrightarrow>
     (let mt = 0x10000000 :: message_type
      in case to_bytes (chia_u32 chia_format) mt of
           Inl e \<Rightarrow> False
         | Inr bytes \<Rightarrow> from_bytes leftover (chia_u32 chia_format) bytes = Inr mt)"

lemma sample_size [simp]:
  "envelope_size (sample shape stream) = 163 + (case stream of None \<Rightarrow> 1 | Some _ \<Rightarrow> 14)"
  by (simp add: sample_def envelope_size_def header_size_def split: option.split)

lemma sample_fields [simp]:
  "env_version (sample shape stream) = ENVELOPE_VERSION" "length (ciphertext (env_sealed (sample shape stream))) = 5"
  by (simp_all add: sample_def)

lemma encode_sample: "\<exists>b. encode_envelope chia_format (sample shape stream) = Ok b \<and> 100 < length b"
  using chia.encode_envelope_size [of "sample shape stream"]
  by (cases stream) (force simp: const_defs)+

lemma codec_tests_pass:
  "envelope_round_trips_for_every_shape" "encoding_is_byte_deterministic" "truncated_frame_is_rejected"
proof -
  have "and_then (encode_envelope chia_format (sample shape stream)) (decode_envelope chia_format)
      = Ok (sample shape stream)" for shape stream
    using encode_sample [of shape stream] chia.decode_encode [of "sample shape stream"] by auto
  then show "envelope_round_trips_for_every_shape"
    by (simp add: envelope_round_trips_for_every_shape_def)
  obtain b where b: "encode_envelope chia_format (sample OneShot None) = Ok b" "100 < length b"
    using encode_sample by blast
  then show "encoding_is_byte_deterministic" by (simp add: encoding_is_byte_deterministic_def)
  have "length b div 2 < length b" using b(2) by simp
  from chia.truncated_refused [OF b(1) this] show "truncated_frame_is_rejected"
    by (auto simp: truncated_frame_is_rejected_def b(1))
qed

lemma frame_tests_pass:
  "unknown_newer_version_is_rejected" "oversized_frame_is_rejected_before_decoding"
  "oversized_envelope_encode_is_rejected" "header_bytes_excludes_the_sealed_region"
proof -
  let ?new = "(sample OneShot None)\<lparr>env_version := ENVELOPE_VERSION + 1\<rparr>"
  let ?s = "sample OneShot None"
  let ?big = "?s\<lparr>env_sealed := (env_sealed ?s)\<lparr>ciphertext := replicate (MAX_ENVELOPE_BYTES + 1) 0\<rparr>\<rparr>"
  obtain b where b: "to_bytes (envelope_codec chia_format) ?new = Inr b" "length b = 164"
    using chia.len_envelope [of ?new] by (auto simp: sample_def envelope_size_def header_size_def)
  have "from_bytes l (envelope_codec chia_format) b = Inr ?new" for l
    by (rule from_bytes_to_bytes [OF chia.envelope.streamable_axioms b(1)])
  then show "unknown_newer_version_is_rejected"
    unfolding unknown_newer_version_is_rejected_def Let_def b(1)
    using b(2) by (simp add: decode_envelope_def const_defs)
  show "oversized_frame_is_rejected_before_decoding"
    by (simp add: oversized_frame_is_rejected_before_decoding_def decode_envelope_def)
  have "envelope_size ?big > MAX_ENVELOPE_BYTES" "length (ciphertext (env_sealed ?big)) < 2 ^ 32"
    by (simp_all add: envelope_size_def const_defs)
  then show "oversized_envelope_encode_is_rejected"
    using chia.encode_envelope_size [of ?big] by (simp add: oversized_envelope_encode_is_rejected_def Let_def)
  obtain h where h: "header_bytes chia_format ?s = Ok h" using chia.header_bytes_Ok by blast
  obtain c where c: "cstream (sealed_payload_codec chia_format) (env_sealed ?s) = Inr c" "length c = 57"
    using chia.len_sealed [of "env_sealed ?s"] by auto
  have "to_bytes (envelope_codec chia_format) ?s = Inr (h @ c)"
    using h c by (simp add: to_bytes_def envelope_stream_split)
  then show "header_bytes_excludes_the_sealed_region"
    using h c by (auto simp: header_bytes_excludes_the_sealed_region_def)
qed

lemma struct_tests_pass:
  "inner_message_round_trips" "message_type_round_trips" "flags_shape_helpers_round_trip"
proof -
  let ?m = "\<lparr>im_message_type = 0x00000201, im_correlation_id = array_of_byte 1,
            im_compression = COMPRESSION_NONE, im_uncompressed_len = 5, im_counter = 11,
            im_timestamp_ms = 1700000000000, im_expires_at = 0, im_payload = [1, 2, 3, 4, 5],
            im_sender_sig = array_of_byte 0\<rparr> :: inner_message"
  obtain b where b: "to_bytes (inner_message_codec chia_format) ?m = Inr b"
    using chia.len_inner [of ?m] by auto
  show "inner_message_round_trips"
    unfolding inner_message_round_trips_def Let_def b using chia.inner_round_trip [OF b] by simp
  obtain c where c: "to_bytes (chia_u32 chia_format) 0x10000000 = Inr c" using chia.len_u32 to_bytes_def by metis
  show "message_type_round_trips"
    unfolding message_type_round_trips_def Let_def c using from_bytes_to_bytes [OF chia.u32 c] by simp
  show "flags_shape_helpers_round_trip"
    by (simp add: flags_shape_helpers_round_trip_def const_defs from_flags_def)
qed

end
