(* ===== verification/Run_Rules.thy ===== *)
theory Run_Rules
  imports Stream_Endpoint
begin

text \<open>
  Rules for running concrete sequences of calls. A run is written with \<open>unwrap\<close>, as the crate's
  tests are: each call succeeds, and what follows goes on with its value and the state it leaves.
  There is one introduction rule per call and outcome, over any libraries that satisfy the
  interface \<open>sealing\<close>: keys, clocks and sessions are concrete, envelopes and guards are known by
  what was sealed and what was heard.
\<close>

section \<open>Runs\<close>

definition unwrap :: "'a res \<times> 's \<Rightarrow> ('a \<Rightarrow> 's \<Rightarrow> bool) \<Rightarrow> bool" where
  "unwrap z k = (case z of (Ok x, s) \<Rightarrow> k x s | _ \<Rightarrow> False)"

definition unwrap_err :: "'a res \<times> 's \<Rightarrow> (message_error \<Rightarrow> 's \<Rightarrow> bool) \<Rightarrow> bool" where
  "unwrap_err z k = (case z of (Err x, s) \<Rightarrow> k x s | _ \<Rightarrow> False)"

definition unwrapped :: "'a res \<Rightarrow> ('a \<Rightarrow> bool) \<Rightarrow> bool" where
  "unwrapped r k = (case r of Ok x \<Rightarrow> k x | _ \<Rightarrow> False)"

lemma unwrap_simps [simp]:
  "unwrap (Ok x, s) k = k x s" "\<not> unwrap (Err e, s) k" "\<not> unwrap (Panic p, s) k"
  "unwrap_err (Err e, s) k' = k' e s" "\<not> unwrap_err (Ok x, s) k'" "\<not> unwrap_err (Panic p, s) k'"
  "unwrapped (Ok x) f = f x" "\<not> unwrapped (Err e) f" "\<not> unwrapped (Panic p) f"
  by (simp_all add: unwrap_def unwrap_err_def unwrapped_def)

lemma unwrap_iff: "unwrap z k \<longleftrightarrow> (\<exists>x s. z = (Ok x, s) \<and> k x s)"
  by (simp add: unwrap_def split: prod.split result.split)

lemma unwrap_and_then_st [simp]: "unwrap (and_then_st z f) k = unwrap z (\<lambda>x s. unwrap (f x s) k)"
  by (cases "(z, f)" rule: and_then_st.cases) simp_all

lemma hm_remove_insert [simp]: "hm_remove k (hm_insert k v m) = hm_remove k m"
  by (simp add: hm_remove_def hm_insert_def delete_update_same)

section \<open>States of an endpoint\<close>

text \<open>The endpoint \<open>E\<close> with its changing parts: sessions, counter and guard.\<close>

definition at_state ::
    "'sk stream_endpoint \<Rightarrow> (bytes32, stream_session) hash_map \<Rightarrow> u64 \<Rightarrow> replay_guard \<Rightarrow> 'sk stream_endpoint" where
  "at_state E m c g = E\<lparr>sessions := m, send_counter := c, guard := g\<rparr>"

lemma at_state_simps [simp]:
  "sessions (at_state E m c g) = m" "send_counter (at_state E m c g) = c" "guard (at_state E m c g) = g"
  "identity_sk (at_state E m c g) = identity_sk E" "local_did (at_state E m c g) = local_did E"
  "local_epoch (at_state E m c g) = local_epoch E" "peer_did (at_state E m c g) = peer_did E"
  "peer_pub (at_state E m c g) = peer_pub E" "max_concurrent (at_state E m c g) = max_concurrent E"
  "(at_state E m c g)\<lparr>sessions := m'\<rparr> = at_state E m' c g"
  "(at_state E m c g)\<lparr>send_counter := c'\<rparr> = at_state E m c' g"
  "(at_state E m c g)\<lparr>guard := g'\<rparr> = at_state E m c g'"
  "same_config E (at_state E m c g)"
  "session k (at_state E m c g) = hm_get m k" "stream_count (at_state E m c g) = hm_len m"
  by (simp_all add: at_state_def same_config_def session_def stream_count_def)

lemma drop_if_closed_state [simp]:
  "drop_if_closed k (at_state E m c g) =
     at_state E (case hm_get m k of Some s \<Rightarrow> if is_closed s then hm_remove k m else m | None \<Rightarrow> m) c g"
  by (simp add: drop_if_closed_def split: option.split)

text \<open>
  An envelope that \<open>E\<close> sealed; a guard that has heard from \<open>E\<close> only counters below \<open>n\<close>; a guard
  that remembers the counter \<open>c\<close> of \<open>E\<close>.
\<close>

definition carries ::
    "'sk deps \<Rightarrow> 'sk stream_endpoint \<Rightarrow> bytes32 \<Rightarrow> stream_header \<Rightarrow> bytes \<Rightarrow> u64 \<Rightarrow> u64 \<Rightarrow> u64
      \<Rightarrow> dig_message_envelope \<Rightarrow> bool" where
  "carries D E k h d c ts ex e \<longleftrightarrow>
     (\<exists>en A A'. same_config E A \<and> send_counter A = c \<and> seal_frame D en k h d ts ex A = (Ok e, A'))"

definition heard :: "'sk stream_endpoint \<Rightarrow> u64 \<Rightarrow> replay_guard \<Rightarrow> bool" where
  "heard E n g \<longleftrightarrow> (\<exists>F. guard_models g F \<and> (\<forall>x \<in> F (local_did E, local_epoch E). x < unat n))"

definition latest :: "'sk stream_endpoint \<Rightarrow> u64 \<Rightarrow> replay_guard \<Rightarrow> bool" where
  "latest E c g \<longleftrightarrow> (\<exists>F. guard_models g F \<and> unat c \<in> F (local_did E, local_epoch E))"

lemma heard_new [simp]: "heard E n guard_new"
  unfolding heard_def by (rule exI [of _ "\<lambda>_. {}"]) simp

text \<open>The peer's key of \<open>E\<close> is the public key of somebody.\<close>

definition addressable :: "'sk deps \<Rightarrow> 'sk stream_endpoint \<Rightarrow> bool" where
  "addressable D E \<longleftrightarrow> (\<exists>sk. peer_pub E = public_key_bytes (crypto D) sk)"

lemma listens_addressable: "listens D rv A B \<Longrightarrow> addressable D A"
  by (auto simp: listens_def addressable_def)

section \<open>The rules\<close>

lemma run_on_session:
  assumes "hm_get m k = Some s" and "f s = (Ok h, s')" and "Q h (at_state E (hm_insert k s' m) c g)"
  shows "unwrap (on_session k f (at_state E m c g)) Q"
  using assms by (simp add: on_session_def session_mut_def)

context sealing
begin

lemma run_seal:
  assumes a: "addressable D E" and d: "length d < MIN_COMPRESS_BYTES"
    and Q: "\<And>e. carries D E k h d c ts ex e \<Longrightarrow> Q e (at_state E m (c + 1) g)"
  shows "unwrap (seal_frame D (Inr en) k h d ts ex (at_state E m c g)) Q"
proof -
  let ?ep = "at_state E m c g"
  let ?p = "\<lparr>sp_sender_sk = identity_sk ?ep, sp_sender = local_did ?ep, sp_sender_epoch = local_epoch ?ep,
     sp_recipient = peer_did ?ep, sp_recipient_pub = peer_pub ?ep, sp_message_type = ep_message_type ?ep,
     sp_shape = StreamFrame, sp_correlation_id = k, sp_stream = Some h, sp_counter = send_counter ?ep,
     sp_timestamp_ms = ts, sp_expires_at = ex, sp_payload = d\<rparr>"
  obtain sk where "peer_pub E = public_key_bytes (crypto D) sk" using a by (auto simp: addressable_def)
  moreover have "\<exists>z. compress_payload (zstd D) d = Ok z"
    using d by (simp add: compress_payload_def u32_try_from_def const_defs)
  ultimately obtain e where "seal_with_ephemeral D ?p (sk_from_seed (crypto D) en) = Ok e"
    using seal_total [of ?p _ sk] by auto
  then have sf: "seal_frame D (Inr en) k h d ts ex ?ep = (Ok e, at_state E m (c + 1) g)"
    by (simp add: seal_frame_def Let_def seal_message_ephemeral)
  have "carries D E k h d c ts ex e"
    unfolding carries_def using sf at_state_simps(2,13) by blast
  then show ?thesis unfolding sf by (simp add: Q)
qed

lemma carried_opens:
  assumes e: "carries D A k h d c ts ex e" and li: "listens D rv A B" and t: "timely ts ex now"
    and g: "heard A n g" "n \<le> c" "c \<noteq> -1" and d: "length d < MIN_COMPRESS_BYTES"
  obtains o' g' where
    "accept D en e rv now (at_state B m cb g) = accept_opened D en e o' now (at_state B m cb g')"
    "open_message D (identity_sk B) e rv g now = (Ok o', g')" "heard A (c + 1) g'" "latest A c g'"
    "om_sender o' = peer_did B" "om_shape o' = StreamFrame" "om_payload o' = d" "env_stream e = Some h"
    "env_correlation_id e = k"
proof -
  obtain en' A1 A2 where sf: "same_config A A1" "send_counter A1 = c" "seal_frame D en' k h d ts ex A1 = (Ok e, A2)"
    using e by (auto simp: carries_def)
  obtain F where F: "guard_models g F" "\<forall>x \<in> F (local_did A, local_epoch A). x < unat n"
    using g(1) by (auto simp: heard_def)
  have key: "local_did A1 = local_did A" "local_epoch A1 = local_epoch A" using sf(1) by (simp_all add: same_config_def)
  have c: "x < unat c" if "x \<in> F (local_did A, local_epoch A)" for x
    using F(2) that g(2) by (auto simp: word_le_nat_alt)
  have fin: "finite (F (local_did A, local_epoch A))" by (rule finite_subset [of _ "{..<unat c}"]) (use c in auto)
  have acc: "accepts (F (local_did A1, local_epoch A1)) (unat (send_counter A1))"
    unfolding key sf(2) accepts_def using c Max_in [OF fin] by (fastforce intro: trans_less_add1)
  have li1: "listens D rv A1 (at_state B m cb g)" using li sf(1) by (simp add: listens_def same_config_def)
  have gB: "guard_models (guard (at_state B m cb g)) F" using F(1) by simp
  show thesis
  proof (rule accept_sealed [OF sf(3) li1 gB t acc, where en' = en])
    fix g' F' o'
    assume "accept D en e rv now (at_state B m cb g) = accept_opened D en e o' now ((at_state B m cb g)\<lparr>guard := g'\<rparr>)"
      "guard_models g' F'" "F' (local_did A1, local_epoch A1)
        = insert (unat (send_counter A1)) (F (local_did A1, local_epoch A1))"
      "om_sender o' = peer_did (at_state B m cb g)" "om_shape o' = StreamFrame" "om_payload o' = d"
      "env_stream e = Some h" "env_correlation_id e = k"
      "open_message D (identity_sk (at_state B m cb g)) e rv (guard (at_state B m cb g)) now = (Ok o', g')"
    moreover from this have "heard A (c + 1) g'"
      unfolding heard_def key sf(2) using c g(3) unat_Suc [of c]
      by (intro exI [of _ F']) (auto intro: less_SucI)
    moreover have "latest A c g'"
      unfolding latest_def using calculation(2,3) key sf(2) by (intro exI [of _ F']) simp
    ultimately show thesis using that [of o' g'] by simp
  qed (use d in \<open>simp add: const_defs\<close>)
qed

lemma run_accept:
  assumes "carries D A k h d c ts ex e" and "listens D rv A B" and "timely ts ex now"
    and "heard A n g" "n \<le> c" "c \<noteq> -1" and "length d < MIN_COMPRESS_BYTES"
    and Q: "\<And>o' g'. heard A (c + 1) g' \<Longrightarrow> latest A c g' \<Longrightarrow> om_sender o' = peer_did B \<Longrightarrow> om_shape o' = StreamFrame \<Longrightarrow>
      om_payload o' = d \<Longrightarrow> env_stream e = Some h \<Longrightarrow> env_correlation_id e = k \<Longrightarrow>
      unwrap (accept_opened D en e o' now (at_state B m cb g')) Q"
  shows "unwrap (accept D en e rv now (at_state B m cb g)) Q"
  by (rule carried_opens [OF assms(1-7), where en = en and m = m and cb = cb]) (simp add: Q)

end

text \<open>
  An envelope on its way from \<open>A\<close> to \<open>B\<close>, in time, at a guard that has heard less from \<open>A\<close>, with
  a chunk short enough for the raw codec.
\<close>

definition arriving ::
    "'sk deps \<Rightarrow> 'sk stream_endpoint \<Rightarrow> bytes32 \<Rightarrow> stream_header \<Rightarrow> bytes \<Rightarrow> u64 \<Rightarrow> dig_message_envelope
      \<Rightarrow> resolver \<Rightarrow> u64 \<Rightarrow> 'sk stream_endpoint \<Rightarrow> replay_guard \<Rightarrow> bool" where
  "arriving D A k h d c e rv now B g \<longleftrightarrow> listens D rv A B \<and> heard A c g \<and> c \<noteq> -1 \<and>
     length d < MIN_COMPRESS_BYTES \<and> (\<exists>ts ex. carries D A k h d c ts ex e \<and> timely ts ex now)"

context sealing
begin

lemma run_arriving:
  assumes "arriving D A k h d c e rv now B g"
    and "\<And>o' g'. heard A (c + 1) g' \<Longrightarrow> latest A c g' \<Longrightarrow> om_sender o' = peer_did B \<Longrightarrow> om_shape o' = StreamFrame \<Longrightarrow>
      om_payload o' = d \<Longrightarrow> env_stream e = Some h \<Longrightarrow> env_correlation_id e = k \<Longrightarrow>
      unwrap (accept_opened D en e o' now (at_state B m cb g')) Q"
  shows "unwrap (accept D en e rv now (at_state B m cb g)) Q"
proof -
  obtain ts ex where "carries D A k h d c ts ex e" "timely ts ex now" "listens D rv A B" "heard A c g" "c \<noteq> -1"
      "length d < MIN_COMPRESS_BYTES" using assms(1) by (auto simp: arriving_def)
  then show ?thesis by (intro run_accept [where n = c] assms(2)) simp_all
qed

text \<open>The five outcomes of an arrival: a new stream, an event, a peer's reset, a violation, a drop.\<close>

lemma run_opened:
  assumes "arriving D A k (header Open sq w) d c e rv now B g" and "hm_get m k = None"
    and "hm_len m < max_concurrent B"
    and "\<And>g'. heard A (c + 1) g' \<Longrightarrow> latest A c g' \<Longrightarrow> Q (Event EvOpened) (at_state B (hm_insert k (responder w) m) cb g')"
  shows "unwrap (accept D en e rv now (at_state B m cb g)) Q"
  by (rule run_arriving [OF assms(1)])
    (use assms(2-) in \<open>simp add: accept_opened_def accept_open_def Let_def hm_remove_absent\<close>)

lemma run_event:
  assumes "arriving D A k (header f sq w) d c e rv now B g" and "hm_get m k = Some s" and "f \<noteq> Open" "f \<noteq> Reset"
    and "on_recv f (header f sq w) s = (Ok a, s')"
    and "\<And>g'. heard A (c + 1) g' \<Longrightarrow> latest A c g' \<Longrightarrow>
      Q (Event (to_event a d)) (at_state B (if is_closed s' then hm_remove k m else hm_insert k s' m) cb g')"
  shows "unwrap (accept D en e rv now (at_state B m cb g)) Q"
proof (rule run_arriving [OF assms(1)])
  fix o' :: opened_message and g'
  assume "heard A (c + 1) g'" "latest A c g'" "om_sender o' = peer_did B" "om_shape o' = StreamFrame" "om_payload o' = d"
    "env_stream e = Some (header f sq w)" "env_correlation_id e = k"
  then show "unwrap (accept_opened D en e o' now (at_state B m cb g')) Q"
    using assms(2-) by (cases "is_closed s'") (simp_all add: accept_opened_def Let_def hm_contains_key_def)
qed

lemma run_peer_reset:
  assumes "arriving D A k (header Reset sq w) d c e rv now B g" and "hm_get m k = Some s"
    and "\<And>g'. heard A (c + 1) g' \<Longrightarrow> latest A c g' \<Longrightarrow> Q (Event EvPeerReset) (at_state B (hm_remove k m) cb g')"
  shows "unwrap (accept D en e rv now (at_state B m cb g)) Q"
  by (rule run_arriving [OF assms(1)]) (use assms(2-) in \<open>simp add: accept_opened_def Let_def\<close>)

lemma run_violation:
  assumes "arriving D A k (header f sq w) d c e rv now B g" and "addressable D B"
    and "f = Open \<and> hm_get m k \<noteq> None \<and> x = StreamProtocol ''duplicate OPEN for a live stream'' \<or>
      f = Open \<and> hm_get m k = None \<and> max_concurrent B \<le> hm_len m \<and> x = StreamLimit (max_concurrent B) \<or>
      f \<noteq> Open \<and> f \<noteq> Reset \<and> (\<exists>s s'. hm_get m k = Some s \<and> on_recv f (header f sq w) s = (Err x, s'))"
    and "\<And>g' r. heard A (c + 1) g' \<Longrightarrow> latest A c g' \<Longrightarrow> carries D B k (header Reset 0 0) [] cb now 0 r \<Longrightarrow>
      Q (ResetWith r x) (at_state B (hm_remove k m) (cb + 1) g')"
  shows "unwrap (accept D (Inr en) e rv now (at_state B m cb g)) Q"
proof (rule run_arriving [OF assms(1)])
  fix o' :: opened_message and g'
  assume h: "heard A (c + 1) g'" "latest A c g'" and o': "om_sender o' = peer_did B" "om_shape o' = StreamFrame" "om_payload o' = d"
    "env_stream e = Some (header f sq w)" "env_correlation_id e = k"
  have r: "unwrap (reset_response D (Inr en) k now x (at_state B (hm_remove k m) cb g')) Q"
    unfolding reset_response_def
    using run_seal [OF assms(2), of "[]" k "header Reset 0 0" cb now 0] assms(4) [OF h] by (simp add: const_defs)
  show "unwrap (accept_opened D (Inr en) e o' now (at_state B m cb g')) Q"
    using assms(3) r o'
    by (elim disjE conjE exE) (simp_all add: accept_opened_def accept_open_def Let_def hm_contains_key_def
        hm_remove_absent)
qed

lemma run_dropped:
  assumes "arriving D A k (header f sq w) d c e rv now B g" and "f \<noteq> Open" and "hm_get m k = None"
    and "\<And>g' x. heard A (c + 1) g' \<Longrightarrow> latest A c g' \<Longrightarrow> Q (Dropped x) (at_state B m cb g')"
  shows "unwrap (accept D en e rv now (at_state B m cb g)) Q"
  by (rule run_arriving [OF assms(1)])
    (use assms(2-) in \<open>simp add: accept_opened_def Let_def hm_contains_key_def hm_remove_absent\<close>)

text \<open>What an endpoint sealed, as parameters addressed to the receiver.\<close>

lemma carries_sealed:
  assumes "carries D A k h d c ts ex e" and "listens D rv A B"
  obtains p esk where "seal_with_ephemeral D p esk = Ok e" "addressed D (identity_sk B) rv p"
    "sp_sender p = local_did A" "sp_sender_epoch p = local_epoch A"
    "sp_counter p = c" "sp_timestamp_ms p = ts" "sp_expires_at p = ex"
proof -
  obtain en A1 A2 where sf: "same_config A A1" "send_counter A1 = c" "seal_frame D en k h d ts ex A1 = (Ok e, A2)"
    using assms(1) by (auto simp: carries_def)
  then obtain p esk where p: "seal_with_ephemeral D p esk = Ok e" and pf: "sp_sender_sk p = identity_sk A1"
      "sp_sender p = local_did A1" "sp_sender_epoch p = local_epoch A1" "sp_recipient_pub p = peer_pub A1"
      "sp_counter p = c" "sp_timestamp_ms p = ts" "sp_expires_at p = ex"
    by (auto simp: seal_frame_def Let_def seal_message_def result_elims)
  show thesis
    by (rule that [OF p]) (use pf sf(1) assms(2) in \<open>simp_all add: addressed_def listens_def same_config_def\<close>)
qed

text \<open>An envelope whose counter the guard remembers is dropped as a replay, and the guard stays.\<close>

lemma run_replayed:
  assumes e: "carries D A k h d c ts ex e" and li: "listens D rv A B" and t: "timely ts ex now"
    and l: "latest A c g" and d: "length d < MIN_COMPRESS_BYTES" and Q: "Q (Dropped Replay) (at_state B m cb g)"
  shows "unwrap (accept D en e rv now (at_state B m cb g)) Q"
proof -
  obtain p esk where p: "seal_with_ephemeral D p esk = Ok e" and to: "addressed D (identity_sk B) rv p"
      and pf: "sp_sender p = local_did A" "sp_sender_epoch p = local_epoch A"
        "sp_counter p = c" "sp_timestamp_ms p = ts" "sp_expires_at p = ex"
    by (rule carries_sealed [OF e li])
  obtain z sig where oi: "open_inner D (identity_sk B) e rv now = Ok (sp_shape p, inner_of p z sig)"
    using open_inner_sealed [OF p to, of now] t pf by (auto simp: timely_def)
  obtain F where F: "guard_models g F" "unat c \<in> F (local_did A, local_epoch A)" using l by (auto simp: latest_def)
  have "check_and_admit (hash_iter D) g (local_did A) (local_epoch A) c ts now = Ok (False, g)"
    using check_and_admit_total [OF iteration F(1), of "local_did A" "local_epoch A" c ts now] F(2)
    by (auto simp: accepts_def)
  then have "open_message D (identity_sk B) e rv g now = (Err Replay, g)"
    using oi pf seal_with_ephemeral_fields [OF p] by (simp add: open_message_def sealed_for_def)
  then show ?thesis using Q by (simp add: accept_def)
qed

text \<open>An envelope of somebody else than the peer is dropped, even when its sender is verified.\<close>

lemma run_foreign:
  assumes e: "carries D A k h d c ts ex e" and li: "listens D rv A (B\<lparr>peer_did := local_did A\<rparr>)"
    and t: "timely ts ex now" and g: "heard A c g" "c \<noteq> -1" and d: "length d < MIN_COMPRESS_BYTES"
    and foreign: "local_did A \<noteq> peer_did B"
    and Q: "\<And>g'. Q (Dropped (StreamProtocol ''authenticated sender is not this stream's peer'')) (at_state B m cb g')"
  shows "unwrap (accept D en e rv now (at_state B m cb g)) Q"
proof -
  obtain o' g' where om: "open_message D (identity_sk B) e rv g now = (Ok o', g')" "om_sender o' = local_did A"
    by (rule carried_opens [OF e li t g(1) order_refl g(2) d, where en = en and m = m and cb = cb]) simp
  then show ?thesis using foreign Q by (simp add: accept_def accept_opened_def)
qed

text \<open>The calls that transmit.\<close>

lemma run_open:
  assumes "addressable D E" and "hm_get m k = None" and "hm_len m < max_concurrent E"
    and "\<And>e. carries D E k (header Open 0 w) [] c ts ex e \<Longrightarrow>
      Q e (at_state E (hm_insert k (initiator w) m) (c + 1) g)"
  shows "unwrap (endpoint_open D (Inr en) k w ts ex (at_state E m c g)) Q"
  using run_seal [OF assms(1), of "[]" k "header Open 0 w" c ts ex Q "hm_insert k (initiator w) m"] assms(2-)
  by (simp add: endpoint_open_def Let_def hm_contains_key_def const_defs)

lemma run_session_call:
  assumes "addressable D E" and "hm_get m k = Some s" and "f s = (Ok h, s')" and "length d < MIN_COMPRESS_BYTES"
    and "\<And>e. carries D E k h d c ts ex e \<Longrightarrow> Q e (at_state E (hm_insert k s' m) (c + 1) g)"
  shows "unwrap (and_then_st (on_session k f (at_state E m c g)) (\<lambda>h. seal_frame D (Inr en) k h d ts ex)) Q"
  unfolding unwrap_and_then_st
  by (rule run_on_session [where f = f, OF assms(2,3)]) (rule run_seal [OF assms(1,4)], rule assms(5))

lemma run_open_ack:
  assumes "addressable D E" and "hm_get m k = Some s" and "build_open_ack w s = (Ok h, s')"
    and "\<And>e. carries D E k h [] c ts ex e \<Longrightarrow> Q e (at_state E (hm_insert k s' m) (c + 1) g)"
  shows "unwrap (open_ack D (Inr en) k w ts ex (at_state E m c g)) Q"
  unfolding open_ack_def
  by (rule run_session_call [where f = "build_open_ack w" and s = s and s' = s']) (use assms in \<open>simp_all add: const_defs\<close>)

lemma run_send_data:
  assumes "addressable D E" and "hm_get m k = Some s" and "build_data s = (Ok h, s')"
    and "length d < MIN_COMPRESS_BYTES"
    and "\<And>e. carries D E k h d c ts ex e \<Longrightarrow> Q e (at_state E (hm_insert k s' m) (c + 1) g)"
  shows "unwrap (send_data D (Inr en) k d ts ex (at_state E m c g)) Q"
  unfolding send_data_def
  by (rule run_session_call [where f = build_data and s = s and s' = s']) (use assms in simp_all)

lemma run_grant_credit:
  assumes "addressable D E" and "hm_get m k = Some s" and "build_credit n s = (Ok h, s')"
    and "\<And>e. carries D E k h [] c ts ex e \<Longrightarrow> Q e (at_state E (hm_insert k s' m) (c + 1) g)"
  shows "unwrap (grant_credit D (Inr en) k n ts ex (at_state E m c g)) Q"
  unfolding grant_credit_def
  by (rule run_session_call [where f = "build_credit n" and s = s and s' = s']) (use assms in \<open>simp_all add: const_defs\<close>)

lemma run_close:
  assumes "addressable D E" and "hm_get m k = Some s" and "build_close s = (Ok h, s')"
    and "\<And>e. carries D E k h [] c ts ex e \<Longrightarrow>
      Q e (at_state E (if is_closed s' then hm_remove k m else hm_insert k s' m) (c + 1) g)"
  shows "unwrap (endpoint_close D (Inr en) k ts ex (at_state E m c g)) Q"
proof -
  show ?thesis
    unfolding endpoint_close_def unwrap_and_then_st
    by (rule run_on_session [where f = build_close, OF assms(2,3)], rule run_seal [OF assms(1)])
      (simp add: const_defs, use assms(4) in \<open>cases "is_closed s'"; simp\<close>)
qed

lemma run_reset:
  assumes "addressable D E" and "hm_get m k = Some s"
    and "\<And>e. carries D E k (header Reset 0 0) [] c ts ex e \<Longrightarrow> Q e (at_state E (hm_remove k m) (c + 1) g)"
  shows "unwrap (endpoint_reset D (Inr en) k ts ex (at_state E m c g)) Q"
proof -
  show ?thesis
    unfolding endpoint_reset_def unwrap_and_then_st
    by (rule run_on_session [where f = "\<lambda>s. apfst Ok (build_reset s)", OF assms(2)], simp add: build_reset_def)
      (rule run_seal [OF assms(1)], use assms(3) in \<open>simp_all add: const_defs\<close>)
qed

end

section \<open>Chunks out of order\<close>

text \<open>What a send does: the chunk's frame, the session, and the counter.\<close>

lemma send_data_sealed:
  assumes "send_data D en cid d ts ex A = (Ok e, A')" and "session cid A = Some s"
  obtains A0 s' where "seal_frame D en cid (header Data (ss_send_seq s) 0) d ts ex A0 = (Ok e, A')"
    "same_config A A0" "send_counter A0 = send_counter A" "send_counter A' = send_counter A + 1"
    "session cid A' = Some s'" "ss_send_seq s' = ss_send_seq s + 1"
proof -
  obtain h s' where bd: "build_data s = (Ok h, s')"
    and sf: "seal_frame D en cid h d ts ex (A\<lparr>sessions := hm_insert cid s' (sessions A)\<rparr>) = (Ok e, A')"
    using assms by (auto simp: send_data_def and_then_st_Ok_iff on_session_def session_mut_def session_def
        split: prod.splits)
  have h: "h = header Data (ss_send_seq s) 0" "ss_send_seq s' = ss_send_seq s + 1"
    using bd by (auto simp: build_data_def Let_def split: if_splits)
  have A': "A' = A\<lparr>sessions := hm_insert cid s' (sessions A), send_counter := send_counter A + 1\<rparr>"
    using sf seal_frame_state [of D en cid h d ts ex "A\<lparr>sessions := hm_insert cid s' (sessions A)\<rparr>"] by simp
  show thesis
    by (rule that [OF sf [unfolded h]]) (use h A' in \<open>simp_all add: same_config_def session_def\<close>)
qed

lemma at_state_self: "at_state B (sessions B) (send_counter B) (guard B) = B"
  by (simp add: at_state_def)

context sealing
begin

lemma reset_response_seals:
  assumes "addressable D B"
  shows "\<exists>r. reset_response D (Inr ikm) cid now c B = (Ok (ResetWith r c), B\<lparr>send_counter := send_counter B + 1\<rparr>) \<and>
    env_correlation_id r = cid"
proof -
  have "unwrap (seal_frame D (Inr ikm) cid (header Reset 0 0) [] now 0 (at_state B (sessions B) (send_counter B) (guard B)))
      (\<lambda>r B'. B' = B\<lparr>send_counter := send_counter B + 1\<rparr>)"
    by (rule run_seal [OF assms]) (simp_all add: MIN_COMPRESS_BYTES_def at_state_def)
  then obtain r where r: "seal_frame D (Inr ikm) cid (header Reset 0 0) [] now 0 B = (Ok r, B\<lparr>send_counter := send_counter B + 1\<rparr>)"
    unfolding at_state_self unwrap_def by (auto split: prod.splits result.splits)
  then show ?thesis using seal_frame_fields [OF r] by (simp add: reset_response_def)
qed

lemma orphan_dropped:
  assumes "guard_models (guard B) F" and "env_stream e = Some (header f sq w)" "f \<noteq> Open"
    and "session (env_correlation_id e) B = None"
  shows "\<exists>c B'. accept D en e rv now B = (Ok (Dropped c), B') \<and> (\<forall>k. session k B' = session k B)"
proof -
  obtain r g where om: "open_message D (identity_sk B) e rv (guard B) now = (r, g)" by fastforce
  have "\<not> is_panic r" using open_message_invariant(2) [OF assms(1), of "identity_sk B" e rv now] om by simp
  then show ?thesis
    using om assms(2-) by (cases r) (auto simp: accept_def accept_opened_def session_def hm_contains_key_def hm_remove_absent Let_def)
qed

end

text \<open>
  C40: the stream needs an ordered transport. When the second of two chunks arrives before the
  first, the receiver delivers neither: the early chunk is answered with a RESET of that stream
  and ends it, the late chunk is dropped at any later clock, and no other stream is touched.
\<close>
theorem reordering_ends_stream:
  assumes "sealing D" and "listens D rv A B" and "addressable D B" and "guard_models (guard B) F"
    and "session cid A = Some s" and "session cid B = Some t" and "ss_recv_seq t = ss_send_seq s"
    and "send_data D en1 cid d1 ts1 ex1 A = (Ok e1, A1)" and "send_data D en2 cid d2 ts2 ex2 A1 = (Ok e2, A2)"
    and "timely ts2 ex2 now" and "length d2 \<le> MAX_DECOMPRESSED_BYTES"
    and "accepts (F (local_did A, local_epoch A)) (unat (send_counter A + 1))"
  shows "\<exists>r c B1. accept D (Inr ikm) e2 rv now B = (Ok (ResetWith r c), B1) \<and>
    env_correlation_id r = cid \<and> session cid B1 = None \<and>
    (\<forall>k. k \<noteq> cid \<longrightarrow> session k B1 = session k B) \<and>
    (\<forall>en now'. \<exists>c' B2. accept D en e1 rv now' B1 = (Ok (Dropped c'), B2) \<and> (\<forall>k. session k B2 = session k B1))"
proof -
  let ?h = "\<lambda>n. header Data n 0"
  obtain A0 s' where sf1: "seal_frame D en1 cid (?h (ss_send_seq s)) d1 ts1 ex1 A0 = (Ok e1, A1)"
    and A0: "same_config A A0" "send_counter A0 = send_counter A" and A1: "send_counter A1 = send_counter A + 1"
    and s': "session cid A1 = Some s'" "ss_send_seq s' = ss_send_seq s + 1"
    by (rule send_data_sealed [OF assms(8,5)])
  obtain A3 where sf2: "seal_frame D en2 cid (?h (ss_send_seq s')) d2 ts2 ex2 A3 = (Ok e2, A2)"
    and A3: "same_config A1 A3" "send_counter A3 = send_counter A1"
    by (rule send_data_sealed [OF assms(9) s'(1)])
  have "same_config A A1"
    using A0(1) seal_frame_state [of D en1 cid "?h (ss_send_seq s)" d1 ts1 ex1 A0] sf1 by (auto simp: same_config_def)
  with A3(1) have cfg: "same_config A A3" by (simp add: same_config_def)
  have li: "listens D rv A3 B" and key: "(local_did A3, local_epoch A3) = (local_did A, local_epoch A)"
    using assms(2) cfg by (simp_all add: listens_def same_config_def)
  have "accepts (F (local_did A3, local_epoch A3)) (unat (send_counter A3))"
    unfolding key A3(2) A1 by (rule assms(12))
  from sealing.accept_sealed [OF assms(1) sf2 li assms(4,10) this assms(11)]
  obtain g' F' m where a: "accept D (Inr ikm) e2 rv now B = accept_opened D (Inr ikm) e2 m now (B\<lparr>guard := g'\<rparr>)"
    and g': "guard_models g' F'" and m: "om_sender m = peer_did B" "om_shape m = StreamFrame"
      "env_stream e2 = Some (?h (ss_send_seq s'))" "env_correlation_id e2 = cid" by metis
  have "\<exists>c t'. on_recv Data (?h (ss_send_seq s')) t = (Err c, t')"
    using assms(7) s'(2) by (simp add: on_recv_def)
  then obtain c t' where bad: "on_recv Data (?h (ss_send_seq s')) t = (Err c, t')" by blast
  let ?B = "B\<lparr>guard := g', sessions := hm_remove cid (sessions B)\<rparr>"
  have "addressable D ?B" using assms(3) by (simp add: addressable_def)
  from sealing.reset_response_seals [OF assms(1) this, of ikm cid now c]
  obtain r where r: "reset_response D (Inr ikm) cid now c ?B = (Ok (ResetWith r c), ?B\<lparr>send_counter := send_counter ?B + 1\<rparr>)"
    "env_correlation_id r = cid" by blast
  let ?B1 = "?B\<lparr>send_counter := send_counter ?B + 1\<rparr>"
  have acc: "accept D (Inr ikm) e2 rv now B = (Ok (ResetWith r c), ?B1)"
    using a m bad r assms(6) by (simp add: accept_opened_def Let_def session_def hm_contains_key_def)
  have gone: "session cid ?B1 = None" "\<And>k. k \<noteq> cid \<Longrightarrow> session k ?B1 = session k B" by (simp_all add: session_def)
  have e1: "env_stream e1 = Some (?h (ss_send_seq s))" "env_correlation_id e1 = cid"
    using seal_frame_fields [OF sf1] by simp_all
  have late: "\<exists>c' B2. accept D en e1 rv now' ?B1 = (Ok (Dropped c'), B2) \<and> (\<forall>k. session k B2 = session k ?B1)" for en now'
    by (rule sealing.orphan_dropped [OF assms(1), where F = F', OF _ e1(1)]) (use g' gone e1(2) in simp_all)
  show ?thesis
    using acc r(2) gone late by blast
qed

theorem reordering_ends_stream_witness:
  "\<exists>e1 e2 A1 A2 r c B1. send_data sum_deps sample_entropy sample_cid [1] 1000 5000 alice_streaming = (Ok e1, A1) \<and>
     send_data sum_deps sample_entropy sample_cid [2] 1000 5000 A1 = (Ok e2, A2) \<and>
     accept sum_deps sample_entropy e2 sample_resolver 2000 bob_streaming = (Ok (ResetWith r c), B1) \<and>
     session sample_cid B1 = None"
proof -
  let ?s = "(initiator 4)\<lparr>ss_handshake := HsEstablished, ss_send_credit := 2\<rparr>"
  let ?t = "(responder 4)\<lparr>ss_handshake := HsEstablished, ss_recv_window_remaining := 2\<rparr>"
  have s: "session sample_cid alice_streaming = Some ?s" "session sample_cid bob_streaming = Some ?t"
    by (simp_all add: alice_streaming_def bob_streaming_def session_def)
  have comm: "alice\<lparr>sessions := m, send_counter := n\<rparr> = alice\<lparr>send_counter := n, sessions := m\<rparr>" for m n
    by simp
  have next_send: "\<exists>e. send_data sum_deps sample_entropy sample_cid d 1000 5000 (alice\<lparr>send_counter := n, sessions := m\<rparr>)
      = (Ok e, alice\<lparr>send_counter := n + 1, sessions := hm_insert sample_cid
          (u\<lparr>ss_send_credit := ss_send_credit u - 1, ss_send_seq := ss_send_seq u + 1\<rparr>) m\<rparr>)"
    if "hm_get m sample_cid = Some u" "ss_handshake u = HsEstablished" "\<not> ss_local_closed u" "ss_send_credit u \<noteq> 0"
      "length d < 64" for d m n u
    using that sum_seal_frame [of d "alice\<lparr>send_counter := n, sessions := m'\<rparr>" 5 for m']
    by (simp add: comm send_data_def on_session_def session_mut_def build_data_def)
  have a0: "alice_streaming = alice\<lparr>send_counter := 0, sessions := hm_insert sample_cid ?s hm_new\<rparr>"
    by (simp add: alice_streaming_def alice_def endpoint_new_def)
  let ?u = "?s\<lparr>ss_send_credit := ss_send_credit ?s - 1, ss_send_seq := ss_send_seq ?s + 1\<rparr>"
  let ?m = "hm_insert sample_cid ?s hm_new"
  let ?A1 = "alice\<lparr>send_counter := 0 + 1, sessions := hm_insert sample_cid ?u ?m\<rparr>"
  have "\<exists>e. send_data sum_deps sample_entropy sample_cid [1] 1000 5000 alice_streaming = (Ok e, ?A1)"
    unfolding a0 by (rule next_send) (simp_all add: initiator_def)
  then obtain e1 where e1: "send_data sum_deps sample_entropy sample_cid [1] 1000 5000 alice_streaming = (Ok e1, ?A1)"
    by blast
  have "\<exists>e A2. send_data sum_deps sample_entropy sample_cid [2] 1000 5000 ?A1 = (Ok e, A2)"
    using next_send [of "hm_insert sample_cid ?u ?m" ?u "[2]" "0 + 1"] by (simp add: initiator_def) blast
  then obtain e2 A2 where e2: "send_data sum_deps sample_entropy sample_cid [2] 1000 5000 ?A1 = (Ok e2, A2)" by blast
  have li: "listens sum_deps sample_resolver alice_streaming bob_streaming"
    by (simp add: alice_streaming_def bob_streaming_def)
  have ad: "addressable sum_deps bob_streaming"
    unfolding addressable_def by (rule exI [of _ 3]) (simp add: bob_streaming_def sum_deps_def sum_crypto_def)
  have g: "guard_models (guard bob_streaming) (\<lambda>_. {})" by (simp add: bob_streaming_def)
  have sq: "ss_recv_seq ?t = ss_send_seq ?s" by (simp add: initiator_def responder_def)
  obtain r c B1 where "accept sum_deps sample_entropy e2 sample_resolver 2000 bob_streaming = (Ok (ResetWith r c), B1)"
      "session sample_cid B1 = None"
    unfolding sample_entropy_def
    using reordering_ends_stream [OF sum.sealing_axioms li ad g s sq e1 e2 sample_timely, of "array_of_byte 11"]
    by (auto simp: const_defs)
  with e1 e2 show ?thesis by blast
qed

section \<open>A stream closed before it is established\<close>

lemma carried_cid: "carries D E k h d c ts ex e \<Longrightarrow> env_correlation_id e = k"
  using seal_frame_fields by (fastforce simp: carries_def)

context sealing
begin

text \<open>An initiator opens and closes at once; what the two frames carry.\<close>

lemma run_open_close:
  assumes "addressable D A" and "session k A = None" "stream_count A < max_concurrent A"
    and "\<And>e1 e2 A2. carries D A k (header Open 0 w) [] (send_counter A) ts1 ex1 e1 \<Longrightarrow>
      carries D A k (header Close 0 0) [] (send_counter A + 1) ts2 ex2 e2 \<Longrightarrow> Q e1 e2 A2"
  shows "unwrap (endpoint_open D (Inr i1) k w ts1 ex1 A) (\<lambda>e1 A1.
    unwrap (endpoint_close D (Inr i2) k ts2 ex2 A1) (\<lambda>e2 A2. Q e1 e2 A2))"
proof -
  have "unwrap (endpoint_open D (Inr i1) k w ts1 ex1 (at_state A (sessions A) (send_counter A) (guard A))) (\<lambda>e1 A1.
    unwrap (endpoint_close D (Inr i2) k ts2 ex2 A1) (\<lambda>e2 A2. Q e1 e2 A2))"
    by (rule run_open [OF assms(1)], use assms(2,3) in \<open>simp_all add: session_def stream_count_def\<close>,
        rule run_close [where s = "initiator w", OF assms(1)])
      (auto simp: build_close_def initiator_def intro: assms(4))
  then show ?thesis unfolding at_state_self .
qed

lemma early_close:
  assumes li: "listens D rv A B" and ad: "addressable D B" and g: "heard A (send_counter A) (guard B)" "unat (send_counter A) + 2 < 2 ^ 64"
    and A: "session k A = None" "stream_count A < max_concurrent A" and B: "session k B = None" "stream_count B < max_concurrent B"
    and t: "timely ts1 ex1 now1" "timely ts2 ex2 now2"
  shows "unwrap (endpoint_open D (Inr i1) k w ts1 ex1 A) (\<lambda>opening A1.
    unwrap (endpoint_close D (Inr i2) k ts2 ex2 A1) (\<lambda>closing A2.
    unwrap (accept D en opening rv now1 B) (\<lambda>r B1. r = Event EvOpened \<and>
      unwrap (accept D (Inr i3) closing rv now2 B1) (\<lambda>r B2. session k B2 = None \<and>
        (\<exists>frame. r = ResetWith frame (StreamProtocol ''CLOSE before the stream is established'') \<and> env_correlation_id frame = k)) \<and>
      unwrap (open_ack D (Inr i4) k w' ts3 ex3 B1) (\<lambda>ack B2.
        unwrap (accept D en' closing rv now2 B2) (\<lambda>r B3. session k B3 \<noteq> None \<and> r = Event EvRemoteClosed)))))"
proof (rule run_open_close [OF listens_addressable [OF li] A])
  fix e1 e2
  let ?c = "send_counter A" and ?r = "responder w"
  let ?t = "?r\<lparr>ss_handshake := HsEstablished, ss_recv_window_remaining := u64_from w'\<rparr>"
  let ?m = "hm_insert k ?r (sessions B)"
  assume e1: "carries D A k (header Open 0 w) [] ?c ts1 ex1 e1" and e2: "carries D A k (header Close 0 0) [] (?c + 1) ts2 ex2 e2"
  have "x \<noteq> -1" if "unat x + 1 < 2 ^ 64" for x :: u64
    using that by (auto simp: unsigned_minus_1_eq_mask mask_eq_exp_minus_1)
  then have c: "?c \<noteq> -1" "?c + 1 \<noteq> -1" using g(2) unat_Suc [of ?c] by auto
  have a1: "arriving D A k (header Open 0 w) [] ?c e1 rv now1 B (guard B)"
    unfolding arriving_def using li g(1) c(1) e1 t(1) by (auto simp: MIN_COMPRESS_BYTES_def)
  have a2: "arriving D A k (header Close 0 0) [] (?c + 1) e2 rv now2 B g'" if "heard A (?c + 1) g'" for g'
    unfolding arriving_def using li that c(2) e2 t(2) by (auto simp: MIN_COMPRESS_BYTES_def)
  have "unwrap (accept D en e1 rv now1 (at_state B (sessions B) (send_counter B) (guard B))) (\<lambda>r B1. r = Event EvOpened \<and>
      unwrap (accept D (Inr i3) e2 rv now2 B1) (\<lambda>r B2. session k B2 = None \<and>
        (\<exists>frame. r = ResetWith frame (StreamProtocol ''CLOSE before the stream is established'') \<and> env_correlation_id frame = k)) \<and>
      unwrap (open_ack D (Inr i4) k w' ts3 ex3 B1) (\<lambda>ack B2.
        unwrap (accept D en' e2 rv now2 B2) (\<lambda>r B3. session k B3 \<noteq> None \<and> r = Event EvRemoteClosed)))"
  proof (rule run_opened [OF a1], use B in \<open>simp_all add: session_def stream_count_def\<close>, intro conjI)
    fix g' assume "heard A (?c + 1) g'"
    note a2 = a2 [OF this]
    show "unwrap (accept D (Inr i3) e2 rv now2 (at_state B ?m (send_counter B) g')) (\<lambda>r B2. hm_get (sessions B2) k = None \<and>
        (\<exists>frame. r = ResetWith frame (StreamProtocol ''CLOSE before the stream is established'') \<and> env_correlation_id frame = k))"
      by (rule run_violation [OF a2 ad, where x = "StreamProtocol ''CLOSE before the stream is established''"])
        (auto simp: on_recv_def responder_def dest: carried_cid)
    show "unwrap (open_ack D (Inr i4) k w' ts3 ex3 (at_state B ?m (send_counter B) g')) (\<lambda>ack B2.
        unwrap (accept D en' e2 rv now2 B2) (\<lambda>r B3. (\<exists>y. hm_get (sessions B3) k = Some y) \<and> r = Event EvRemoteClosed))"
      by (rule run_open_ack [OF ad, where s = ?r and s' = ?t], simp, simp add: build_open_ack_def responder_def,
          rule run_event [OF a2, where s = ?t and s' = "?t\<lparr>ss_remote_closed := True\<rparr>" and a = AccRemoteClosed])
        (simp_all add: on_recv_def responder_def is_closed_def session_state_def)
  qed
  then show "unwrap (accept D en e1 rv now1 B) (\<lambda>r B1. r = Event EvOpened \<and>
      unwrap (accept D (Inr i3) e2 rv now2 B1) (\<lambda>r B2. session k B2 = None \<and>
        (\<exists>frame. r = ResetWith frame (StreamProtocol ''CLOSE before the stream is established'') \<and> env_correlation_id frame = k)) \<and>
      unwrap (open_ack D (Inr i4) k w' ts3 ex3 B1) (\<lambda>ack B2.
        unwrap (accept D en' e2 rv now2 B2) (\<lambda>r B3. session k B3 \<noteq> None \<and> r = Event EvRemoteClosed)))"
    unfolding at_state_self .
qed

end

text \<open>
  C37: a stream closed before it is established is reset. An initiator that opens a stream and
  closes it at once succeeds in both, sealed frames included. The peer accepts the OPEN; if the
  CLOSE reaches it before it has acknowledged, it answers with a RESET and drops the stream, and
  if it has acknowledged first, the same CLOSE is reported as the peer's CLOSE and the stream stays.
\<close>
theorem early_close_is_refused:
  assumes "sealing D" and "listens D rv A B" and "addressable D B"
    and "heard A (send_counter A) (guard B)" and "unat (send_counter A) + 2 < 2 ^ 64"
    and "session k A = None" and "stream_count A < max_concurrent A"
    and "session k B = None" and "stream_count B < max_concurrent B"
    and "timely ts1 ex1 now1" and "timely ts2 ex2 now2"
  shows "unwrap (endpoint_open D (Inr i1) k w ts1 ex1 A) (\<lambda>opening A1.
    unwrap (endpoint_close D (Inr i2) k ts2 ex2 A1) (\<lambda>closing A2.
    unwrap (accept D en opening rv now1 B) (\<lambda>r B1. r = Event EvOpened \<and>
      unwrap (accept D (Inr i3) closing rv now2 B1) (\<lambda>r B2. session k B2 = None \<and>
        (\<exists>frame. r = ResetWith frame (StreamProtocol ''CLOSE before the stream is established'') \<and> env_correlation_id frame = k)) \<and>
      unwrap (open_ack D (Inr i4) k w' ts3 ex3 B1) (\<lambda>ack B2.
        unwrap (accept D en' closing rv now2 B2) (\<lambda>r B3. session k B3 \<noteq> None \<and> r = Event EvRemoteClosed)))))"
  by (rule sealing.early_close [OF assms])

theorem early_close_is_refused_witness:
  "\<exists>e1 A1 e2 A2 B1 r B2. endpoint_open sum_deps sample_entropy sample_cid 4 1000 5000 alice = (Ok e1, A1) \<and>
     endpoint_close sum_deps sample_entropy sample_cid 1000 5000 A1 = (Ok e2, A2) \<and>
     accept sum_deps sample_entropy e1 sample_resolver 2000 bob = (Ok (Event EvOpened), B1) \<and>
     accept sum_deps sample_entropy e2 sample_resolver 2000 B1
       = (Ok (ResetWith r (StreamProtocol ''CLOSE before the stream is established'')), B2) \<and> session sample_cid B2 = None"
proof -
  have li: "listens sum_deps sample_resolver alice bob"
    by (simp add: listens_def sum_deps_def sum_crypto_def sample_resolver_def)
  have ad: "addressable sum_deps bob"
    unfolding addressable_def by (rule exI [of _ 3]) (simp add: bob_def endpoint_new_def sum_deps_def sum_crypto_def)
  have st: "heard alice (send_counter alice) (guard bob)" "unat (send_counter alice) + 2 < 2 ^ 64"
    "session sample_cid alice = None" "stream_count alice < max_concurrent alice"
    "session sample_cid bob = None" "stream_count bob < max_concurrent bob"
    by (simp_all add: alice_def bob_def endpoint_new_def session_def stream_count_def const_defs)
  from early_close_is_refused [OF sum.sealing_axioms li ad st sample_timely sample_timely,
      where w = 4 and ?i1.0 = "array_of_byte 11" and ?i2.0 = "array_of_byte 11" and ?i3.0 = "array_of_byte 11"
      and ?i4.0 = "array_of_byte 11" and en = sample_entropy and en' = sample_entropy and w' = 4 and ?ts3.0 = 1000 and ?ex3.0 = 5000]
  show ?thesis unfolding unwrap_iff sample_entropy_def by blast
qed

end
