(* ===== verification/Stream_Tests.thy ===== *)
theory Stream_Tests
  imports Run_Rules Unit_Tests
begin

text \<open>
  The end-to-end tests of \<open>src/stream.rs\<close>.
\<close>

definition test_sk :: "'sk deps \<Rightarrow> (bytes32 \<Rightarrow> 'sk) \<Rightarrow> string \<Rightarrow> 'sk" where
  "test_sk D derive label = derive (sha256 (crypto D) (ascii label))"

definition cid :: "'sk deps \<Rightarrow> string \<Rightarrow> bytes32" where
  "cid D tag = sha256 (crypto D) (ascii tag)"

record 'sk test_pair =
  a_sk :: 'sk
  a_did :: bytes32
  a_pub :: bytes48
  b_sk :: 'sk
  b_did :: bytes32
  b_pub :: bytes48

definition pair :: "'sk deps \<Rightarrow> (bytes32 \<Rightarrow> 'sk) \<Rightarrow> string \<Rightarrow> 'sk test_pair" where
  "pair D derive tag =
     (let a = test_sk D derive (tag @ ''/a''); b = test_sk D derive (tag @ ''/b'')
      in \<lparr>a_sk = a, a_did = cid D (tag @ ''/a-did''), a_pub = public_key_bytes (crypto D) a,
          b_sk = b, b_did = cid D (tag @ ''/b-did''), b_pub = public_key_bytes (crypto D) b\<rparr>)"

definition MT :: u32 where "MT = 0x200"

text \<open>The two endpoints nearly every test starts with, and the resolvers that know one of them.\<close>

definition alice_of :: "'sk test_pair \<Rightarrow> 'sk stream_endpoint" where
  "alice_of p = endpoint_new (a_sk p) (a_did p) 0 (b_did p) (b_pub p) MT"

definition bob_of :: "'sk test_pair \<Rightarrow> 'sk stream_endpoint" where
  "bob_of p = endpoint_new (b_sk p) (b_did p) 0 (a_did p) (a_pub p) MT"

definition resolves_to :: "bytes48 \<Rightarrow> resolver" where
  "resolves_to pub = (\<lambda>did epoch. Some pub)"

text \<open>The patterns the tests match against.\<close>

fun is_dropped :: "stream_accept \<Rightarrow> bool" where
  "is_dropped (Dropped cause) \<longleftrightarrow> True"
| "is_dropped _ \<longleftrightarrow> False"

fun is_protocol_error :: "message_error \<Rightarrow> bool" where
  "is_protocol_error (StreamProtocol what) \<longleftrightarrow> True"
| "is_protocol_error _ \<longleftrightarrow> False"

fun reset_for_protocol :: "stream_accept \<Rightarrow> bool" where
  "reset_for_protocol (ResetWith f cause) \<longleftrightarrow> is_protocol_error cause"
| "reset_for_protocol _ \<longleftrightarrow> False"

text \<open>
  One definition per test. The keys come from the key derivation \<open>derive\<close> of the identity library,
  the ephemeral of the \<open>i\<close>-th call from the system's entropy \<open>en i\<close>.
\<close>

definition full_stream_round_trip_open_data_close ::
    "'sk deps \<Rightarrow> (bytes32 \<Rightarrow> 'sk) \<Rightarrow> (nat \<Rightarrow> bytes32) \<Rightarrow> bool" where
  "full_stream_round_trip_open_data_close D derive en \<longleftrightarrow>
     (let p = pair D derive ''rt'';
          alice = alice_of p;
          bob = bob_of p;
          sender_is_bob = resolves_to (b_pub p);
          sender_is_alice = resolves_to (a_pub p);
          stream = cid D ''rt/stream''
      in unwrap (endpoint_open D (Inr (en 0)) stream 4 NOW 0 alice) (\<lambda>opn alice.
         unwrap (accept D (Inr (en 1)) opn sender_is_alice NOW bob) (\<lambda>r bob. r = Event EvOpened \<and>
         unwrap (open_ack D (Inr (en 2)) stream 4 NOW 0 bob) (\<lambda>ack bob.
         unwrap (accept D (Inr (en 3)) ack sender_is_bob NOW alice) (\<lambda>r alice. r = Event EvEstablished \<and>
         unwrap (send_data D (Inr (en 4)) stream (ascii ''hello '') NOW 0 alice) (\<lambda>d0 alice.
         unwrap (send_data D (Inr (en 5)) stream (ascii ''world'') NOW 0 alice) (\<lambda>d1 alice.
         unwrap (accept D (Inr (en 6)) d0 sender_is_alice NOW bob) (\<lambda>r bob. r = Event (EvData (ascii ''hello '')) \<and>
         unwrap (accept D (Inr (en 7)) d1 sender_is_alice NOW bob) (\<lambda>r bob. r = Event (EvData (ascii ''world'')) \<and>
         unwrap (endpoint_close D (Inr (en 8)) stream NOW 0 alice) (\<lambda>clo alice.
         unwrap (accept D (Inr (en 9)) clo sender_is_alice NOW bob) (\<lambda>r bob.
           r = Event EvRemoteClosed)))))))))))"

definition concurrent_stream_cap_rejects_the_nth_plus_one_open ::
    "'sk deps \<Rightarrow> (bytes32 \<Rightarrow> 'sk) \<Rightarrow> (nat \<Rightarrow> bytes32) \<Rightarrow> bool" where
  "concurrent_stream_cap_rejects_the_nth_plus_one_open D derive en \<longleftrightarrow>
     (let p = pair D derive ''cap'';
          bob = with_max_concurrent 2 (bob_of p);
          alice = alice_of p;
          sender_is_alice = resolves_to (a_pub p)
      in unwrap (endpoint_open D (Inr (en 0)) (cid D ''cap/0'') 1 NOW 0 alice) (\<lambda>opn alice.
         unwrap (accept D (Inr (en 1)) opn sender_is_alice NOW bob) (\<lambda>r bob. r = Event EvOpened \<and>
         unwrap (endpoint_open D (Inr (en 2)) (cid D ''cap/1'') 1 NOW 0 alice) (\<lambda>opn alice.
         unwrap (accept D (Inr (en 3)) opn sender_is_alice NOW bob) (\<lambda>r bob. r = Event EvOpened \<and>
         stream_count bob = 2 \<and>
         unwrap (endpoint_open D (Inr (en 4)) (cid D ''cap/3'') 1 NOW 0 alice) (\<lambda>open3 alice.
         unwrap (accept D (Inr (en 5)) open3 sender_is_alice NOW bob) (\<lambda>r bob.
           (case r of ResetWith f cause \<Rightarrow> cause = StreamLimit 2 | _ \<Rightarrow> False) \<and> stream_count bob = 2)))))))"

definition frame_for_unknown_stream_is_dropped_never_reset ::
    "'sk deps \<Rightarrow> (bytes32 \<Rightarrow> 'sk) \<Rightarrow> (nat \<Rightarrow> bytes32) \<Rightarrow> bool" where
  "frame_for_unknown_stream_is_dropped_never_reset D derive en \<longleftrightarrow>
     (let p = pair D derive ''proto'';
          alice = alice_of p;
          bob = bob_of p;
          sender_is_alice = resolves_to (a_pub p);
          stream = cid D ''proto/s''
      in unwrap (endpoint_open D (Inr (en 0)) stream 4 NOW 0 alice) (\<lambda>_ alice.
         unwrap (on_session stream (on_recv OpenAck (header OpenAck 0 4)) alice) (\<lambda>_ alice.
         unwrap (send_data D (Inr (en 1)) stream (ascii ''early'') NOW 0 alice) (\<lambda>data alice.
         unwrap (accept D (Inr (en 2)) data sender_is_alice NOW bob) (\<lambda>r bob. is_dropped r)))))"

definition replayed_data_on_a_live_stream_is_dropped_and_stream_survives ::
    "'sk deps \<Rightarrow> (bytes32 \<Rightarrow> 'sk) \<Rightarrow> (nat \<Rightarrow> bytes32) \<Rightarrow> bool" where
  "replayed_data_on_a_live_stream_is_dropped_and_stream_survives D derive en \<longleftrightarrow>
     (let p = pair D derive ''replay'';
          alice = alice_of p;
          bob = bob_of p;
          sender_is_alice = resolves_to (a_pub p);
          stream = cid D ''replay/s''
      in unwrap (endpoint_open D (Inr (en 0)) stream 4 NOW 0 alice) (\<lambda>opn alice.
         unwrap (accept D (Inr (en 1)) opn sender_is_alice NOW bob) (\<lambda>_ bob.
         unwrap (open_ack D (Inr (en 2)) stream 4 NOW 0 bob) (\<lambda>ack bob.
         unwrap (accept D (Inr (en 3)) ack (resolves_to (b_pub p)) NOW alice) (\<lambda>_ alice.
         unwrap (send_data D (Inr (en 4)) stream (ascii ''once'') NOW 0 alice) (\<lambda>data alice.
         unwrap (accept D (Inr (en 5)) data sender_is_alice NOW bob) (\<lambda>r bob.
           r = Event (EvData (ascii ''once'')) \<and>
         unwrap (accept D (Inr (en 6)) data sender_is_alice NOW bob) (\<lambda>r bob.
           r = Dropped Replay \<and>
           stream_count bob = 1 \<and> map_option session_state (session stream bob) = Some StOpen \<and>
         unwrap (send_data D (Inr (en 7)) stream (ascii ''twice'') NOW 0 alice) (\<lambda>nxt alice.
         unwrap (accept D (Inr (en 8)) nxt sender_is_alice NOW bob) (\<lambda>r bob.
           r = Event (EvData (ascii ''twice''))))))))))))"

definition inbound_reset_for_unknown_stream_does_not_beget_a_reset ::
    "'sk deps \<Rightarrow> (bytes32 \<Rightarrow> 'sk) \<Rightarrow> (nat \<Rightarrow> bytes32) \<Rightarrow> bool" where
  "inbound_reset_for_unknown_stream_does_not_beget_a_reset D derive en \<longleftrightarrow>
     (let p = pair D derive ''resetstorm'';
          alice = alice_of p;
          bob = bob_of p;
          sender_is_alice = resolves_to (a_pub p);
          ghost = cid D ''resetstorm/ghost''
      in unwrap (endpoint_open D (Inr (en 0)) ghost 1 NOW 0 alice) (\<lambda>_ alice.
         unwrap (endpoint_reset D (Inr (en 1)) ghost NOW 0 alice) (\<lambda>rst alice.
         unwrap (accept D (Inr (en 2)) rst sender_is_alice NOW bob) (\<lambda>r bob.
           is_dropped r \<and> stream_count bob = 0))))"

definition protocol_violation_on_established_stream_still_resets ::
    "'sk deps \<Rightarrow> (bytes32 \<Rightarrow> 'sk) \<Rightarrow> (nat \<Rightarrow> bytes32) \<Rightarrow> bool" where
  "protocol_violation_on_established_stream_still_resets D derive en \<longleftrightarrow>
     (let p = pair D derive ''legitreset'';
          alice = alice_of p;
          bob = bob_of p;
          sender_is_alice = resolves_to (a_pub p);
          sender_is_bob = resolves_to (b_pub p);
          stream = cid D ''legitreset/s''
      in unwrap (endpoint_open D (Inr (en 0)) stream 4 NOW 0 alice) (\<lambda>opn alice.
         unwrap (accept D (Inr (en 1)) opn sender_is_alice NOW bob) (\<lambda>_ bob.
         unwrap (open_ack D (Inr (en 2)) stream 4 NOW 0 bob) (\<lambda>ack bob.
         unwrap (accept D (Inr (en 3)) ack sender_is_bob NOW alice) (\<lambda>_ alice.
         unwrap (on_session stream (\<lambda>s. (Ok (), s\<lparr>ss_send_seq := 1\<rparr>)) alice) (\<lambda>_ alice.
         unwrap (send_data D (Inr (en 4)) stream (ascii ''gap'') NOW 0 alice) (\<lambda>bad alice.
         unwrap (accept D (Inr (en 5)) bad sender_is_alice NOW bob) (\<lambda>r bob.
           reset_for_protocol r \<and> stream_count bob = 0))))))))"

definition authenticated_frame_from_a_non_peer_sender_is_hard_dropped ::
    "'sk deps \<Rightarrow> (bytes32 \<Rightarrow> 'sk) \<Rightarrow> (nat \<Rightarrow> bytes32) \<Rightarrow> bool" where
  "authenticated_frame_from_a_non_peer_sender_is_hard_dropped D derive en \<longleftrightarrow>
     (let p = pair D derive ''senderbind'';
          eve_sk = test_sk D derive ''senderbind/eve'';
          eve_did = cid D ''senderbind/eve-did'';
          eve_pub = public_key_bytes (crypto D) eve_sk;
          bob = bob_of p;
          eve = endpoint_new eve_sk eve_did 0 (b_did p) (b_pub p) MT;
          permissive_resolver = (\<lambda>d epoch. if d = eve_did then Some eve_pub else Some (a_pub p));
          stream = cid D ''senderbind/s''
      in unwrap (endpoint_open D (Inr (en 0)) stream 4 NOW 0 eve) (\<lambda>opn eve.
         unwrap (accept D (Inr (en 1)) opn permissive_resolver NOW bob) (\<lambda>r bob.
           r = Dropped (StreamProtocol ''authenticated sender is not this stream's peer'') \<and>
           stream_count bob = 0)))"

definition duplicate_open_for_a_live_stream_drops_the_local_session_too ::
    "'sk deps \<Rightarrow> (bytes32 \<Rightarrow> 'sk) \<Rightarrow> (nat \<Rightarrow> bytes32) \<Rightarrow> bool" where
  "duplicate_open_for_a_live_stream_drops_the_local_session_too D derive en \<longleftrightarrow>
     (let p = pair D derive ''dupopen'';
          alice = alice_of p;
          bob = bob_of p;
          sender_is_alice = resolves_to (a_pub p);
          stream = cid D ''dupopen/s''
      in unwrap (endpoint_open D (Inr (en 0)) stream 4 NOW 0 alice) (\<lambda>opn alice.
         unwrap (accept D (Inr (en 1)) opn sender_is_alice NOW bob) (\<lambda>r bob.
           r = Event EvOpened \<and> stream_count bob = 1 \<and>
         (let alice = alice\<lparr>sessions := hm_remove stream (sessions alice)\<rparr>
          in unwrap (endpoint_open D (Inr (en 2)) stream 4 NOW 0 alice) (\<lambda>dup_open alice.
             unwrap (accept D (Inr (en 3)) dup_open sender_is_alice NOW bob) (\<lambda>r bob.
               reset_for_protocol r \<and> stream_count bob = 0))))))"

definition credit_grant_close_ack_and_peer_reset_round_trip ::
    "'sk deps \<Rightarrow> (bytes32 \<Rightarrow> 'sk) \<Rightarrow> (nat \<Rightarrow> bytes32) \<Rightarrow> bool" where
  "credit_grant_close_ack_and_peer_reset_round_trip D derive en \<longleftrightarrow>
     (let p = pair D derive ''credit'';
          alice = alice_of p;
          bob = bob_of p;
          sender_is_alice = resolves_to (a_pub p);
          sender_is_bob = resolves_to (b_pub p);
          stream = cid D ''credit/s''
      in unwrap (endpoint_open D (Inr (en 0)) stream 1 NOW 0 alice) (\<lambda>opn alice.
         unwrap (accept D (Inr (en 1)) opn sender_is_alice NOW bob) (\<lambda>_ bob.
         unwrap (open_ack D (Inr (en 2)) stream 1 NOW 0 bob) (\<lambda>ack bob.
         unwrap (accept D (Inr (en 3)) ack sender_is_bob NOW alice) (\<lambda>_ alice.
         unwrap (grant_credit D (Inr (en 4)) stream 3 NOW 0 bob) (\<lambda>credit bob.
         unwrap (accept D (Inr (en 5)) credit sender_is_bob NOW alice) (\<lambda>r alice.
           r = Event (EvCreditGranted 3) \<and>
           map_option send_credit (session stream alice) = Some 4 \<and>
         unwrap (endpoint_reset D (Inr (en 6)) stream NOW 0 bob) (\<lambda>rst bob.
         unwrap (accept D (Inr (en 7)) rst sender_is_bob NOW alice) (\<lambda>r alice.
           r = Event EvPeerReset \<and> stream_count alice = 0 \<and> stream_count bob = 0)))))))))"

definition close_ack_is_delivered ::
    "'sk deps \<Rightarrow> (bytes32 \<Rightarrow> 'sk) \<Rightarrow> (nat \<Rightarrow> bytes32) \<Rightarrow> bool" where
  "close_ack_is_delivered D derive en \<longleftrightarrow>
     (let p = pair D derive ''closeack'';
          alice = alice_of p;
          bob = bob_of p;
          sender_is_alice = resolves_to (a_pub p);
          sender_is_bob = resolves_to (b_pub p);
          stream = cid D ''closeack/s''
      in unwrap (endpoint_open D (Inr (en 0)) stream 2 NOW 0 alice) (\<lambda>opn alice.
         unwrap (accept D (Inr (en 1)) opn sender_is_alice NOW bob) (\<lambda>_ bob.
         unwrap (open_ack D (Inr (en 2)) stream 2 NOW 0 bob) (\<lambda>ack bob.
         unwrap (accept D (Inr (en 3)) ack sender_is_bob NOW alice) (\<lambda>_ alice.
         unwrap (endpoint_close D (Inr (en 4)) stream NOW 0 alice) (\<lambda>clo alice.
         unwrap (accept D (Inr (en 5)) clo sender_is_alice NOW bob) (\<lambda>_ bob.
         unwrap (seal_frame D (Inr (en 6)) stream (header CloseAck 0 0) [] NOW 0 bob) (\<lambda>close_ack bob.
         unwrap (accept D (Inr (en 7)) close_ack sender_is_bob NOW alice) (\<lambda>r alice.
           r = Event EvCloseAcked)))))))))"

definition endpoint_send_side_error_branches ::
    "'sk deps \<Rightarrow> (bytes32 \<Rightarrow> 'sk) \<Rightarrow> (nat \<Rightarrow> bytes32) \<Rightarrow> bool" where
  "endpoint_send_side_error_branches D derive en \<longleftrightarrow>
     (let p = pair D derive ''errs'';
          alice = alice_of p;
          stream = cid D ''errs/s''
      in unwrap_err (send_data D (Inr (en 0)) stream (ascii ''x'') NOW 0 alice) (\<lambda>x alice.
           is_protocol_error x \<and>
         unwrap (endpoint_open D (Inr (en 1)) stream 1 NOW 0 alice) (\<lambda>_ alice.
         unwrap_err (endpoint_open D (Inr (en 2)) stream 1 NOW 0 alice) (\<lambda>x alice.
           is_protocol_error x \<and>
         (let tight = with_max_concurrent 1 (alice_of p)
          in unwrap (endpoint_open D (Inr (en 3)) (cid D ''errs/only'') 1 NOW 0 tight) (\<lambda>_ tight.
             unwrap_err (endpoint_open D (Inr (en 4)) (cid D ''errs/2'') 1 NOW 0 tight) (\<lambda>x tight.
               x = StreamLimit 1)))))))"

section \<open>Running them\<close>

text \<open>The changing parts of the two endpoints at the start.\<close>

definition alice0 :: "'sk test_pair \<Rightarrow> 'sk stream_endpoint" where "alice0 p = alice_of p"

definition bob0 :: "'sk test_pair \<Rightarrow> 'sk stream_endpoint" where "bob0 p = bob_of p"

lemma start:
  "alice_of p = at_state (alice0 p) hm_new 0 guard_new" "bob_of p = at_state (bob0 p) hm_new 0 guard_new"
  by (simp_all add: alice0_def bob0_def alice_of_def bob_of_def endpoint_new_def at_state_def)

lemma pair_listens [simp]:
  "listens D (resolves_to (a_pub (pair D derive t))) (alice0 (pair D derive t)) (bob0 (pair D derive t))"
  "listens D (resolves_to (b_pub (pair D derive t))) (bob0 (pair D derive t)) (alice0 (pair D derive t))"
  by (simp_all add: listens_def resolves_to_def alice0_def bob0_def alice_of_def bob_of_def endpoint_new_def
      pair_def Let_def)

lemma pair_addressable [simp]:
  "addressable D (alice0 (pair D derive t))" "addressable D (bob0 (pair D derive t))"
  using pair_listens listens_addressable by blast+

lemma pair_cap [simp]: "max_concurrent (alice0 p) = 64" "max_concurrent (bob0 p) = 64"
  by (simp_all add: alice0_def bob0_def alice_of_def bob_of_def endpoint_new_def const_defs)

lemma capped: "with_max_concurrent n (at_state E m c g) = at_state (with_max_concurrent n E) m c g"
  by (simp add: with_max_concurrent_def at_state_def)

lemma capped_simps [simp]:
  "listens D rv A (with_max_concurrent n B) = listens D rv A B" "addressable D (with_max_concurrent n B) = addressable D B"
  "max_concurrent (with_max_concurrent n B) = n"
  by (simp_all add: with_max_concurrent_def listens_def addressable_def)

lemma timely_now [simp]: "timely NOW 0 NOW"
  by (simp add: timely_def check_expiry_def fresh_now)

lemma arrivingI:
  "carries D A k h d c NOW 0 e \<Longrightarrow> heard A c g \<Longrightarrow> listens D rv A B \<Longrightarrow> c \<noteq> -1 \<Longrightarrow> length d < MIN_COMPRESS_BYTES \<Longrightarrow>
    arriving D A k h d c e rv NOW B g"
  unfolding arriving_def using timely_now by blast

lemmas run_simps = hm_insert_def hm_remove_def hm_get_def hm_len_def hm_new_def session_ops session_fresh
  u64_from_def saturating_add_def is_closed_def session_state_def Let_def MIN_COMPRESS_BYTES_def
  send_credit_def

text \<open>Arrivals at the test's clock, by outcome.\<close>

context sealing
begin

lemmas opened = run_opened [OF arrivingI] and event = run_event [OF arrivingI]
  and peer_reset = run_peer_reset [OF arrivingI] and violation = run_violation [OF arrivingI]
  and dropped = run_dropped [OF arrivingI]
  and replayed = run_replayed [where ts = NOW and ex = 0 and now = NOW, OF _ _ timely_now]

lemmas call = run_open run_open_ack run_send_data run_grant_credit run_close run_reset run_on_session run_seal

lemma full_stream: "full_stream_round_trip_open_data_close D derive en"
  unfolding full_stream_round_trip_open_data_close_def Let_def start
  apply (rule call, (simp add: run_simps; fail)+)
  apply (rule opened, assumption, rule heard_new, (simp add: run_simps; fail)+)
  apply (rule conjI, simp)
  apply (rule call, (simp add: run_simps; fail)+)
  apply (rule event, assumption, rule heard_new, (simp add: run_simps; fail)+)
  apply (rule conjI, simp)
  apply (rule call, (simp add: run_simps; fail)+)
  apply (rule call, (simp add: run_simps; fail)+)
  apply (rule event, assumption, assumption, (simp add: run_simps; fail)+)
  apply (rule conjI, simp)
  apply (rule event, assumption, assumption, (simp add: run_simps; fail)+)
  apply (rule conjI, simp)
  apply (rule call, (simp add: run_simps; fail)+)
  apply (rule event, assumption, assumption, (simp add: run_simps; fail)+)
  done

lemma unknown_stream: "frame_for_unknown_stream_is_dropped_never_reset D derive en"
  unfolding frame_for_unknown_stream_is_dropped_never_reset_def Let_def start
  apply (rule call, (simp add: run_simps; fail)+)
  apply (rule call, (simp add: run_simps; fail)+)
  apply (rule call, (simp add: run_simps; fail)+)
  apply (rule dropped, assumption, rule heard_new, (simp add: run_simps; fail)+)
  done

lemma replayed_data: "replayed_data_on_a_live_stream_is_dropped_and_stream_survives D derive en"
  unfolding replayed_data_on_a_live_stream_is_dropped_and_stream_survives_def Let_def start
  apply (rule call, (simp add: run_simps; fail)+)
  apply (rule opened, assumption, rule heard_new, (simp add: run_simps; fail)+)
  apply (rule call, (simp add: run_simps; fail)+)
  apply (rule event, assumption, rule heard_new, (simp add: run_simps; fail)+)
  apply (rule call, (simp add: run_simps; fail)+)
  apply (rule event, assumption, assumption, (simp add: run_simps; fail)+)
  apply (rule conjI, simp)
  apply (rule replayed, assumption, (simp add: run_simps; fail), assumption, (simp add: run_simps; fail))
  apply (rule conjI, simp, rule conjI, simp add: run_simps, rule conjI, simp add: run_simps)
  apply (rule call, (simp add: run_simps; fail)+)
  apply (rule event, assumption, assumption, (simp add: run_simps; fail)+)
  done

lemma reset_storm: "inbound_reset_for_unknown_stream_does_not_beget_a_reset D derive en"
  unfolding inbound_reset_for_unknown_stream_does_not_beget_a_reset_def Let_def start
  apply (rule call, (simp add: run_simps; fail)+)
  apply (rule call, (simp add: run_simps; fail)+)
  apply (rule dropped, assumption, rule heard_new, (simp add: run_simps; fail)+)
  done

lemma legit_reset: "protocol_violation_on_established_stream_still_resets D derive en"
  unfolding protocol_violation_on_established_stream_still_resets_def Let_def start
  apply (rule call, (simp add: run_simps; fail)+)
  apply (rule opened, assumption, rule heard_new, (simp add: run_simps; fail)+)
  apply (rule call, (simp add: run_simps; fail)+)
  apply (rule event, assumption, rule heard_new, (simp add: run_simps; fail)+)
  apply (rule call, (simp add: run_simps; fail)+)
  apply (rule call, (simp add: run_simps; fail)+)
  apply (rule violation, assumption, assumption, (simp add: run_simps; fail)+)
  done

lemma stream_cap:
  assumes "distinct [cid D ''cap/0'', cid D ''cap/1'', cid D ''cap/3'']"
  shows "concurrent_stream_cap_rejects_the_nth_plus_one_open D derive en"
proof -
  have ne [simp]: "cid D ''cap/1'' \<noteq> cid D ''cap/0''" "cid D ''cap/3'' \<noteq> cid D ''cap/0''"
      "cid D ''cap/3'' \<noteq> cid D ''cap/1''" "cid D ''cap/0'' \<noteq> cid D ''cap/1''"
      "cid D ''cap/0'' \<noteq> cid D ''cap/3''" "cid D ''cap/1'' \<noteq> cid D ''cap/3''" using assms by auto
  show ?thesis
    unfolding concurrent_stream_cap_rejects_the_nth_plus_one_open_def Let_def start capped
    apply (rule call, (simp add: run_simps; fail)+)
    apply (rule opened, assumption, rule heard_new, (simp add: run_simps; fail)+)
    apply (rule conjI, simp)
    apply (rule call, (simp add: run_simps; fail)+)
    apply (rule opened, assumption, assumption, (simp add: run_simps; fail)+)
    apply (rule conjI, simp, rule conjI, simp add: run_simps)
    apply (rule call, (simp add: run_simps; fail)+)
    apply (rule violation [where x = "StreamLimit 2"], assumption, assumption, (simp add: run_simps; fail)+)
    done
qed

lemma foreign_sender:
  assumes "cid D ''senderbind/eve-did'' \<noteq> cid D ''senderbind/a-did''"
  shows "authenticated_frame_from_a_non_peer_sender_is_hard_dropped D derive en"
proof -
  let ?p = "pair D derive ''senderbind''" let ?sk = "test_sk D derive ''senderbind/eve''"
  let ?did = "cid D ''senderbind/eve-did''"
  let ?eve = "endpoint_new ?sk ?did 0 (b_did ?p) (b_pub ?p) MT"
  let ?rv = "\<lambda>d epoch. if d = ?did then Some (public_key_bytes (crypto D) ?sk) else Some (a_pub ?p)"
  have eve: "?eve = at_state ?eve hm_new 0 guard_new" by (simp add: endpoint_new_def at_state_def)
  have li: "listens D ?rv ?eve ((bob0 ?p)\<lparr>peer_did := local_did ?eve\<rparr>)"
    by (simp add: listens_def endpoint_new_def bob0_def bob_of_def pair_def Let_def)
  have fo: "local_did ?eve \<noteq> peer_did (bob0 ?p)"
    using assms by (simp add: endpoint_new_def bob0_def bob_of_def pair_def Let_def)
  show ?thesis
    unfolding authenticated_frame_from_a_non_peer_sender_is_hard_dropped_def Let_def start
    apply (subst eve)
    apply (rule call, rule listens_addressable [OF li], simp add: run_simps, simp add: run_simps endpoint_new_def MAX_CONCURRENT_STREAMS_def)
    apply (rule run_foreign [OF _ li timely_now _ _ _ fo], assumption, rule heard_new, (simp add: run_simps; fail)+)
    done
qed

lemma duplicate_open: "duplicate_open_for_a_live_stream_drops_the_local_session_too D derive en"
  unfolding duplicate_open_for_a_live_stream_drops_the_local_session_too_def Let_def start
  apply (rule call, (simp add: run_simps; fail)+)
  apply (rule opened, assumption, rule heard_new, (simp add: run_simps; fail)+)
  apply (rule conjI, simp, rule conjI, simp add: run_simps, unfold at_state_simps)
  apply (rule call, (simp add: run_simps; fail)+)
  apply (rule violation, assumption, assumption, (simp add: run_simps; fail)+)
  done

lemma credit_and_reset: "credit_grant_close_ack_and_peer_reset_round_trip D derive en"
  unfolding credit_grant_close_ack_and_peer_reset_round_trip_def Let_def start
  apply (rule call, (simp add: run_simps; fail)+)
  apply (rule opened, assumption, rule heard_new, (simp add: run_simps; fail)+)
  apply (rule call, (simp add: run_simps; fail)+)
  apply (rule event, assumption, rule heard_new, (simp add: run_simps; fail)+)
  apply (rule call, (simp add: run_simps; fail)+)
  apply (rule event, assumption, assumption, (simp add: run_simps; fail)+)
  apply (rule conjI, simp add: run_simps, rule conjI, simp add: run_simps)
  apply (rule call, (simp add: run_simps; fail)+)
  apply (rule peer_reset, assumption, assumption, (simp add: run_simps; fail)+)
  done

lemma close_ack: "close_ack_is_delivered D derive en"
  unfolding close_ack_is_delivered_def Let_def start
  apply (rule call, (simp add: run_simps; fail)+)
  apply (rule opened, assumption, rule heard_new, (simp add: run_simps; fail)+)
  apply (rule call, (simp add: run_simps; fail)+)
  apply (rule event, assumption, rule heard_new, (simp add: run_simps; fail)+)
  apply (rule call, (simp add: run_simps; fail)+)
  apply (rule event, assumption, assumption, (simp add: run_simps; fail)+)
  apply (rule call, (simp add: run_simps; fail)+)
  apply (rule event, assumption, assumption, (simp add: run_simps; fail)+)
  done

lemma send_side_errors:
  assumes "cid D ''errs/only'' \<noteq> cid D ''errs/2''"
  shows "endpoint_send_side_error_branches D derive en"
proof -
  have unknown: "send_data D en' k d ts ex (at_state E hm_new c g)
      = (Err (StreamProtocol ''unknown stream''), at_state E hm_new c g)" for en' k d ts ex E c g
    by (simp add: send_data_def on_session_def session_mut_def)
  have used: "endpoint_open D en' k w ts ex (at_state E (hm_insert k s m) c g)
      = (Err (StreamProtocol ''correlation_id already in use''), at_state E (hm_insert k s m) c g)"
    for en' k s m w ts ex E c g
    by (simp add: endpoint_open_def hm_contains_key_def)
  show ?thesis
    unfolding endpoint_send_side_error_branches_def Let_def start capped unknown unwrap_simps
    apply (rule conjI, simp)
    apply (rule call, (simp add: run_simps; fail)+)
    apply (unfold used unwrap_simps, rule conjI, simp)
    apply (rule call, (simp add: run_simps; fail)+)
    using assms by (simp add: endpoint_open_def run_simps hm_contains_key_def)
qed

end
end
