(* ===== verification/Layer_Tests.thy ===== *)
theory Layer_Tests
  imports Stream_Tests
begin

text \<open>
  The tests of \<open>src/transcript.rs\<close> and \<open>src/compression.rs\<close> that follow from what the libraries
  promise. A test that needs one fact more about a library (that two hashes differ, that zstd
  shrinks a repeating pattern) has it as a hypothesis.
\<close>

section \<open>The transcript\<close>

definition fields_of :: "bytes48 \<Rightarrow> bytes \<Rightarrow> transcript_fields" where
  "fields_of kem payload = \<lparr>
     tf_version = 1,
     tf_message_type = 0x201,
     tf_flags = 4,
     tf_correlation_id = array_of_byte 1,
     tf_sender = array_of_byte 2,
     tf_recipient = array_of_byte 3,
     tf_sender_epoch = 7,
     tf_counter = 42,
     tf_timestamp_ms = 1700000000000,
     tf_expires_at = 0,
     tf_stream = None,
     tf_kem_enc = kem,
     tf_compression = 0,
     tf_uncompressed_len = word_of_nat (length payload),
     tf_compressed_payload = payload\<rparr>"

definition signing_bytes_are_fixed_width_and_domain_prefixed :: "'sk crypto_lib \<Rightarrow> bool" where
  "signing_bytes_are_fixed_width_and_domain_prefixed C \<longleftrightarrow>
     (let bytes = signing_bytes C (fields_of (array_of_byte 4) (ascii ''hello''))
      in length bytes = length SIG_DOMAIN + TRANSCRIPT_LEN \<and> take (length SIG_DOMAIN) bytes = SIG_DOMAIN)"

definition signing_bytes_are_deterministic :: "'sk crypto_lib \<Rightarrow> bool" where
  "signing_bytes_are_deterministic C \<longleftrightarrow>
     signing_bytes C (fields_of (array_of_byte 4) (ascii ''abc''))
       = signing_bytes C (fields_of (array_of_byte 4) (ascii ''abc''))"

definition sign_then_verify_round_trips :: "'sk deps \<Rightarrow> (bytes32 \<Rightarrow> 'sk) \<Rightarrow> bool" where
  "sign_then_verify_round_trips D derive \<longleftrightarrow>
     (let sk = test_sk D derive ''transcript/sign'';
          pk = public_key_bytes (crypto D) sk;
          f = fields_of (array_of_byte 9) (ascii ''payload-bytes'');
          sig = transcript_sign (crypto D) f sk
      in transcript_verify (crypto D) f pk sig)"

definition payload_hash_is_bound_not_the_bytes :: "'sk crypto_lib \<Rightarrow> bool" where
  "payload_hash_is_bound_not_the_bytes C \<longleftrightarrow>
     signing_bytes C (fields_of (array_of_byte 9) (ascii ''one''))
       \<noteq> signing_bytes C (fields_of (array_of_byte 9) (ascii ''two''))"

definition stream_fields_are_bound :: "'sk crypto_lib \<Rightarrow> bool" where
  "stream_fields_are_bound C \<longleftrightarrow>
     (let f = fields_of (array_of_byte 9) (ascii ''x'');
          a = f\<lparr>tf_stream := Some \<lparr>hdr_frame = 2, hdr_seq = 5, hdr_window = 0\<rparr>\<rparr>;
          b = f\<lparr>tf_stream := Some \<lparr>hdr_frame = 2, hdr_seq = 6, hdr_window = 0\<rparr>\<rparr>
      in signing_bytes C a \<noteq> signing_bytes C b)"

lemma transcript_tests_pass:
  "signing_bytes_are_fixed_width_and_domain_prefixed C" "signing_bytes_are_deterministic C" "stream_fields_are_bound C"
  by (simp_all add: signing_bytes_are_fixed_width_and_domain_prefixed_def signing_bytes_are_deterministic_def
      stream_fields_are_bound_def Let_def length_signing_bytes signing_bytes_domain [simplified] signing_bytes_eq_iff
      same_transcript_def frame_and_seq_def)

lemma payload_hash_passes:
  "sha256 C (ascii ''one'') \<noteq> sha256 C (ascii ''two'') \<Longrightarrow> payload_hash_is_bound_not_the_bytes C"
  by (simp add: payload_hash_is_bound_not_the_bytes_def signing_bytes_eq_iff same_transcript_def fields_of_def)

lemma sign_verify_passes: "crypto_primitives (crypto D) \<Longrightarrow> sign_then_verify_round_trips D derive"
  by (simp add: sign_then_verify_round_trips_def Let_def transcript_verify_def transcript_sign_def
      crypto_primitives.verify_sign)

section \<open>Compression\<close>

definition compressible :: "nat \<Rightarrow> bytes" where
  "compressible n = map (\<lambda>i. word_of_nat (i mod 7)) [0..<n]"

definition small_payload_stays_raw :: "zstd_lib \<Rightarrow> bool" where
  "small_payload_stays_raw Z \<longleftrightarrow>
     (let payload = compressible (MIN_COMPRESS_BYTES - 1)
      in unwrapped (compress_payload Z payload) (\<lambda>out.
           cp_compression out = COMPRESSION_NONE \<and> cp_bytes out = payload \<and>
           unat (cp_uncompressed_len out) = length payload))"

definition large_compressible_payload_uses_zstd_and_round_trips :: "zstd_lib \<Rightarrow> bool" where
  "large_compressible_payload_uses_zstd_and_round_trips Z \<longleftrightarrow>
     (let payload = compressible 4096
      in unwrapped (compress_payload Z payload) (\<lambda>out.
           cp_compression out = COMPRESSION_ZSTD \<and> length (cp_bytes out) < length payload \<and>
         unwrapped (decompress_payload Z (cp_compression out) (cp_bytes out) (cp_uncompressed_len out)) (\<lambda>restored.
           restored = payload)))"

definition raw_round_trips :: "zstd_lib \<Rightarrow> bool" where
  "raw_round_trips Z \<longleftrightarrow>
     (let payload = compressible 16
      in unwrapped (compress_payload Z payload) (\<lambda>out.
         unwrapped (decompress_payload Z (cp_compression out) (cp_bytes out) (cp_uncompressed_len out)) (\<lambda>restored.
           restored = payload)))"

definition compression_is_deterministic :: "zstd_lib \<Rightarrow> bool" where
  "compression_is_deterministic Z \<longleftrightarrow>
     (let payload = compressible 2048
      in unwrapped (compress_payload Z payload) (\<lambda>a. unwrapped (compress_payload Z payload) (\<lambda>b. a = b)))"

definition unknown_compression_id_is_rejected :: "zstd_lib \<Rightarrow> bool" where
  "unknown_compression_id_is_rejected Z \<longleftrightarrow>
     decompress_payload Z 2 [1, 2, 3] 3 = Err (UnsupportedCompression 2)"

definition declared_length_over_cap_is_a_bomb :: "zstd_lib \<Rightarrow> bool" where
  "declared_length_over_cap_is_a_bomb Z \<longleftrightarrow>
     (let declared = word_of_nat (MAX_DECOMPRESSED_BYTES + 1)
      in decompress_payload Z COMPRESSION_ZSTD [] declared
           = Err (DecompressionBomb (unat declared) MAX_DECOMPRESSED_BYTES))"

definition zstd_bomb_that_underdeclares_output_is_rejected :: "zstd_lib \<Rightarrow> bool" where
  "zstd_bomb_that_underdeclares_output_is_rejected Z \<longleftrightarrow>
     (let payload = compressible 8192
      in unwrapped (compress_payload Z payload) (\<lambda>out.
           cp_compression out = COMPRESSION_ZSTD \<and>
           (case decompress_payload Z (cp_compression out) (cp_bytes out) 16 of
              Err (Codec m) \<Rightarrow> True
            | Err (DecompressedLengthMismatch e a) \<Rightarrow> True
            | _ \<Rightarrow> False)))"

definition raw_length_mismatch_is_rejected :: "zstd_lib \<Rightarrow> bool" where
  "raw_length_mismatch_is_rejected Z \<longleftrightarrow>
     decompress_payload Z COMPRESSION_NONE [1, 2, 3] 4 = Err (DecompressedLengthMismatch 4 3)"

text \<open>Two more facts about zstd: that it shrinks the pattern, and that it stops at its capacity.\<close>

definition shrinks :: "zstd_lib \<Rightarrow> bytes \<Rightarrow> bool" where
  "shrinks Z p \<longleftrightarrow> (\<exists>c. zstd_compress Z p ZSTD_LEVEL = Inr c \<and> length c < length p)"

locale zstd_bounded = zstd_codec +
  assumes overrun: "zstd_compress Z p l = Inr c \<Longrightarrow> cap < length p \<Longrightarrow> \<exists>x. zstd_decompress Z c cap = Inl x"
begin

lemma underdeclared:
  assumes "zstd_compress Z p l = Inr c" and "unat n < length p" and "unat n \<le> MAX_DECOMPRESSED_BYTES"
  shows "\<exists>x. decompress_payload Z COMPRESSION_ZSTD c n = Err (Codec x)"
  using overrun [OF assms(1,2)] assms(3) by (auto simp: decompress_payload_def COMPRESSION_NONE_def COMPRESSION_ZSTD_def)

end

interpretation rle: zstd_bounded rle_zstd
proof
  fix p l c cap
  assume "zstd_compress rle_zstd p l = Inr c" and "cap < length p"
  then show "\<exists>x. zstd_decompress rle_zstd c cap = Inl x"
    by (auto simp: rle_zstd_def rle_compress_def rle_decompress_def unsigned_of_nat
        take_bit_nat_eq_self split: if_splits)
qed

lemma length_compressible [simp]: "length (compressible n) = n"
  by (simp add: compressible_def)

lemma compresses:
  assumes "length m < MIN_COMPRESS_BYTES \<or> (\<exists>c. zstd_compress Z m ZSTD_LEVEL = Inr c)" and "length m < 2 ^ 32"
  shows "\<exists>c. compress_payload Z m = Ok c"
proof (cases "length m < MIN_COMPRESS_BYTES")
  case True
  then show ?thesis using assms(2) by (simp add: compress_payload_def u32_try_from_def)
next
  case False
  then obtain c where "zstd_compress Z m ZSTD_LEVEL = Inr c" using assms(1) by blast
  then show ?thesis using assms(2) False by (simp add: compress_payload_def u32_try_from_def)
qed

lemma compress_raw: "length p < MIN_COMPRESS_BYTES \<Longrightarrow> compress_payload Z p = Ok (raw p (word_of_nat (length p)))"
  by (simp add: compress_payload_def u32_try_from_def MIN_COMPRESS_BYTES_def)

lemma compress_shrinks:
  assumes "shrinks Z p" and "MIN_COMPRESS_BYTES \<le> length p" and "length p < 2 ^ 32"
  obtains c where "zstd_compress Z p ZSTD_LEVEL = Inr c" "length c < length p"
    "compress_payload Z p = Ok \<lparr>cp_compression = COMPRESSION_ZSTD, cp_bytes = c, cp_uncompressed_len = word_of_nat (length p)\<rparr>"
  using assms by (auto simp: shrinks_def compress_payload_def u32_try_from_def)

lemma compression_tests_pass:
  "small_payload_stays_raw Z" "raw_round_trips Z" "unknown_compression_id_is_rejected Z"
  "declared_length_over_cap_is_a_bomb Z" "raw_length_mismatch_is_rejected Z"
  by (simp_all add: small_payload_stays_raw_def raw_round_trips_def unknown_compression_id_is_rejected_def
      declared_length_over_cap_is_a_bomb_def raw_length_mismatch_is_rejected_def Let_def compress_raw raw_def
      decompress_payload_def const_defs)

lemma deterministic_compression_passes:
  "\<exists>c. zstd_compress Z (compressible 2048) ZSTD_LEVEL = Inr c \<Longrightarrow> compression_is_deterministic Z"
  using compresses [of "compressible 2048" Z] by (auto simp: compression_is_deterministic_def)

lemma large_compressible_passes:
  assumes "zstd_codec Z" and "shrinks Z (compressible 4096)"
  shows "large_compressible_payload_uses_zstd_and_round_trips Z"
proof -
  obtain c where c: "length c < length (compressible 4096)" "compress_payload Z (compressible 4096)
      = Ok \<lparr>cp_compression = COMPRESSION_ZSTD, cp_bytes = c, cp_uncompressed_len = word_of_nat (length (compressible 4096))\<rparr>"
    by (rule compress_shrinks [OF assms(2)]) (simp_all add: MIN_COMPRESS_BYTES_def)
  show ?thesis
    using zstd_codec.compress_round_trip [OF assms(1) c(2)] c
    by (simp add: large_compressible_payload_uses_zstd_and_round_trips_def MAX_DECOMPRESSED_BYTES_def)
qed

lemma zstd_bomb_passes:
  assumes "zstd_bounded Z" and "shrinks Z (compressible 8192)"
  shows "zstd_bomb_that_underdeclares_output_is_rejected Z"
proof -
  obtain c where c: "zstd_compress Z (compressible 8192) ZSTD_LEVEL = Inr c" "compress_payload Z (compressible 8192)
      = Ok \<lparr>cp_compression = COMPRESSION_ZSTD, cp_bytes = c, cp_uncompressed_len = word_of_nat (length (compressible 8192))\<rparr>"
    by (rule compress_shrinks [OF assms(2)]) (simp_all add: MIN_COMPRESS_BYTES_def)
  obtain x where "decompress_payload Z COMPRESSION_ZSTD c 16 = Err (Codec x)"
    using zstd_bounded.underdeclared [OF assms(1) c(1), of 16] by (auto simp: MAX_DECOMPRESSED_BYTES_def)
  then show ?thesis using c(2) by (simp add: zstd_bomb_that_underdeclares_output_is_rejected_def)
qed

end
