(* ===== verification/Seal_Tests.thy ===== *)
theory Seal_Tests
  imports Layer_Tests
begin

text \<open>
  The tests of \<open>src/seal.rs\<close> that follow from what the libraries promise, and two tests of
  \<open>src/stream.rs\<close> about the envelopes of an endpoint. A test that needs one fact more about a
  library (that a point of all ones is off the curve, that the tag is checked) has it as a
  hypothesis.
\<close>

section \<open>Parties and parameters\<close>

definition ephemeral :: "'sk deps \<Rightarrow> string \<Rightarrow> 'sk" where
  "ephemeral D label = sk_from_seed (crypto D) (sha256 (crypto D) (ascii label))"

definition did :: "u8 \<Rightarrow> bytes32" where
  "did n = array_of_byte n"

record 'sk test_party =
  party_sk :: 'sk
  party_did :: bytes32
  pub_key :: bytes48

definition party :: "'sk deps \<Rightarrow> (bytes32 \<Rightarrow> 'sk) \<Rightarrow> string \<Rightarrow> u8 \<Rightarrow> 'sk test_party" where
  "party D derive label did_byte =
     (let sk = test_sk D derive label
      in \<lparr>party_sk = sk, party_did = did did_byte, pub_key = public_key_bytes (crypto D) sk\<rparr>)"

definition params ::
    "'sk test_party \<Rightarrow> 'sk test_party \<Rightarrow> bytes \<Rightarrow> u64 \<Rightarrow> u64 \<Rightarrow> u64 \<Rightarrow> 'sk seal_params" where
  "params from recipient payload counter timestamp_ms expires_at = \<lparr>
     sp_sender_sk = party_sk from,
     sp_sender = party_did from,
     sp_sender_epoch = 0,
     sp_recipient = party_did recipient,
     sp_recipient_pub = pub_key recipient,
     sp_message_type = 0x201,
     sp_shape = OneShot,
     sp_correlation_id = did 0xAB,
     sp_stream = None,
     sp_counter = counter,
     sp_timestamp_ms = timestamp_ms,
     sp_expires_at = expires_at,
     sp_payload = payload\<rparr>"

definition kat_params :: "'sk deps \<Rightarrow> 'sk \<Rightarrow> bytes32 \<Rightarrow> bytes32 \<Rightarrow> bytes48 \<Rightarrow> bytes \<Rightarrow> 'sk seal_params" where
  "kat_params D sender_sk from recipient recipient_pub payload = \<lparr>
     sp_sender_sk = sender_sk,
     sp_sender = from,
     sp_sender_epoch = 0,
     sp_recipient = recipient,
     sp_recipient_pub = recipient_pub,
     sp_message_type = 0x10101,
     sp_shape = OneShot,
     sp_correlation_id = cid D ''kat/corr'',
     sp_stream = None,
     sp_counter = 0,
     sp_timestamp_ms = NOW,
     sp_expires_at = 0,
     sp_payload = payload\<rparr>"

section \<open>The tests of the seal\<close>

definition seal_open_round_trip_raw :: "'sk deps \<Rightarrow> (bytes32 \<Rightarrow> 'sk) \<Rightarrow> bool" where
  "seal_open_round_trip_raw D derive \<longleftrightarrow>
     (let alice = party D derive ''seal/alice'' 1;
          bob = party D derive ''seal/bob'' 2;
          msg = ascii ''hello bob''
      in unwrapped (seal_with_ephemeral D (params alice bob msg 0 NOW 0) (ephemeral D ''e1'')) (\<lambda>env.
         unwrap (open_message D (party_sk bob) env (resolves_to (pub_key alice)) guard_new NOW) (\<lambda>opn guard.
           om_payload opn = msg \<and> om_sender opn = party_did alice \<and> om_counter opn = 0)))"

definition unresolvable_sender_fails_closed :: "'sk deps \<Rightarrow> (bytes32 \<Rightarrow> 'sk) \<Rightarrow> bool" where
  "unresolvable_sender_fails_closed D derive \<longleftrightarrow>
     (let alice = party D derive ''seal/a5'' 1;
          bob = party D derive ''seal/b5'' 2
      in unwrapped (seal_with_ephemeral D (params alice bob (ascii ''x'') 0 NOW 0) (ephemeral D ''e5'')) (\<lambda>env.
         unwrap_err (open_message D (party_sk bob) env (\<lambda>_ _. None) guard_new NOW) (\<lambda>x guard.
           x = UnresolvableSender)))"

text \<open>\<open>ciphertext[last] ^= 0x01\<close>.\<close>

definition flip_last :: "dig_message_envelope \<Rightarrow> dig_message_envelope" where
  "flip_last e =
     (let ct = ciphertext (env_sealed e);
          last = length ct - 1
      in e\<lparr>env_sealed := (env_sealed e)\<lparr>ciphertext := ct[last := ct ! last XOR 1]\<rparr>\<rparr>)"

definition tampered_ciphertext_rejected :: "'sk deps \<Rightarrow> (bytes32 \<Rightarrow> 'sk) \<Rightarrow> bool" where
  "tampered_ciphertext_rejected D derive \<longleftrightarrow>
     (let alice = party D derive ''seal/a6'' 1;
          bob = party D derive ''seal/b6'' 2
      in unwrapped (seal_with_ephemeral D (params alice bob (ascii ''x'') 0 NOW 0) (ephemeral D ''e6'')) (\<lambda>env.
         unwrap_err (open_message D (party_sk bob) (flip_last env) (resolves_to (pub_key alice)) guard_new NOW)
           (\<lambda>x guard. x = OpenFailed)))"

definition non_subgroup_kem_enc_rejected :: "'sk deps \<Rightarrow> (bytes32 \<Rightarrow> 'sk) \<Rightarrow> bool" where
  "non_subgroup_kem_enc_rejected D derive \<longleftrightarrow>
     (let alice = party D derive ''seal/a8'' 1;
          bob = party D derive ''seal/b8'' 2
      in unwrapped (seal_with_ephemeral D (params alice bob (ascii ''x'') 0 NOW 0) (ephemeral D ''e8'')) (\<lambda>env.
         let env = env\<lparr>env_sealed := (env_sealed env)\<lparr>kem_enc := array_of_byte 0xFF\<rparr>\<rparr>
         in unwrap_err (open_message D (party_sk bob) env (resolves_to (pub_key alice)) guard_new NOW)
              (\<lambda>x guard. x = InvalidPoint)))"

definition bad_signature_rejected :: "'sk deps \<Rightarrow> (bytes32 \<Rightarrow> 'sk) \<Rightarrow> bool" where
  "bad_signature_rejected D derive \<longleftrightarrow>
     (let alice = party D derive ''seal/sigA'' 1;
          bob = party D derive ''seal/sigB'' 2;
          esk = ephemeral D ''esig''
      in unwrapped (compress_payload (zstd D) (ascii ''x'')) (\<lambda>compressed.
         let sender_pub = public_key_bytes (crypto D) (party_sk alice);
             kem = public_key_bytes (crypto D) esk
         in unwrapped (auth_encap_secret (crypto D) esk (party_sk alice) (pub_key bob)) (\<lambda>z.
            unwrapped (kdf (crypto D) z kem sender_pub (pub_key bob)) (\<lambda>okm.
            let inner = \<lparr>im_message_type = 0x201, im_correlation_id = did 0xAB,
                  im_compression = cp_compression compressed,
                  im_uncompressed_len = cp_uncompressed_len compressed, im_counter = 0,
                  im_timestamp_ms = NOW, im_expires_at = 0, im_payload = cp_bytes compressed,
                  im_sender_sig = array_of_byte 0\<rparr>
            in unwrapped (map_err Codec (to_bytes (inner_message_codec (chia D)) inner)) (\<lambda>inner_bytes.
               let env = \<lparr>env_version = VERSION, env_message_type = 0x201,
                     env_flags = as_bits OneShot OR FLAG_SEALED, env_correlation_id = did 0xAB,
                     env_sender = party_did alice, env_recipient = party_did bob, env_sender_epoch = 0,
                     env_stream = None, env_sealed = \<lparr>kem_enc = kem, ciphertext = []\<rparr>\<rparr>
               in unwrapped (header_bytes (chia D) env) (\<lambda>aad.
                  unwrapped (aead_seal (crypto D) okm aad inner_bytes) (\<lambda>ct.
                  let env = env\<lparr>env_sealed := (env_sealed env)\<lparr>ciphertext := ct\<rparr>\<rparr>
                  in unwrap_err (open_message D (party_sk bob) env (resolves_to (pub_key alice)) guard_new NOW)
                       (\<lambda>x guard. x = BadSignature))))))))"

definition replay_rejected :: "'sk deps \<Rightarrow> (bytes32 \<Rightarrow> 'sk) \<Rightarrow> bool" where
  "replay_rejected D derive \<longleftrightarrow>
     (let alice = party D derive ''seal/a9'' 1;
          bob = party D derive ''seal/b9'' 2
      in unwrapped (seal_with_ephemeral D (params alice bob (ascii ''x'') 0 NOW 0) (ephemeral D ''e9'')) (\<lambda>env.
         unwrap (open_message D (party_sk bob) env (resolves_to (pub_key alice)) guard_new NOW) (\<lambda>_ guard.
         unwrap_err (open_message D (party_sk bob) env (resolves_to (pub_key alice)) guard NOW) (\<lambda>x guard.
           x = Replay))))"

definition sealed_stale_timestamp_rejected :: "'sk deps \<Rightarrow> (bytes32 \<Rightarrow> 'sk) \<Rightarrow> bool" where
  "sealed_stale_timestamp_rejected D derive \<longleftrightarrow>
     (let alice = party D derive ''seal/a10'' 1;
          bob = party D derive ''seal/b10'' 2
      in unwrapped (seal_with_ephemeral D (params alice bob (ascii ''x'') 0 (NOW - 3600000) 0)
           (ephemeral D ''e10'')) (\<lambda>env.
         unwrap_err (open_message D (party_sk bob) env (resolves_to (pub_key alice)) guard_new NOW) (\<lambda>x guard.
           x = Replay)))"

definition in_window_reorder_accepted :: "'sk deps \<Rightarrow> (bytes32 \<Rightarrow> 'sk) \<Rightarrow> bool" where
  "in_window_reorder_accepted D derive \<longleftrightarrow>
     (let alice = party D derive ''seal/a11'' 1;
          bob = party D derive ''seal/b11'' 2;
          mk = (\<lambda>c label. seal_with_ephemeral D (params alice bob (ascii ''x'') c NOW 0) (ephemeral D label))
      in unwrapped (mk 5 ''e11-5'') (\<lambda>env.
         unwrap (open_message D (party_sk bob) env (resolves_to (pub_key alice)) guard_new NOW) (\<lambda>_ guard.
         unwrapped (mk 3 ''e11-3'') (\<lambda>env.
         unwrap (open_message D (party_sk bob) env (resolves_to (pub_key alice)) guard NOW) (\<lambda>_ guard.
         unwrapped (mk 3 ''e11-3'') (\<lambda>env.
         unwrap_err (open_message D (party_sk bob) env (resolves_to (pub_key alice)) guard NOW) (\<lambda>x guard.
           x = Replay)))))))"

definition expired_message_discarded :: "'sk deps \<Rightarrow> (bytes32 \<Rightarrow> 'sk) \<Rightarrow> bool" where
  "expired_message_discarded D derive \<longleftrightarrow>
     (let alice = party D derive ''seal/a12'' 1;
          bob = party D derive ''seal/b12'' 2
      in unwrapped (seal_with_ephemeral D (params alice bob (ascii ''x'') 0 NOW (NOW + 1000))
           (ephemeral D ''e12'')) (\<lambda>env.
         unwrap_err (open_message D (party_sk bob) env (resolves_to (pub_key alice)) guard_new (NOW + 5000))
           (\<lambda>x guard. x = Expired)))"

definition within_expiry_accepted :: "'sk deps \<Rightarrow> (bytes32 \<Rightarrow> 'sk) \<Rightarrow> bool" where
  "within_expiry_accepted D derive \<longleftrightarrow>
     (let alice = party D derive ''seal/a13'' 1;
          bob = party D derive ''seal/b13'' 2
      in unwrapped (seal_with_ephemeral D (params alice bob (ascii ''x'') 0 NOW (NOW + 60000))
           (ephemeral D ''e13'')) (\<lambda>env.
         unwrap (open_message D (party_sk bob) env (resolves_to (pub_key alice)) guard_new (NOW + 1000))
           (\<lambda>_ guard. True)))"

definition over_long_ttl_rejected :: "'sk deps \<Rightarrow> (bytes32 \<Rightarrow> 'sk) \<Rightarrow> bool" where
  "over_long_ttl_rejected D derive \<longleftrightarrow>
     (let alice = party D derive ''seal/a14'' 1;
          bob = party D derive ''seal/b14'' 2;
          expires = NOW + MAX_MESSAGE_TTL_MS + 10000
      in unwrapped (seal_with_ephemeral D (params alice bob (ascii ''x'') 0 NOW expires)
           (ephemeral D ''e14'')) (\<lambda>env.
         unwrap_err (open_message D (party_sk bob) env (resolves_to (pub_key alice)) guard_new NOW) (\<lambda>x guard.
           x = TtlTooLong)))"

definition self_addressed_round_trips :: "'sk deps \<Rightarrow> (bytes32 \<Rightarrow> 'sk) \<Rightarrow> bool" where
  "self_addressed_round_trips D derive \<longleftrightarrow>
     (let me = party D derive ''seal/self'' 7
      in unwrapped (seal_with_ephemeral D
           \<lparr>sp_sender_sk = party_sk me, sp_sender = party_did me, sp_sender_epoch = 0,
            sp_recipient = party_did me, sp_recipient_pub = pub_key me, sp_message_type = 0x601,
            sp_shape = OneShot, sp_correlation_id = did 0xCD, sp_stream = None, sp_counter = 0,
            sp_timestamp_ms = NOW, sp_expires_at = 0, sp_payload = ascii ''note to self''\<rparr>
           (ephemeral D ''eself'')) (\<lambda>env.
         unwrap (open_message D (party_sk me) env (resolves_to (pub_key me)) guard_new NOW) (\<lambda>opn guard.
           om_payload opn = ascii ''note to self'' \<and>
         unwrap_err (open_message D (party_sk me) env (resolves_to (pub_key me)) guard NOW) (\<lambda>x guard.
           x = Replay))))"

definition seal_message_uses_random_ephemeral_and_round_trips ::
    "'sk deps \<Rightarrow> (bytes32 \<Rightarrow> 'sk) \<Rightarrow> (nat \<Rightarrow> bytes32) \<Rightarrow> bool" where
  "seal_message_uses_random_ephemeral_and_round_trips D derive en \<longleftrightarrow>
     (let alice = party D derive ''seal/rand-a'' 1;
          bob = party D derive ''seal/rand-b'' 2;
          p = params alice bob (ascii ''random-ephemeral'') 0 NOW 0
      in unwrapped (seal_message D (Inr (en 0)) p) (\<lambda>env1.
         unwrapped (seal_message D (Inr (en 1)) p) (\<lambda>env2.
           kem_enc (env_sealed env1) \<noteq> kem_enc (env_sealed env2) \<and>
         unwrap (open_message D (party_sk bob) env1 (resolves_to (pub_key alice)) guard_new NOW) (\<lambda>opn guard.
           om_payload opn = ascii ''random-ephemeral''))))"

definition kat_seal_open_round_trip_raw_and_compressed :: "'sk deps \<Rightarrow> (bytes32 \<Rightarrow> 'sk) \<Rightarrow> bool" where
  "kat_seal_open_round_trip_raw_and_compressed D derive \<longleftrightarrow>
     (let alice = test_sk D derive ''kat/seal/alice'';
          bob = test_sk D derive ''kat/seal/bob'';
          b_pub = public_key_bytes (crypto D) bob
      in list_all (\<lambda>(label, msg).
           unwrapped (seal_with_ephemeral D (kat_params D alice (cid D ''kat/a'') (cid D ''kat/b'') b_pub msg)
             (ephemeral D label)) (\<lambda>env.
           unwrap (open_message D bob env (resolves_to (public_key_bytes (crypto D) alice)) guard_new NOW) (\<lambda>opn guard.
             om_payload opn = msg)))
         [(''raw'', ascii ''hi''), (''zstd'', map (\<lambda>i. word_of_nat (i mod 5)) [0..<2048])])"

definition kat_non_subgroup_kem_enc_rejected :: "'sk deps \<Rightarrow> (bytes32 \<Rightarrow> 'sk) \<Rightarrow> bool" where
  "kat_non_subgroup_kem_enc_rejected D derive \<longleftrightarrow>
     (let alice = test_sk D derive ''kat/sg/a'';
          bob = test_sk D derive ''kat/sg/b'';
          b_pub = public_key_bytes (crypto D) bob;
          p = kat_params D alice (cid D ''a'') (cid D ''b'') b_pub (ascii ''x'')
      in unwrapped (seal_with_ephemeral D p (ephemeral D ''sg'')) (\<lambda>env.
         let env = env\<lparr>env_sealed := (env_sealed env)\<lparr>kem_enc := array_of_byte 0xFF\<rparr>\<rparr>
         in unwrap_err (open_message D bob env (resolves_to (public_key_bytes (crypto D) alice)) guard_new NOW)
              (\<lambda>x guard. x = InvalidPoint)))"

definition kat_replay_and_expiry :: "'sk deps \<Rightarrow> (bytes32 \<Rightarrow> 'sk) \<Rightarrow> bool" where
  "kat_replay_and_expiry D derive \<longleftrightarrow>
     (let alice = test_sk D derive ''kat/re/a'';
          bob = test_sk D derive ''kat/re/b'';
          a_pub = public_key_bytes (crypto D) alice;
          b_pub = public_key_bytes (crypto D) bob;
          p = kat_params D alice (cid D ''a'') (cid D ''b'') b_pub (ascii ''x'')
      in unwrapped (seal_with_ephemeral D p (ephemeral D ''re0'')) (\<lambda>env.
         unwrap (open_message D bob env (resolves_to a_pub) guard_new NOW) (\<lambda>_ guard.
         unwrap_err (open_message D bob env (resolves_to a_pub) guard NOW) (\<lambda>x guard. x = Replay \<and>
         (let expiring_params = p\<lparr>sp_counter := 1, sp_expires_at := NOW + 1000\<rparr>
          in unwrapped (seal_with_ephemeral D expiring_params (ephemeral D ''re1'')) (\<lambda>expiring.
             unwrap_err (open_message D bob expiring (resolves_to a_pub) guard_new (NOW + 5000)) (\<lambda>x guard.
               x = Expired)))))))"

definition kat_self_addressed_round_trip :: "'sk deps \<Rightarrow> (bytes32 \<Rightarrow> 'sk) \<Rightarrow> bool" where
  "kat_self_addressed_round_trip D derive \<longleftrightarrow>
     (let me = test_sk D derive ''kat/self'';
          me_pub = public_key_bytes (crypto D) me;
          me_did = cid D ''kat/self/did'';
          p = kat_params D me me_did me_did me_pub (ascii ''note to self'')
      in unwrapped (seal_with_ephemeral D p (ephemeral D ''self'')) (\<lambda>env.
         unwrap (open_message D me env (resolves_to me_pub) guard_new NOW) (\<lambda>opn guard.
           om_payload opn = ascii ''note to self'')))"

section \<open>Running them\<close>

text \<open>What a guard remembers of one sender and epoch.\<close>

definition remembers :: "replay_guard \<Rightarrow> bytes32 \<times> u32 \<Rightarrow> nat set \<Rightarrow> bool" where
  "remembers g k H \<longleftrightarrow> (\<exists>F. guard_models g F \<and> F k = H)"

lemma remembers_new [simp]: "remembers guard_new k {}"
  unfolding remembers_def by (rule exI [of _ "\<lambda>_. {}"]) simp

lemma party_simps [simp]:
  "party_did (party D derive l n) = did n"
  "pub_key (party D derive l n) = public_key_bytes (crypto D) (party_sk (party D derive l n))"
  by (simp_all add: party_def Let_def)

lemma did_eq_iff [simp]: "did m = did n \<longleftrightarrow> m = n"
  by (simp add: did_def)

lemma params_addressed [simp]:
  "addressed D (party_sk (party D derive l n)) (resolves_to (public_key_bytes (crypto D) (party_sk a)))
     (params a (party D derive l n) m c ts ex)"
  "addressed D rsk (resolves_to (public_key_bytes (crypto D) sk)) (kat_params D sk x y (public_key_bytes (crypto D) rsk) m)"
  "addressed D rsk (resolves_to (public_key_bytes (crypto D) sk))
     (kat_params D sk x y (public_key_bytes (crypto D) rsk) m\<lparr>sp_counter := c, sp_expires_at := ex\<rparr>)"
  by (simp_all add: addressed_def params_def kat_params_def resolves_to_def)

lemma params_simps [simp]:
  "sp_payload (params a b m c ts ex) = m" "sp_timestamp_ms (params a b m c ts ex) = ts"
  "sp_expires_at (params a b m c ts ex) = ex" "sp_counter (params a b m c ts ex) = c"
  "sp_sender (params a b m c ts ex) = party_did a" "sp_sender_epoch (params a b m c ts ex) = 0"
  "sp_payload (kat_params D sk x y q m) = m" "sp_timestamp_ms (kat_params D sk x y q m) = NOW"
  "sp_expires_at (kat_params D sk x y q m) = 0" "sp_counter (kat_params D sk x y q m) = 0"
  "sp_sender (kat_params D sk x y q m) = x" "sp_sender_epoch (kat_params D sk x y q m) = 0"
  by (simp_all add: params_def kat_params_def)

lemma opened_of_simps [simp]:
  "om_payload (opened_of p) = sp_payload p" "om_sender (opened_of p) = sp_sender p"
  "om_counter (opened_of p) = sp_counter p"
  by (simp_all add: opened_of_def)

context sealing
begin

lemma run_seal_params:
  assumes "addressed D rsk rv p"
    and "length (sp_payload p) < MIN_COMPRESS_BYTES \<or> (\<exists>c. zstd_compress (zstd D) (sp_payload p) ZSTD_LEVEL = Inr c)"
    and "length (sp_payload p) < 2 ^ 32"
    and "\<And>e. seal_with_ephemeral D p esk = Ok e \<Longrightarrow> Q e"
  shows "unwrapped (seal_with_ephemeral D p esk) Q"
proof -
  obtain c where c: "compress_payload (zstd D) (sp_payload p) = Ok c" using compresses [OF assms(2,3)] by blast
  have "sp_recipient_pub p = public_key_bytes (crypto D) rsk" using assms(1) by (simp add: addressed_def)
  then obtain e where e: "seal_with_ephemeral D p esk = Ok e" using seal_total [OF c] by blast
  then show ?thesis using assms(4) by simp
qed

lemma run_open_message:
  assumes "seal_with_ephemeral D p esk = Ok e" and "addressed D rsk rv p" and "remembers g k H"
    and "(sp_sender p, sp_sender_epoch p) = k" and "unat (sp_counter p) = n"
    and "length (sp_payload p) \<le> MAX_DECOMPRESSED_BYTES"
    and "check_expiry (sp_timestamp_ms p) (sp_expires_at p) now = Ok ()"
    and "fresh (sp_timestamp_ms p) now" and "accepts H n"
    and "\<And>g'. remembers g' k (insert n H) \<Longrightarrow> Q (opened_of p) g'"
  shows "unwrap (open_message D rsk e rv g now) Q"
proof -
  obtain F where F: "guard_models g F" "F k = H" using assms(3) by (auto simp: remembers_def)
  obtain g' F' where "open_message D rsk e rv g now = (Ok (opened_of p), g')" "guard_models g' F'"
      "F' k = insert n H"
    using open_sealed [OF assms(1,2) F(1) assms(6,7)] assms(4,5,8,9) F(2) by (auto simp: remember_def)
  then show ?thesis using assms(10) [of g'] by (auto simp: remembers_def)
qed

lemma run_open_replay:
  assumes "seal_with_ephemeral D p esk = Ok e" and "addressed D rsk rv p" and "remembers g k H"
    and "(sp_sender p, sp_sender_epoch p) = k"
    and "length (sp_payload p) \<le> MAX_DECOMPRESSED_BYTES"
    and "check_expiry (sp_timestamp_ms p) (sp_expires_at p) now = Ok ()"
    and "\<not> (fresh (sp_timestamp_ms p) now \<and> accepts H (unat (sp_counter p)))"
    and "\<And>g'. Q Replay g'"
  shows "unwrap_err (open_message D rsk e rv g now) Q"
proof -
  obtain F where F: "guard_models g F" "F k = H" using assms(3) by (auto simp: remembers_def)
  obtain g' where "open_message D rsk e rv g now = (Err Replay, g')"
    using open_sealed [OF assms(1,2) F(1) assms(5,6)] assms(4,7) F(2) by auto
  then show ?thesis using assms(8) by simp
qed

lemma run_open_untimely:
  assumes "seal_with_ephemeral D p esk = Ok e" and "addressed D rsk rv p"
    and "check_expiry (sp_timestamp_ms p) (sp_expires_at p) now = Err x" and "Q x g"
  shows "unwrap_err (open_message D rsk e rv g now) Q"
proof -
  have "open_inner D rsk e rv now = Err x"
    using open_inner_sealed [OF assms(1,2), of now] assms(3) by auto
  then show ?thesis using assms(4) by (simp add: open_message_def)
qed

end

lemma expiry_now [simp]:
  "check_expiry ts 0 now = Ok ()" "check_expiry NOW (NOW + 60000) (NOW + 1000) = Ok ()"
  "check_expiry NOW (NOW + 1000) (NOW + 5000) = Err Expired"
  "check_expiry NOW (NOW + MAX_MESSAGE_TTL_MS + 10000) NOW = Err TtlTooLong"
  by (simp_all add: check_expiry_def NOW_def saturating_add_def MAX_MESSAGE_TTL_MS_def)

lemma fresh_later [simp]: "fresh NOW NOW" "fresh NOW (NOW + 1000)" "\<not> fresh (NOW - 3600000) NOW"
  by (simp_all add: fresh_iff NOW_def)

lemma accepts_first [simp]: "accepts {} n"
  by (simp add: accepts_def)

lemma accepts_again [simp]: "\<not> accepts (insert n H) n"
  by (simp add: accepts_def)

lemmas sizes = MIN_COMPRESS_BYTES_def MAX_DECOMPRESSED_BYTES_def

context sealing
begin

lemmas sealed = run_seal_params [OF params_addressed(1)] run_seal_params [OF params_addressed(2)]
    run_seal_params [OF params_addressed(3)]
  and opens = run_open_message [OF _ params_addressed(1)] run_open_message [OF _ params_addressed(2)]
    run_open_message [OF _ params_addressed(3)]
  and replays = run_open_replay [OF _ params_addressed(1)] run_open_replay [OF _ params_addressed(2)]
    run_open_replay [OF _ params_addressed(3)]
  and untimely = run_open_untimely [OF _ params_addressed(1)] run_open_untimely [OF _ params_addressed(2)]
    run_open_untimely [OF _ params_addressed(3)]

lemma raw_round_trip_passes: "seal_open_round_trip_raw D derive"
  unfolding seal_open_round_trip_raw_def Let_def party_simps
  apply (rule sealed, (simp add: sizes; fail)+)
  apply (rule opens, assumption, rule remembers_new, (simp add: sizes; fail)+)
  done

lemma replay_passes: "replay_rejected D derive"
  unfolding replay_rejected_def Let_def party_simps
  apply (rule sealed, (simp add: sizes; fail)+)
  apply (rule opens, assumption, rule remembers_new, (simp add: sizes; fail)+)
  apply (rule replays, assumption, assumption, (simp add: sizes; fail)+)
  done

lemma stale_passes: "sealed_stale_timestamp_rejected D derive"
  unfolding sealed_stale_timestamp_rejected_def Let_def party_simps
  apply (rule sealed, (simp add: sizes; fail)+)
  apply (rule replays, assumption, rule remembers_new, (simp add: sizes; fail)+)
  done

lemma reorder_passes: "in_window_reorder_accepted D derive"
  unfolding in_window_reorder_accepted_def Let_def party_simps
  apply (rule sealed, (simp add: sizes; fail)+)
  apply (rule opens, assumption, rule remembers_new, (simp add: sizes; fail)+)
  apply (rule sealed, (simp add: sizes; fail)+)
  apply (rule opens, assumption, assumption, (simp add: sizes accepts_def REPLAY_WINDOW_def; fail)+)
  apply (rule sealed, (simp add: sizes; fail)+)
  apply (rule replays, assumption, assumption, (simp add: sizes; fail)+)
  done

lemma expired_passes: "expired_message_discarded D derive"
  unfolding expired_message_discarded_def Let_def party_simps
  apply (rule sealed, (simp add: sizes; fail)+)
  apply (rule untimely, assumption, (simp; fail)+)
  done

lemma within_expiry_passes: "within_expiry_accepted D derive"
  unfolding within_expiry_accepted_def Let_def party_simps
  apply (rule sealed, (simp add: sizes; fail)+)
  apply (rule opens, assumption, rule remembers_new, (simp add: sizes; fail)+)
  done

lemma over_long_passes: "over_long_ttl_rejected D derive"
  unfolding over_long_ttl_rejected_def Let_def party_simps
  apply (rule sealed, (simp add: sizes; fail)+)
  apply (rule untimely, assumption, (simp; fail)+)
  done

lemma self_addressed_passes: "self_addressed_round_trips D derive"
proof -
  let ?me = "party D derive ''seal/self'' 7"
  let ?p = "\<lparr>sp_sender_sk = party_sk ?me, sp_sender = party_did ?me, sp_sender_epoch = 0,
    sp_recipient = party_did ?me, sp_recipient_pub = pub_key ?me, sp_message_type = 0x601,
    sp_shape = OneShot, sp_correlation_id = did 0xCD, sp_stream = None, sp_counter = 0,
    sp_timestamp_ms = NOW, sp_expires_at = 0, sp_payload = ascii ''note to self''\<rparr>"
  have to: "addressed D (party_sk ?me) (resolves_to (pub_key ?me)) ?p"
    by (simp add: addressed_def resolves_to_def)
  show ?thesis
    unfolding self_addressed_round_trips_def Let_def
    apply (rule run_seal_params [OF to], (simp add: sizes; fail)+)
    apply (rule run_open_message [OF _ to], assumption, rule remembers_new, (simp add: sizes; fail)+)
    apply (rule conjI, simp)
    apply (rule run_open_replay [OF _ to], assumption, assumption, (simp add: sizes; fail)+)
    done
qed

lemma kat_round_trips:
  assumes "\<exists>c. zstd_compress (zstd D) (map (\<lambda>i. word_of_nat (i mod 5)) [0..<2048]) ZSTD_LEVEL = Inr c"
  shows "kat_seal_open_round_trip_raw_and_compressed D derive"
  unfolding kat_seal_open_round_trip_raw_and_compressed_def Let_def list.pred_inject prod.case
  apply (intro conjI)
  apply (rule sealed, (simp add: sizes; fail)+)
  apply (rule opens, assumption, rule remembers_new, (simp add: sizes; fail)+)
  apply (rule sealed, rule disjI2, simp only: params_simps, rule assms, (simp add: sizes; fail)+)
  apply (rule opens, assumption, rule remembers_new, (simp add: sizes; fail)+)
  done

lemma kat_replay_and_expiry_passes: "kat_replay_and_expiry D derive"
  unfolding kat_replay_and_expiry_def Let_def
  apply (rule sealed, (simp add: sizes; fail)+)
  apply (rule opens, assumption, rule remembers_new, (simp add: sizes; fail)+)
  apply (rule replays, assumption, assumption, (simp add: sizes; fail)+)
  apply (rule conjI, simp)
  apply (rule sealed, (simp add: sizes; fail)+)
  apply (rule untimely, assumption, (simp; fail)+)
  done

lemma kat_self_addressed_passes: "kat_self_addressed_round_trip D derive"
  unfolding kat_self_addressed_round_trip_def Let_def
  apply (rule sealed, (simp add: sizes; fail)+)
  apply (rule opens, assumption, rule remembers_new, (simp add: sizes; fail)+)
  done

end

section \<open>Malformed envelopes\<close>

text \<open>
  The tag of an encryption is its last part, and decryption recomputes it: a ciphertext with
  another last byte is refused.
\<close>

locale tag_checked =
  fixes C :: "'sk crypto_lib"
  assumes tagged: "chacha_encrypt C k n aad m = Some c \<Longrightarrow> c \<noteq> []"
    and wrong_tag: "chacha_encrypt C k n aad m = Some c \<Longrightarrow> b \<noteq> last c \<Longrightarrow>
      chacha_decrypt C k n aad (butlast c @ [b]) = None"
begin

lemma aead_seal_nonempty: "aead_seal C o' aad m = Ok c \<Longrightarrow> c \<noteq> []"
  using tagged by (simp add: aead_seal_def result_elims) blast

lemma aead_open_wrong_tag:
  assumes "aead_seal C o' aad m = Ok c" and "b \<noteq> last c"
  shows "aead_open C o' aad (butlast c @ [b]) = Err OpenFailed"
proof -
  obtain k :: bytes32 and n :: "12 byte_array" where
    "try_into (take 32 (as_ref o')) = Some k" "try_into (drop 32 (as_ref o')) = Some n"
    using okm_key okm_nonce by blast
  moreover from this have "chacha_encrypt C k n aad m = Some c"
    using assms(1) by (simp add: aead_seal_def)
  ultimately show ?thesis using wrong_tag assms(2) by (simp add: aead_open_def)
qed

end

interpretation sum: tag_checked sum_crypto
proof
  fix k :: bytes32 and n :: "12 byte_array" and aad m c b
  assume c: "chacha_encrypt sum_crypto k n aad m = Some c"
  then show "c \<noteq> []" by (auto simp: sum_crypto_def)
  assume "b \<noteq> last c"
  with c show "chacha_decrypt sum_crypto k n aad (butlast c @ [b]) = None"
    by (cases m rule: rev_cases) (auto simp: sum_crypto_def byte_sum_def)
qed

lemma list_update_last_butlast: "xs \<noteq> [] \<Longrightarrow> xs[length xs - Suc 0 := x] = butlast xs @ [x]"
  by (cases xs rule: rev_cases) simp_all

lemma flip_byte: "(x :: u8) XOR 1 \<noteq> x"
proof
  assume "x XOR 1 = x"
  then have "x XOR (x XOR 1) = x XOR x" by simp
  then show False by (simp flip: xor.assoc)
qed

context sealing
begin

lemma open_flipped:
  assumes "tag_checked (crypto D)" and seal: "seal_with_ephemeral D p esk = Ok e" and to: "addressed D rsk rv p"
  shows "open_message D rsk (flip_last e) rv g now = (Err OpenFailed, g)"
  using seal
proof (rule seal_with_ephemeral_inner)
  fix c z okm sig aad b
  let ?ct = "ciphertext (env_sealed e)"
  assume z: "auth_encap_secret (crypto D) esk (sp_sender_sk p) (sp_recipient_pub p) = Ok z"
    and okm: "kdf (crypto D) z (kem_enc (env_sealed e)) (public_key_bytes (crypto D) (sp_sender_sk p))
        (sp_recipient_pub p) = Ok okm"
    and aad: "header_bytes (chia D) e = Ok aad"
    and ct: "aead_seal (crypto D) okm aad b = Ok ?ct"
  have e: "sealed_for D p esk e" by (rule seal_with_ephemeral_fields [OF seal])
  have z': "auth_decap_secret (crypto D) rsk (public_key_bytes (crypto D) (sp_sender_sk p))
      (kem_enc (env_sealed e)) = Ok z"
    using z to e crypto.encap_decap [of esk "sp_sender_sk p" rsk] by (simp add: addressed_def sealed_for_def)
  have ne: "?ct \<noteq> []" by (rule tag_checked.aead_seal_nonempty [OF assms(1) ct])
  have flipped: "ciphertext (env_sealed (flip_last e)) = butlast ?ct @ [last ?ct XOR 1]"
    using ne by (simp add: flip_last_def Let_def list_update_last_butlast last_conv_nth)
  have same: "header_bytes (chia D) (flip_last e) = header_bytes (chia D) e" "env_flags (flip_last e) = env_flags e"
      "env_sender (flip_last e) = env_sender e" "env_sender_epoch (flip_last e) = env_sender_epoch e"
      "kem_enc (env_sealed (flip_last e)) = kem_enc (env_sealed e)"
    by (simp_all add: flip_last_def Let_def header_bytes_sealed)
  have "aead_open (crypto D) okm aad (ciphertext (env_sealed (flip_last e))) = Err OpenFailed"
    unfolding flipped by (rule tag_checked.aead_open_wrong_tag [OF assms(1) ct flip_byte])
  then have "open_inner D rsk (flip_last e) rv now = Err OpenFailed"
    using e to z' okm aad
    by (simp add: open_inner_def same Let_def addressed_def sealed_for_def crypto.public_key_in_subgroup)
  then show ?thesis by (simp add: open_message_def)
qed

lemma tampered_passes: "tag_checked (crypto D) \<Longrightarrow> tampered_ciphertext_rejected D derive"
  unfolding tampered_ciphertext_rejected_def Let_def party_simps
  apply (rule sealed, (simp add: sizes; fail)+)
  apply (subst open_flipped, assumption, assumption, simp, simp)
  done

lemma unresolvable_passes: "unresolvable_sender_fails_closed D derive"
proof -
  have "open_message D rsk e (\<lambda>_ _. None) g now = (Err UnresolvableSender, g)" for rsk e g now
    using from_flags_total [of "env_flags e"] by (auto simp: open_message_def open_inner_def)
  then show ?thesis
    unfolding unresolvable_sender_fails_closed_def Let_def party_simps
    by (intro sealed) (simp_all add: sizes)
qed

lemma off_curve:
  assumes "\<not> g1_subgroup_check (crypto D) (array_of_byte 0xFF)"
  shows "open_message D rsk (e\<lparr>env_sealed := (env_sealed e)\<lparr>kem_enc := array_of_byte 0xFF\<rparr>\<rparr>) (resolves_to pk) g now
    = (Err InvalidPoint, g)"
  using assms from_flags_total [of "env_flags e"]
  by (auto simp: open_message_def open_inner_def resolves_to_def)

lemma non_subgroup_passes:
  assumes "\<not> g1_subgroup_check (crypto D) (array_of_byte 0xFF)"
  shows "non_subgroup_kem_enc_rejected D derive" and "kat_non_subgroup_kem_enc_rejected D derive"
  unfolding non_subgroup_kem_enc_rejected_def kat_non_subgroup_kem_enc_rejected_def Let_def party_simps
    off_curve [OF assms]
  by (rule sealed, (simp add: sizes; fail)+)+

text \<open>Everything about this envelope is right but its signature.\<close>

lemma open_unsigned:
  assumes "kem_enc (env_sealed e) = public_key_bytes (crypto D) esk"
    and "rv (env_sender e) (env_sender_epoch e) = Some (public_key_bytes (crypto D) ssk)"
    and z: "auth_encap_secret (crypto D) esk ssk (public_key_bytes (crypto D) rsk) = Ok z"
    and "kdf (crypto D) z (public_key_bytes (crypto D) esk) (public_key_bytes (crypto D) ssk)
          (public_key_bytes (crypto D) rsk) = Ok okm"
    and "header_bytes (chia D) e = Ok aad" and ct: "aead_seal (crypto D) okm aad b = Ok (ciphertext (env_sealed e))"
    and b: "to_bytes (inner_message_codec (chia D)) inner = Inr b"
    and "\<not> transcript_verify (crypto D) (opened_transcript e inner) (public_key_bytes (crypto D) ssk) (im_sender_sig inner)"
  shows "open_message D rsk e rv g now = (Err BadSignature, g)"
proof -
  obtain shape where "from_flags (env_flags e) = Some shape" using from_flags_total by blast
  moreover have "auth_decap_secret (crypto D) rsk (public_key_bytes (crypto D) ssk) (public_key_bytes (crypto D) esk) = Ok z"
    using z crypto.encap_decap [of esk ssk rsk] by simp
  ultimately have "open_inner D rsk e rv now = Err BadSignature"
    using assms(1,2,4,5,8) crypto.aead_open_seal [OF ct] chia.inner_round_trip [OF b]
    by (simp add: open_inner_def Let_def crypto.public_key_in_subgroup)
  then show ?thesis by (simp add: open_message_def)
qed

lemma bad_signature_passes:
  assumes "\<And>pk m. \<not> verify_signature (crypto D) pk m (array_of_byte 0)"
  shows "bad_signature_rejected D derive"
proof -
  let ?a = "party D derive ''seal/sigA'' 1" let ?b = "party D derive ''seal/sigB'' 2" let ?esk = "ephemeral D ''esig''"
  have c: "compress_payload (zstd D) (ascii ''x'') = Ok (raw (ascii ''x'') 1)"
    by (simp add: compress_payload_def u32_try_from_def MIN_COMPRESS_BYTES_def)
  obtain z where z: "auth_encap_secret (crypto D) ?esk (party_sk ?a) (public_key_bytes (crypto D) (party_sk ?b)) = Ok z"
    using crypto.encap_Ok by blast
  obtain okm where okm: "kdf (crypto D) z (public_key_bytes (crypto D) ?esk) (public_key_bytes (crypto D) (party_sk ?a))
      (public_key_bytes (crypto D) (party_sk ?b)) = Ok okm" using crypto.kdf_Ok by blast
  let ?inner = "\<lparr>im_message_type = 0x201, im_correlation_id = did 0xAB, im_compression = COMPRESSION_NONE,
    im_uncompressed_len = 1, im_counter = 0, im_timestamp_ms = NOW, im_expires_at = 0, im_payload = ascii ''x'',
    im_sender_sig = array_of_byte 0\<rparr> :: inner_message"
  let ?env = "\<lambda>ct. \<lparr>env_version = VERSION, env_message_type = 0x201, env_flags = as_bits OneShot OR FLAG_SEALED,
    env_correlation_id = did 0xAB, env_sender = did 1, env_recipient = did 2, env_sender_epoch = 0, env_stream = None,
    env_sealed = \<lparr>kem_enc = public_key_bytes (crypto D) ?esk, ciphertext = ct\<rparr>\<rparr> :: dig_message_envelope"
  obtain b where b: "to_bytes (inner_message_codec (chia D)) ?inner = Inr b" "length b < 2 ^ 38 - 64"
    using chia.len_inner [of ?inner] by (auto simp: inner_size_def)
  obtain aad where aad: "header_bytes (chia D) (?env []) = Ok aad" using chia.header_bytes_Ok by blast
  obtain ct where ct: "aead_seal (crypto D) okm aad b = Ok ct" using crypto.aead_seal_Ok [OF b(2)] by blast
  have "header_bytes (chia D) (?env ct) = Ok aad"
    using aad header_bytes_sealed [where L = "chia D" and e = "?env []" and
        s = "\<lparr>kem_enc = public_key_bytes (crypto D) ?esk, ciphertext = ct\<rparr>"]
    by simp
  then have "open_message D (party_sk ?b) (?env ct) (resolves_to (public_key_bytes (crypto D) (party_sk ?a))) guard_new NOW
      = (Err BadSignature, guard_new)"
    by (intro open_unsigned [where esk = ?esk and ssk = "party_sk ?a" and z = z and okm = okm and aad = aad and b = b
          and inner = ?inner] z okm b(1))
      (use ct assms in \<open>simp_all add: resolves_to_def transcript_verify_def\<close>)
  then show ?thesis
    using aad by (simp add: bad_signature_rejected_def Let_def c raw_def z okm b(1) ct)
qed

lemma random_ephemeral_passes:
  assumes "public_key_bytes (crypto D) (sk_from_seed (crypto D) (en 0))
    \<noteq> public_key_bytes (crypto D) (sk_from_seed (crypto D) (en 1))"
  shows "seal_message_uses_random_ephemeral_and_round_trips D derive en"
  unfolding seal_message_uses_random_ephemeral_and_round_trips_def Let_def party_simps seal_message_ephemeral
  apply (rule sealed, (simp add: sizes; fail)+)
  apply (rule sealed, (simp add: sizes; fail)+)
  apply (rule conjI)
  apply (use assms in \<open>auto simp: sealed_for_def dest!: seal_with_ephemeral_fields\<close>)[1]
  apply (rule opens, assumption, rule remembers_new, (simp add: sizes; fail)+)
  done

end

section \<open>Frames\<close>

text \<open>Two tests of \<open>src/stream.rs\<close> about the envelopes of an endpoint.\<close>

definition failed_verify_frame_is_dropped_never_reset ::
    "'sk deps \<Rightarrow> (bytes32 \<Rightarrow> 'sk) \<Rightarrow> (nat \<Rightarrow> bytes32) \<Rightarrow> bool" where
  "failed_verify_frame_is_dropped_never_reset D derive en \<longleftrightarrow>
     (let p = pair D derive ''badverify'';
          alice = alice_of p;
          bob = bob_of p;
          sender_is_alice = resolves_to (a_pub p);
          stream = cid D ''badverify/s''
      in unwrap (endpoint_open D (Inr (en 0)) stream 4 NOW 0 alice) (\<lambda>opn alice.
         unwrap (accept D (Inr (en 1)) (flip_last opn) sender_is_alice NOW bob) (\<lambda>r bob.
           r = Dropped OpenFailed \<and> stream_count bob = 0)))"

text \<open>The loop that seals \<open>n\<close> more chunks and collects their encapsulations.\<close>

fun push_kems ::
    "'sk deps \<Rightarrow> (nat \<Rightarrow> bytes32) \<Rightarrow> bytes32 \<Rightarrow> nat \<Rightarrow> bytes48 list \<Rightarrow> 'sk stream_endpoint
      \<Rightarrow> bytes48 list res \<times> 'sk stream_endpoint" where
  "push_kems D en stream 0 kems ep = (Ok kems, ep)"
| "push_kems D en stream (Suc n) kems ep =
     and_then_st (send_data D (Inr (en (length kems))) stream (ascii ''x'') NOW 0 ep) (\<lambda>e.
       push_kems D en stream n (kems @ [kem_enc (env_sealed e)]))"

definition every_frame_uses_a_unique_ephemeral ::
    "'sk deps \<Rightarrow> (bytes32 \<Rightarrow> 'sk) \<Rightarrow> (nat \<Rightarrow> bytes32) \<Rightarrow> bool" where
  "every_frame_uses_a_unique_ephemeral D derive en \<longleftrightarrow>
     (let p = pair D derive ''uniq'';
          alice = alice_of p;
          stream = cid D ''uniq/s''
      in unwrap (endpoint_open D (Inr (en 0)) stream 100 NOW 0 alice) (\<lambda>opn alice.
         unwrap (on_session stream (on_recv OpenAck (header OpenAck 0 100)) alice) (\<lambda>_ alice.
         unwrap (push_kems D en stream 16 [kem_enc (env_sealed opn)] alice) (\<lambda>kems alice.
           card (set kems) = length kems))))"

definition kem_of :: "'sk deps \<Rightarrow> bytes32 \<Rightarrow> bytes48" where
  "kem_of D ikm = public_key_bytes (crypto D) (sk_from_seed (crypto D) ikm)"

lemma seal_frame_kem: "seal_frame D (Inr ikm) k h d ts ex ep = (Ok e, ep') \<Longrightarrow> kem_enc (env_sealed e) = kem_of D ikm"
  by (auto simp: seal_frame_def Let_def seal_message_ephemeral sealed_for_def kem_of_def
      dest!: seal_with_ephemeral_fields)

lemma and_then_st_OkE:
  assumes "and_then_st z f = (Ok y, t)" obtains x s where "z = (Ok x, s)" "f x s = (Ok y, t)"
  using assms by (cases "(z, f)" rule: and_then_st.cases) auto

lemma send_data_kem: "send_data D (Inr ikm) k d ts ex ep = (Ok e, ep') \<Longrightarrow> kem_enc (env_sealed e) = kem_of D ikm"
  unfolding send_data_def by (erule and_then_st_OkE) (rule seal_frame_kem)

lemma open_kem: "endpoint_open D (Inr ikm) k w ts ex ep = (Ok e, ep') \<Longrightarrow> kem_enc (env_sealed e) = kem_of D ikm"
  by (auto simp: endpoint_open_def Let_def dest: seal_frame_kem split: if_splits)

lemma unwrap_also:
  assumes "unwrap z Q" and "\<And>x s. z = (Ok x, s) \<Longrightarrow> P x"
  shows "unwrap z (\<lambda>x s. P x \<and> Q x s)"
  using assms by (auto simp: unwrap_def split: prod.splits result.splits)

lemma unwrap_mono: "unwrap z Q \<Longrightarrow> (\<And>x s. Q x s \<Longrightarrow> R x s) \<Longrightarrow> unwrap z R"
  by (auto simp: unwrap_def split: prod.splits result.splits)

context sealing
begin

lemma push_kems_pushes:
  assumes a: "addressable D E"
  shows "kems = map (\<lambda>i. kem_of D (en i)) [0..<j] \<Longrightarrow> hm_get m k = Some s \<Longrightarrow> ss_handshake s = HsEstablished \<Longrightarrow>
    \<not> ss_local_closed s \<Longrightarrow> n \<le> unat (ss_send_credit s) \<Longrightarrow>
    unwrap (push_kems D en k n kems (at_state E m c g)) (\<lambda>kems ep. kems = map (\<lambda>i. kem_of D (en i)) [0..<j + n])"
proof (induction n arbitrary: kems j m s c)
  case 0
  then show ?case by simp
next
  case (Suc n)
  let ?s = "s\<lparr>ss_send_credit := ss_send_credit s - 1, ss_send_seq := ss_send_seq s + 1\<rparr>"
  have credit: "ss_send_credit s \<noteq> 0" using Suc.prems(5) by auto
  then have credits: "n \<le> unat (ss_send_credit ?s)" using Suc.prems(5) by (simp add: unat_minus_one)
  have bd: "build_data s = (Ok (header Data (ss_send_seq s) 0), ?s)"
    using Suc.prems credit by (simp add: build_data_def Let_def)
  have len: "length kems = j" using Suc.prems(1) by simp
  have "unwrap (send_data D (Inr (en j)) k (ascii ''x'') NOW 0 (at_state E m c g))
      (\<lambda>e ep. ep = at_state E (hm_insert k ?s m) (c + 1) g)"
    by (rule run_send_data [OF a Suc.prems(2) bd]) (simp_all add: MIN_COMPRESS_BYTES_def)
  then have "unwrap (send_data D (Inr (en j)) k (ascii ''x'') NOW 0 (at_state E m c g))
      (\<lambda>e ep. kem_enc (env_sealed e) = kem_of D (en j) \<and> ep = at_state E (hm_insert k ?s m) (c + 1) g)"
    by (rule unwrap_also) (rule send_data_kem)
  moreover have "unwrap (push_kems D en k n (kems @ [kem_of D (en j)]) (at_state E (hm_insert k ?s m) (c + 1) g))
      (\<lambda>kems ep. kems = map (\<lambda>i. kem_of D (en i)) [0..<Suc j + n])"
    by (rule Suc.IH [where s = ?s]) (use Suc.prems credits in simp_all)
  ultimately show ?case
    by (simp add: len) (erule unwrap_mono, auto)
qed

lemma unique_ephemeral_passes:
  assumes "distinct (map (\<lambda>i. kem_of D (en i)) [0..<17])"
  shows "every_frame_uses_a_unique_ephemeral D derive en"
proof -
  let ?p = "pair D derive ''uniq''" let ?k = "cid D ''uniq/s''"
  let ?E = "alice0 ?p" let ?s = "(initiator 100)\<lparr>ss_handshake := HsEstablished, ss_send_credit := 100\<rparr>"
  have opened: "unwrap (endpoint_open D (Inr (en 0)) ?k 100 NOW 0 (alice_of ?p))
      (\<lambda>e ep. kem_enc (env_sealed e) = kem_of D (en 0) \<and>
        ep = at_state ?E (hm_insert ?k (initiator 100) hm_new) 1 guard_new)"
    by (rule unwrap_also, unfold start, rule run_open, (simp add: run_simps; fail)+) (rule open_kem)
  have acked: "unwrap (on_session ?k (on_recv OpenAck (header OpenAck 0 100))
      (at_state ?E (hm_insert ?k (initiator 100) hm_new) 1 guard_new)) (\<lambda>_ ep. ep = at_state ?E (hm_insert ?k ?s hm_new) 1 guard_new)"
    by (rule run_on_session, (simp add: run_simps; fail)+)
  have "unwrap (push_kems D en ?k 16 [kem_of D (en 0)] (at_state ?E (hm_insert ?k ?s hm_new) 1 guard_new))
      (\<lambda>kems ep. kems = map (\<lambda>i. kem_of D (en i)) [0..<1 + 16])"
    by (rule push_kems_pushes [where s = ?s]) (simp_all add: run_simps)
  then have pushed: "unwrap (push_kems D en ?k 16 [kem_of D (en 0)] (at_state ?E (hm_insert ?k ?s hm_new) 1 guard_new))
      (\<lambda>kems ep. card (set kems) = length kems)"
    by (rule unwrap_mono) (rule distinct_card, use assms in simp)
  show ?thesis
    unfolding every_frame_uses_a_unique_ephemeral_def Let_def
    using opened by (rule unwrap_mono) (use acked pushed in \<open>auto elim!: unwrap_mono\<close>)
qed

lemma failed_verify_passes:
  assumes "tag_checked (crypto D)"
  shows "failed_verify_frame_is_dropped_never_reset D derive en"
proof -
  have dropped: "unwrap (accept D en' (flip_last e) rv now (at_state B hm_new cb g))
      (\<lambda>r ep. r = Dropped OpenFailed \<and> stream_count ep = 0)"
    if "carries D A k h d c ts ex e" "listens D rv A B" for en' e rv now A B cb g k h d c ts ex
    by (rule carries_sealed [OF that]) (simp add: accept_def open_flipped [OF assms] hm_len_def hm_new_def)
  show ?thesis
    unfolding failed_verify_frame_is_dropped_never_reset_def Let_def start
    apply (rule call, (simp add: run_simps; fail)+)
    apply (rule dropped, assumption, simp)
    done
qed

end

end
