(* ===== verification/Spec2Isabelle.thy ===== *)
theory Spec2Isabelle
  imports Seal_Gates Msg_Registry Stream_Adversary Unit_Tests Seal_Tests
begin

text \<open>
  \<^bold>\<open>dig-message\<close>: a verification development of the crate under \<open>src/src\<close>.

  \<^bold>\<open>The program.\<close> The crate is the message layer of a peer-to-peer network. A sender compresses a
  payload, signs a transcript of every header field and of the payload's hash, encrypts the
  signed inner message for the recipient with the cleartext header as associated data, and ships
  the envelope over an untrusted relay. The recipient resolves the sender's key, opens and
  verifies the envelope, checks expiry, consults a bounded anti-replay table, decompresses within
  a limit and dispatches by message type. On top runs a stream protocol: independent,
  flow-controlled, half-closable streams keyed by correlation id, each frame a sealed envelope.

  \<^bold>\<open>Theories, from the bottom up.\<close>

  \<^descr>[\<open>Msg_Prelude\<close>] machine integers at their width (\<open>u8\<close>, \<open>u32\<close>, \<open>u64\<close>, with \<open>as usize\<close> for a pointer
    width), saturating arithmetic, \<open>Result\<close> with panics as a third outcome, fixed-size byte
    arrays, big-endian bytes; the collections \<open>const_defs\<close>, \<open>result_elims\<close>, \<open>width_simps\<close>.
  \<^descr>[\<open>Hash_Map\<close>] the standard library's \<open>HashMap\<close>: the interface \<open>hash_table\<close>, interpreted (\<open>hm\<close>) on
    association lists with distinct keys; the anti-replay table, the stream registry and the
    type registry are its three clients.
  \<^descr>[\<open>Msg_Errors\<close>] \<open>constants.rs\<close> and \<open>error.rs\<close>.
  \<^descr>[\<open>Chia_Codec\<close>, \<open>Msg_Envelope\<close>, \<open>Chia_Format\<close>] \<open>envelope.rs\<close>: the wire structs, the tags, the derived
    \<open>Streamable\<close> codecs field by field, \<open>header_bytes\<close>, \<open>encode_envelope\<close>, \<open>decode_envelope\<close>. The
    primitive codecs of \<open>chia-traits\<close> are a parameter; the interface \<open>streamable\<close> says what a codec
    promises, \<open>chia_streamable\<close> and \<open>chia_sized\<close> extend it to the library, with a \<open>sublocale\<close> per
    derived struct. \<open>Chia_Format\<close> interprets them (\<open>chia\<close>) on the documented wire format.
  \<^descr>[\<open>Msg_Compression\<close>] \<open>compression.rs\<close>; zstd is a parameter with the interface \<open>zstd_codec\<close>,
    interpreted (\<open>rle\<close>) on a run-length coder.
  \<^descr>[\<open>Msg_Crypto\<close>, \<open>Msg_Transcript\<close>] the cryptographic libraries as a record of functions with the
    interface \<open>crypto_primitives\<close> (verification of one's own signatures, commuting key agreement,
    decryption of what was encrypted); \<open>transcript.rs\<close> byte for byte.
  \<^descr>[\<open>Replay_Guard\<close>] \<open>replay.rs\<close>: the bitmap window with its shifts on 64-bit words and the bounded
    table with eviction. The interface \<open>dedup_window\<close> is the contract against a full history,
    interpreted (\<open>window\<close>) on \<open>admit\<close>.
  \<^descr>[\<open>Msg_Seal\<close>] \<open>seal.rs\<close>: \<open>seal_message\<close>, \<open>seal_with_ephemeral\<close>, \<open>open_message\<close> and every helper. The
    interface \<open>sealing\<close> gathers the libraries' contracts; interpreted (\<open>sum\<close>) on small concrete
    libraries, so every theorem about it has an instance that computes.
  \<^descr>[\<open>Seal_Gates\<close>] why \<open>open_message\<close> fails: a table of causes (\<open>at_fault\<close>) told from the answers of the
    libraries and the guard's history, against which every outcome of the code is proved; and the
    payloads that are sealed but that no receiver opens.
  \<^descr>[\<open>Machines\<close>] machines as step functions, runs and traces; the interfaces \<open>machine_invariant\<close>,
    \<open>machine_monotone\<close> and \<open>credited_sequence\<close>, interpreted below as \<open>config\<close>, \<open>lifecycle\<close>,
    \<open>reset_latch\<close>, \<open>sending\<close> and \<open>receiving\<close>.
  \<^descr>[\<open>Stream_Session\<close>] \<open>StreamSession\<close> of \<open>stream.rs\<close>: the pure per-stream state machine, every
    operation with its refusals.
  \<^descr>[\<open>Stream_Endpoint\<close>] \<open>StreamEndpoint\<close> of \<open>stream.rs\<close>: every call, with the state it leaves behind
    when sealing fails, and \<open>accept\<close> on every branch.
  \<^descr>[\<open>Stream_Pair\<close>, \<open>Stream_Drain\<close>] two sessions at the ends of one stream, as a step relation; the
    invariant that conserves credit and numbers, and what becomes of a stream once its frames
    have been delivered.
  \<^descr>[\<open>Stream_Network\<close>] two endpoints exchanging sealed envelopes, with any number of streams; a
    simulation by the pair of sessions, stream by stream.
  \<^descr>[\<open>Stream_Adversary\<close>] the two endpoints under a network that does with the envelopes what it likes:
    a call of a host is \<open>endpoint_step\<close> with any arguments and any outcome, an arrival is \<open>accept\<close> of
    any envelope at any clock. The one restriction is symbolic unforgeability (\<open>unforged\<close>), asked of the
    signature primitive and not of the receiver: a signature in an envelope that verifies under the
    peer's public key was made by the peer for those bytes, and the payload hash does not collide
    there; and the resolver has no other key for the peer (\<open>only_key\<close>).
  \<^descr>[\<open>Msg_Registry\<close>] \<open>registry.rs\<close>: bands, registration and dispatch, with the interface
    \<open>additive_table\<close>, interpreted as \<open>registry\<close>.
  \<^descr>[\<open>Run_Rules\<close>] rules for concrete runs of the endpoint's calls: one introduction rule per call and
    outcome, over any libraries that satisfy \<open>sealing\<close>; chunks that arrive out of order; and a stream
    closed before it is established.
  \<^descr>[\<open>Unit_Tests\<close>, \<open>Stream_Tests\<close>, \<open>Layer_Tests\<close>, \<open>Seal_Tests\<close>] the crate's own tests, assertion by
    assertion over the model: those of the codec, the guard, the session and the registry; the
    end-to-end tests of \<open>stream.rs\<close>; those of \<open>transcript.rs\<close> and \<open>compression.rs\<close>; those of
    \<open>seal.rs\<close>. They are proved to pass with any libraries that satisfy the interfaces, any key
    derivation and any entropy; a test that needs one fact more has it as a hypothesis
    (\<open>tag_checked\<close>, \<open>zstd_bounded\<close>, \<open>shrinks\<close>, two labels hash differently).

  This theory joins sealing and dispatch.

  \<^bold>\<open>Modelling conventions.\<close> Structs are records, enums are datatypes, \<open>&mut self\<close> is state passing
  with the state returned next to the result. \<open>Result\<close> has the outcomes \<open>Ok\<close>, \<open>Err\<close> and \<open>Panic\<close>, so
  that an index out of range or an \<open>expect\<close> is an outcome to be excluded, and the absence of panics
  is proved. Arithmetic on \<open>u64\<close> counters wraps, as in a release build; where a theorem needs that
  a counter has not wrapped, it says so. \<open>as usize\<close> takes the pointer width as an argument
  (\<open>admit pw\<close>); the guard uses \<open>POINTER_WIDTH\<close>, 64 bits, and the property on 32 bits shows why that
  matters. The outcome of the entropy source, the clock, the resolver, and the iteration order of
  a \<open>HashMap\<close> are arguments. No definition uses fuel: every loop of the crate is a bounded loop over
  an array or a map and is modelled by a fold or by structural recursion; \<open>drain\<close>, which is not part
  of the crate, terminates by a measure.

  \<^bold>\<open>What is shown.\<close>

  \<^item> Sealing (\<open>Msg_Seal\<close>): the round trip from \<open>seal_message\<close> through the codec to \<open>open_message\<close>; what an
    accepted message has passed; that only an authenticated, fresh, new message changes the guard;
    that nothing opens twice; that no input makes it panic. Every error with its cause, and what it
    leaves of the guard (\<open>Seal_Gates\<close>).
  \<^item> Anti-replay (\<open>Replay_Guard\<close>): the bitmap decides as the full history; its shift is one 1024-bit
    shift; within its capacity the guard decides as the full histories of all senders, so it
    admits nothing twice; in any state, the verdict of one admission and what eviction removes;
    how a 32-bit \<open>usize\<close> lets counters be accepted twice.
  \<^item> Wire format and compression: both round trips, exact sizes and limits, injectivity of the signed
    bytes and of the associated data.
  \<^item> Streams: numbering and credit of one session over every run; conservation between two honest
    ends; that delivery terminates, loses nothing and leaves both ends in agreement; endpoints:
    bounds, counters, when a RESET is sent and that none is answered, that foreign, replayed or
    unverifiable frames change no stream, a replayed one after any calls in between; that chunks out
    of order end their stream without being delivered; what each honest frame is reported as; and that two endpoints, with seals and guards in
    between, behave on every stream as the two pure sessions do.
  \<^item> Streams under attack: injective agreement between what a host takes and what its peer sealed;
    what is delivered on a stream is a prefix of what was sealed on it. Used there: fewer than
    \<open>2 ^ 64 - 1\<close> frames per host, correlation ids opened once (they are random), a resolver that
    knows no more senders than the anti-replay table holds and only the peer's own key. Orderly runs are among these runs
    (\<open>orderly_run_possible\<close>).
  \<^item> Registry: the first registration of an id stands; dispatch on every branch.

  \<^bold>\<open>Deviations found\<close> are stated as theorems where the code has them: \<open>truncated_window_accepts_replay\<close>,
  \<open>early_close_is_refused\<close>, \<open>failed_send_leaves_gap\<close>, \<open>oversized_payload_unreadable\<close>,
  \<open>transcript_omits_window\<close>.

  \<^bold>\<open>Not modelled.\<close> \<open>lib.rs\<close> (re-exports), the \<open>Display\<close> texts of the errors, the build files, and the
  tests that no functional law of the libraries decides: those that the plaintext does not appear
  on the wire, that a wrong key, a changed header or a changed field is refused, that compression
  falls back on incompressible data or reaches a size, and the vectors of \<open>tests/kat.rs\<close>. The hardness
  of the cryptography is not modelled: outside \<open>Stream_Adversary\<close> nothing is assumed about what an
  attacker cannot forge, so the authenticity theorems say which checks an accepted message has
  passed, and \<open>Stream_Adversary\<close> names its assumption in the step of the network; secrecy is not
  stated. The network of \<open>Stream_Network\<close> delivers in order and in time, as the transport under the
  crate does.
\<close>

section \<open>A sample kind\<close>

text \<open>A kind of the peer-RPC band that carries a byte string, and a handler that logs it.\<close>

definition blob_kind :: "bytes message_kind" where
  "blob_kind = \<lparr>TYPE_ID = 0x100, payload_codec = vec_codec\<rparr>"

definition log_handler :: "bytes \<Rightarrow> bytes list \<Rightarrow> unit res \<times> bytes list" where
  "log_handler b w = (Ok (), w @ [b])"

definition blob_params :: "u8 seal_params" where
  "blob_params = sample_params\<lparr>sp_payload := to_be_bytes (3 :: u32) @ [10, 20, 30]\<rparr>"

lemma blob_seal: "\<exists>e. seal_message sum_deps (Inr (array_of_byte 11)) blob_params = Ok e"
proof -
  have "\<exists>c. compress_payload (zstd sum_deps) (sp_payload blob_params) = Ok c"
    by (simp add: blob_params_def compress_payload_def u32_try_from_def const_defs)
  then obtain c where c: "compress_payload (zstd sum_deps) (sp_payload blob_params) = Ok c" by blast
  have "sp_recipient_pub blob_params = public_key_bytes (crypto sum_deps) 5"
    by (simp add: blob_params_def sum_deps_def sum_crypto_def)
  from sum.seal_total [OF c this] show ?thesis by (simp add: seal_message_ephemeral)
qed

lemma blob_addressed: "addressed sum_deps 5 sample_resolver blob_params"
  using sample_addressed by (simp add: addressed_def blob_params_def)

section \<open>From the wire to the application\<close>

text \<open>
  C19: a typed message reaches its handler. A payload of a registered kind, encoded, sealed under
  the kind's type id and opened by the receiver in time, is dispatched to the handler first
  registered for that id, which runs on exactly the sender's typed value.
\<close>
theorem sealed_message_dispatched:
  assumes "sealing D" and "seal_message D entropy p = Ok e" and "addressed D rsk resolve p"
    and "guard_models g F" and "length (sp_payload p) \<le> MAX_DECOMPRESSED_BYTES"
    and "check_expiry (sp_timestamp_ms p) (sp_expires_at p) now = Ok ()"
    and "fresh (sp_timestamp_ms p) now"
    and "accepts (F (sp_sender p, sp_sender_epoch p)) (unat (sp_counter p))"
    and "sp_message_type p = TYPE_ID K" and "valid_codec (payload_codec K)"
    and "to_bytes (payload_codec K) x = Inr (sp_payload p)"
    and "find (\<lambda>(K', h'). TYPE_ID K' = TYPE_ID K) xs = Some (K, h)"
  shows "\<exists>m g'. open_message D rsk e resolve g now = (Ok m, g') \<and>
    dispatch (om_message_type m) (om_shape m) (om_payload m) (register_all l xs registry_new) w
      = (case h x w of (r, w') \<Rightarrow> (and_then r (\<lambda>_. Ok Handled), w'))"
proof -
  obtain esk where seal: "seal_with_ephemeral D p esk = Ok e" using assms(2) by (rule seal_message_OkE)
  obtain g' where "open_message D rsk e resolve g now = (Ok (opened_of p), g')"
    using sealing.open_sealed [OF assms(1) seal assms(3-6)] assms(7,8) by auto
  moreover have "from_bytes l (payload_codec K) (sp_payload p) = Inr x"
    by (rule from_bytes_to_bytes [OF assms(10,11)])
  ultimately show ?thesis
    using assms(9,12) by (auto simp: opened_of_def dispatch_register_all)
qed

theorem sealed_message_dispatched_witness:
  "\<exists>e m g'. seal_message sum_deps (Inr (array_of_byte 11)) blob_params = Ok e \<and>
     open_message sum_deps 5 e sample_resolver guard_new 2000 = (Ok m, g') \<and>
     dispatch (om_message_type m) (om_shape m) (om_payload m)
       (register_all ''trailing bytes'' [(blob_kind, log_handler)] registry_new) []
       = (Ok Handled, [[10, 20, 30]])"
proof -
  obtain e where e: "seal_message sum_deps (Inr (array_of_byte 11)) blob_params = Ok e" using blob_seal by blast
  have v: "valid_codec (payload_codec blob_kind)" by (simp add: blob_kind_def valid_vec_codec)
  have b: "to_bytes (payload_codec blob_kind) [10, 20, 30] = Inr (sp_payload blob_params)"
    by (simp add: blob_kind_def to_bytes_def vec_codec_def blob_params_def)
  have f: "find (\<lambda>(K', h'). TYPE_ID K' = TYPE_ID blob_kind) [(blob_kind, log_handler)] = Some (blob_kind, log_handler)"
    by simp
  show ?thesis
    using sealed_message_dispatched [OF sum.sealing_axioms e blob_addressed guard_models_new _ _ _ _ _ v b f,
        of 2000 "''trailing bytes''" "[]"] e
    by (auto simp: blob_params_def blob_kind_def log_handler_def const_defs) (simp add: sample_params_def)
qed

end
